(* ===== verification/CircuitBreaker.thy ===== *)
theory CircuitBreaker
  imports Prelude
begin

text \<open>
  The circuit breaker of \<open>internal/middleware/circuitbreaker/circuitbreaker.go\<close>.

  \<open>Execute\<close> holds the mutex in two sections, before and after the call of \<open>fn\<close>; each is one
  function here (\<open>execute_pre\<close>, \<open>execute_post\<close>), because the mutex makes each of them atomic.
  \<open>Execute\<close> is their composition around an arbitrary \<open>fn\<close> on a shared world, and the step
  relation \<open>cb_step\<close> interleaves the sections of any number of concurrent calls.
  Counters are unbounded integers: a Go \<open>int\<close> would need $2^{63}$ calls to wrap.
\<close>

section \<open>Data\<close>

datatype State = StateClosed | StateOpen | StateHalfOpen

definition State_String :: "State \<Rightarrow> string" where
  "State_String s = (case s of
       StateClosed \<Rightarrow> ''closed''
     | StateOpen \<Rightarrow> ''open''
     | StateHalfOpen \<Rightarrow> ''half_open'')"

record CircuitBreakerConfig =
  FailureThreshold :: int
  SuccessThreshold :: int
  CBTimeout :: int

record CircuitBreaker =
  state :: State
  failureCount :: int
  successCount :: int
  halfOpenProbing :: bool
  failureThreshold :: int
  successThreshold :: int
  timeout :: int
  openedAt :: int
  routeName :: string

section \<open>Operations\<close>

definition cb_New :: "CircuitBreakerConfig \<Rightarrow> string \<Rightarrow> CircuitBreaker" where
  "cb_New cfg name = \<lparr>state = StateClosed, failureCount = 0, successCount = 0,
     halfOpenProbing = False, failureThreshold = FailureThreshold cfg,
     successThreshold = SuccessThreshold cfg, timeout = CBTimeout cfg,
     openedAt = zeroTime, routeName = name\<rparr>"

text \<open>\<open>setState\<close> returns the new breaker, the previous state and whether it changed; \<open>t\<close> is
  what \<open>cb.now()\<close> returns.\<close>

definition setState :: "int \<Rightarrow> State \<Rightarrow> CircuitBreaker \<Rightarrow> CircuitBreaker \<times> State \<times> bool" where
  "setState t to cb =
     (let cb' = cb\<lparr>state := to, failureCount := 0, successCount := 0, halfOpenProbing := False\<rparr>
      in (if to = StateOpen then cb'\<lparr>openedAt := t\<rparr> else cb', state cb, state cb \<noteq> to))"

text \<open>The outcome of the first section: rejected, or admitted with \<open>isProbe\<close> and the transition
  the callback is told about.\<close>

datatype admission = Rejected | Admitted bool "(State \<times> State) option"

definition execute_pre :: "int \<Rightarrow> CircuitBreaker \<Rightarrow> CircuitBreaker \<times> admission" where
  "execute_pre t cb =
     (let checked = (if state cb = StateOpen
                     then (if timeout cb \<le> Sub t (openedAt cb)
                           then (case setState t StateHalfOpen cb of (cb', from, changed) \<Rightarrow>
                                   Some (cb', if changed then Some (from, StateHalfOpen) else None))
                           else None)
                     else Some (cb, None))
      in (case checked of
            None \<Rightarrow> (cb, Rejected)
          | Some (cb', ch) \<Rightarrow>
              (if state cb' = StateHalfOpen
               then (if halfOpenProbing cb' then (cb', Rejected)
                     else (cb'\<lparr>halfOpenProbing := True\<rparr>, Admitted True ch))
               else (cb', Admitted False ch))))"

definition execute_post ::
  "int \<Rightarrow> bool \<Rightarrow> bool \<Rightarrow> CircuitBreaker \<Rightarrow> CircuitBreaker \<times> (State \<times> State) option" where
  "execute_post t isProbe failed cb0 =
     (let cb = (if isProbe then cb0\<lparr>halfOpenProbing := False\<rparr> else cb0);
          to = (\<lambda>s c. case setState t s c of (c', from, changed) \<Rightarrow>
                  (c', if changed then Some (from, s) else None))
      in if failed then
           (let cb1 = cb\<lparr>failureCount := failureCount cb + 1, successCount := 0\<rparr>
            in if state cb1 = StateHalfOpen then to StateOpen cb1
               else if state cb1 = StateClosed \<and> failureThreshold cb1 \<le> failureCount cb1
                    then to StateOpen cb1
               else (cb1, None))
         else
           (let cb1 = cb\<lparr>successCount := successCount cb + 1, failureCount := 0\<rparr>
            in if state cb1 = StateHalfOpen \<and> successThreshold cb1 \<le> successCount cb1
               then to StateClosed cb1
               else (cb1, None)))"

text \<open>
  \<open>fn\<close> returns nil or an error, or panics: \<open>Execute\<close> has no \<open>defer\<close>, so a panic leaves by the
  stack and the second section is skipped. \<open>now\<close> reads the clock; \<open>get\<close> and \<open>put\<close> reach the breaker inside the world
  \<open>'w\<close>, so that \<open>fn\<close> may also stand for whatever other calls do to the breaker meanwhile.
\<close>

datatype ('e, 'p) fn_result = FnNil | FnErr 'e | FnPanic 'p

datatype ('e, 'p) exec_result = ExecNil | ErrCircuitOpen | ExecErr 'e | ExecPanic 'p

definition fire :: "(State \<Rightarrow> State \<Rightarrow> 'w \<Rightarrow> 'w) \<Rightarrow> (State \<times> State) option \<Rightarrow> 'w \<Rightarrow> 'w" where
  "fire onStateChange ch w = (case ch of None \<Rightarrow> w | Some (from, to) \<Rightarrow> onStateChange from to w)"

definition Execute ::
  "('w \<Rightarrow> int) \<Rightarrow> ('w \<Rightarrow> CircuitBreaker) \<Rightarrow> (CircuitBreaker \<Rightarrow> 'w \<Rightarrow> 'w) \<Rightarrow>
   (State \<Rightarrow> State \<Rightarrow> 'w \<Rightarrow> 'w) \<Rightarrow> ('w \<Rightarrow> ('e, 'p) fn_result \<times> 'w) \<Rightarrow> 'w \<Rightarrow>
   ('e, 'p) exec_result \<times> 'w" where
  "Execute now get put onStateChange fn w =
     (case execute_pre (now w) (get w) of
        (cb, Rejected) \<Rightarrow> (ErrCircuitOpen, put cb w)
      | (cb, Admitted isProbe ch) \<Rightarrow>
          (case fn (fire onStateChange ch (put cb w)) of
             (FnPanic p, w1) \<Rightarrow> (ExecPanic p, w1)
           | (FnErr e, w1) \<Rightarrow>
               (case execute_post (now w1) isProbe True (get w1) of (cb', ch') \<Rightarrow>
                  (ExecErr e, fire onStateChange ch' (put cb' w1)))
           | (FnNil, w1) \<Rightarrow>
               (case execute_post (now w1) isProbe False (get w1) of (cb', ch') \<Rightarrow>
                  (ExecNil, fire onStateChange ch' (put cb' w1)))))"

section \<open>Concurrent calls\<close>

text \<open>
  A system of calls: the shared breaker, the calls between their two sections with their
  \<open>isProbe\<close>, the clock, and the transitions reported so far (newest first). \<open>Crash\<close> is a call
  whose \<open>fn\<close> panics.
\<close>

record cb_sys =
  breaker :: CircuitBreaker
  inflight :: "nat \<rightharpoonup> bool"
  clock :: int
  reported :: "(State \<times> State) list"

datatype cb_label = Enter nat | Refuse nat | Leave nat bool | Crash nat | Tick int

definition report :: "(State \<times> State) option \<Rightarrow> cb_sys \<Rightarrow> cb_sys" where
  "report ch s = (case ch of None \<Rightarrow> s | Some x \<Rightarrow> s\<lparr>reported := x # reported s\<rparr>)"

inductive cb_step :: "cb_sys \<Rightarrow> cb_label \<Rightarrow> cb_sys \<Rightarrow> bool" where
  enter: "inflight s i = None \<Longrightarrow> execute_pre (clock s) (breaker s) = (cb, Admitted p ch) \<Longrightarrow>
     cb_step s (Enter i) (report ch (s\<lparr>breaker := cb, inflight := (inflight s)(i \<mapsto> p)\<rparr>))"
| refuse: "inflight s i = None \<Longrightarrow> execute_pre (clock s) (breaker s) = (cb, Rejected) \<Longrightarrow>
     cb_step s (Refuse i) (s\<lparr>breaker := cb\<rparr>)"
| leave: "inflight s i = Some p \<Longrightarrow> execute_post (clock s) p failed (breaker s) = (cb, ch) \<Longrightarrow>
     cb_step s (Leave i failed) (report ch (s\<lparr>breaker := cb, inflight := (inflight s)(i := None)\<rparr>))"
| crash: "inflight s i = Some p \<Longrightarrow>
     cb_step s (Crash i) (s\<lparr>inflight := (inflight s)(i := None)\<rparr>)"
| tick: "0 \<le> d \<Longrightarrow> cb_step s (Tick d) (s\<lparr>clock := clock s + d\<rparr>)"

definition cb_init :: "CircuitBreakerConfig \<Rightarrow> string \<Rightarrow> int \<Rightarrow> cb_sys" where
  "cb_init cfg name t = \<lparr>breaker = cb_New cfg name, inflight = Map.empty, clock = t, reported = []\<rparr>"

inductive cb_steps :: "cb_sys \<Rightarrow> cb_label list \<Rightarrow> cb_sys \<Rightarrow> bool" where
  stop: "cb_steps s [] s"
| more: "cb_steps s ls u \<Longrightarrow> cb_step u l v \<Longrightarrow> cb_steps s (ls @ [l]) v"

text \<open>The same steps as a function, to run concrete schedules.\<close>

definition cb_fire :: "cb_label \<Rightarrow> cb_sys \<Rightarrow> cb_sys option" where
  "cb_fire l s = (case l of
       Enter i \<Rightarrow>
         (case (inflight s i, execute_pre (clock s) (breaker s)) of
            (None, cb, Admitted p ch) \<Rightarrow>
              Some (report ch (s\<lparr>breaker := cb, inflight := (inflight s)(i \<mapsto> p)\<rparr>))
          | _ \<Rightarrow> None)
     | Refuse i \<Rightarrow>
         (case (inflight s i, execute_pre (clock s) (breaker s)) of
            (None, cb, Rejected) \<Rightarrow> Some (s\<lparr>breaker := cb\<rparr>)
          | _ \<Rightarrow> None)
     | Leave i failed \<Rightarrow>
         (case inflight s i of
            Some p \<Rightarrow> (case execute_post (clock s) p failed (breaker s) of (cb, ch) \<Rightarrow>
              Some (report ch (s\<lparr>breaker := cb, inflight := (inflight s)(i := None)\<rparr>)))
          | None \<Rightarrow> None)
     | Crash i \<Rightarrow>
         (case inflight s i of
            Some p \<Rightarrow> Some (s\<lparr>inflight := (inflight s)(i := None)\<rparr>)
          | None \<Rightarrow> None)
     | Tick d \<Rightarrow> (if 0 \<le> d then Some (s\<lparr>clock := clock s + d\<rparr>) else None))"

fun cb_run :: "cb_label list \<Rightarrow> cb_sys \<Rightarrow> cb_sys option" where
  "cb_run [] s = Some s"
| "cb_run (l # ls) s = (case cb_fire l s of None \<Rightarrow> None | Some u \<Rightarrow> cb_run ls u)"

section \<open>The abstract breaker\<close>

text \<open>
  What the package promises of calls that do not overlap: closed with the number of
  consecutive failures, open since an instant, or half-open with the number of successful
  probes.
\<close>

datatype spec_state = SClosed int | SOpen int | SHalf int

definition spec_admit :: "CircuitBreakerConfig \<Rightarrow> int \<Rightarrow> spec_state \<Rightarrow> spec_state option" where
  "spec_admit cfg t s = (case s of
       SOpen since \<Rightarrow> (if CBTimeout cfg \<le> Sub t since then Some (SHalf 0) else None)
     | _ \<Rightarrow> Some s)"

definition spec_record :: "CircuitBreakerConfig \<Rightarrow> int \<Rightarrow> bool \<Rightarrow> spec_state \<Rightarrow> spec_state" where
  "spec_record cfg t failed s = (case s of
       SClosed n \<Rightarrow> (if \<not> failed then SClosed 0
                     else if FailureThreshold cfg \<le> n + 1 then SOpen t else SClosed (n + 1))
     | SHalf n \<Rightarrow> (if failed then SOpen t
                   else if SuccessThreshold cfg \<le> n + 1 then SClosed 0 else SHalf (n + 1))
     | SOpen since \<Rightarrow> SOpen since)"

definition abs_breaker :: "CircuitBreaker \<Rightarrow> spec_state" where
  "abs_breaker cb = (case state cb of
       StateClosed \<Rightarrow> SClosed (failureCount cb)
     | StateOpen \<Rightarrow> SOpen (openedAt cb)
     | StateHalfOpen \<Rightarrow> SHalf (successCount cb))"

definition cfg_of :: "CircuitBreaker \<Rightarrow> CircuitBreakerConfig" where
  "cfg_of cb = \<lparr>FailureThreshold = failureThreshold cb, SuccessThreshold = successThreshold cb,
                CBTimeout = timeout cb\<rparr>"

text \<open>A whole call by itself: admission, outcome, record.\<close>

definition solo :: "int \<Rightarrow> int \<Rightarrow> bool \<Rightarrow> CircuitBreaker \<Rightarrow> CircuitBreaker" where
  "solo t t' failed cb = (case execute_pre t cb of
       (cb', Rejected) \<Rightarrow> cb'
     | (cb', Admitted p ch) \<Rightarrow> fst (execute_post t' p failed cb'))"

fun solos :: "(int \<times> int \<times> bool) list \<Rightarrow> CircuitBreaker \<Rightarrow> CircuitBreaker" where
  "solos [] cb = cb"
| "solos ((t, t', failed) # ks) cb = solos ks (solo t t' failed cb)"

definition spec_call :: "CircuitBreakerConfig \<Rightarrow> int \<Rightarrow> int \<Rightarrow> bool \<Rightarrow> spec_state \<Rightarrow> spec_state" where
  "spec_call cfg t t' failed s = (case spec_admit cfg t s of
       None \<Rightarrow> s
     | Some s' \<Rightarrow> spec_record cfg t' failed s')"

fun spec_calls :: "CircuitBreakerConfig \<Rightarrow> (int \<times> int \<times> bool) list \<Rightarrow> spec_state \<Rightarrow> spec_state" where
  "spec_calls cfg [] s = s"
| "spec_calls cfg ((t, t', failed) # ks) s = spec_calls cfg ks (spec_call cfg t t' failed s)"

text \<open>
  Calls of \<open>Execute\<close> one after another, and the same calls on the abstract machine. A call is given by the
  time that passes before it, the time \<open>fn\<close> takes and the error \<open>fn\<close> returns, if any; the results of
  the calls are kept, so that it shows which were refused.
\<close>

fun executes ::
  "(int \<times> int \<times> 'e option) list \<Rightarrow> cb_sys \<Rightarrow> ('e, 'p) exec_result list \<times> cb_sys" where
  "executes [] s = ([], s)"
| "executes ((d, e, err) # ks) s =
     (case Execute clock breaker (\<lambda>cb s. s\<lparr>breaker := cb\<rparr>) (\<lambda>from to s. s\<lparr>reported := (from, to) # reported s\<rparr>)
        (\<lambda>s. (case err of None \<Rightarrow> FnNil | Some x \<Rightarrow> FnErr x, s\<lparr>clock := clock s + e\<rparr>)) (s\<lparr>clock := clock s + d\<rparr>) of
        (res, s1) \<Rightarrow> (case executes ks s1 of (rs, s2) \<Rightarrow> (res # rs, s2)))"

fun spec_executes ::
  "CircuitBreakerConfig \<Rightarrow> (int \<times> int \<times> 'e option) list \<Rightarrow> spec_state \<Rightarrow> int \<Rightarrow>
   ('e, 'p) exec_result list \<times> spec_state \<times> int" where
  "spec_executes cfg [] q t = ([], q, t)"
| "spec_executes cfg ((d, e, err) # ks) q t =
     (case spec_admit cfg (t + d) q of
        None \<Rightarrow> (case spec_executes cfg ks q (t + d) of (rs, z) \<Rightarrow> (ErrCircuitOpen # rs, z))
      | Some q' \<Rightarrow>
          (case spec_executes cfg ks (spec_record cfg (t + d + e) (err \<noteq> None) q') (t + d + e) of
             (rs, z) \<Rightarrow> ((case err of None \<Rightarrow> ExecNil | Some x \<Rightarrow> ExecErr x) # rs, z)))"

text \<open>The edges of the state diagram, and lists of transitions (newest first) that lead from the
  closed state to a given state along them.\<close>

fun legal :: "State \<Rightarrow> State \<Rightarrow> bool" where
  "legal StateClosed StateOpen = True"
| "legal StateOpen StateHalfOpen = True"
| "legal StateHalfOpen StateOpen = True"
| "legal StateHalfOpen StateClosed = True"
| "legal _ _ = False"

fun path_to :: "(State \<times> State) list \<Rightarrow> State \<Rightarrow> bool" where
  "path_to [] s = (s = StateClosed)"
| "path_to ((a, b) # r) s = (b = s \<and> legal a b \<and> path_to r a)"

section \<open>Invariant\<close>

text \<open>The counters stay below the thresholds that would have moved the state, and the probe
  flag is only up in the half-open state.\<close>

definition cb_inv :: "CircuitBreaker \<Rightarrow> bool" where
  "cb_inv cb \<longleftrightarrow>
     0 \<le> failureCount cb \<and> 0 \<le> successCount cb \<and>
     (state cb = StateClosed \<longrightarrow> failureCount cb < failureThreshold cb) \<and>
     (state cb = StateHalfOpen \<longrightarrow> successCount cb < successThreshold cb \<and> failureCount cb = 0) \<and>
     (halfOpenProbing cb \<longrightarrow> state cb = StateHalfOpen)"

definition sane :: "CircuitBreakerConfig \<Rightarrow> bool" where
  "sane cfg \<longleftrightarrow> 1 \<le> FailureThreshold cfg \<and> 1 \<le> SuccessThreshold cfg"

text \<open>Without a panic, the probe flag is owned by a probe in flight.\<close>

definition probe_owned :: "cb_sys \<Rightarrow> bool" where
  "probe_owned s \<longleftrightarrow> (halfOpenProbing (breaker s) \<longrightarrow> (\<exists>i. inflight s i = Some True))"

text \<open>A half-open breaker whose probe is gone refuses everybody, as long as only the calls \<open>old\<close> are in
  flight and none of them returns.\<close>

definition wedged :: "nat set \<Rightarrow> cb_sys \<Rightarrow> bool" where
  "wedged old s \<longleftrightarrow> state (breaker s) = StateHalfOpen \<and> halfOpenProbing (breaker s) \<and> dom (inflight s) \<subseteq> old"

text \<open>Between calls that do not overlap the probe flag is down.\<close>

definition quiet :: "CircuitBreaker \<Rightarrow> bool" where
  "quiet cb \<longleftrightarrow> \<not> halfOpenProbing cb \<and> (state cb = StateHalfOpen \<longrightarrow> failureCount cb = 0)"

section \<open>Lemmas on the two sections\<close>

lemmas section_defs = execute_pre_def execute_post_def setState_def

lemma execute_pre_cfg [simp]: "execute_pre t cb = (cb', a) \<Longrightarrow> cfg_of cb' = cfg_of cb"
  by (auto simp: execute_pre_def setState_def cfg_of_def Let_def split: if_splits)

lemma execute_post_cfg [simp]: "execute_post t p f cb = (cb', ch) \<Longrightarrow> cfg_of cb' = cfg_of cb"
  by (auto simp: execute_post_def setState_def cfg_of_def Let_def split: if_splits)

lemma cfg_of_New [simp]: "cfg_of (cb_New cfg name) = cfg"
  by (simp add: cfg_of_def cb_New_def)

lemma cb_inv_New: "sane cfg \<Longrightarrow> cb_inv (cb_New cfg name)"
  by (simp add: cb_inv_def cb_New_def sane_def)

lemma execute_pre_inv:
  "execute_pre t cb = (cb', a) \<Longrightarrow> sane (cfg_of cb) \<Longrightarrow> cb_inv cb \<Longrightarrow> cb_inv cb'"
  by (auto simp: execute_pre_def setState_def cfg_of_def sane_def cb_inv_def Let_def
      split: if_splits)

lemma execute_post_inv:
  "execute_post t p f cb = (cb', ch) \<Longrightarrow> sane (cfg_of cb) \<Longrightarrow> cb_inv cb \<Longrightarrow> cb_inv cb'"
  by (auto simp: execute_post_def setState_def cfg_of_def sane_def cb_inv_def Let_def
      split: if_splits)

lemma execute_pre_rejected:
  "execute_pre t cb = (cb', Rejected) \<Longrightarrow>
     cb' = cb \<and> (state cb = StateOpen \<and> Sub t (openedAt cb) < timeout cb \<or>
                 state cb = StateHalfOpen \<and> halfOpenProbing cb)"
  by (auto simp: execute_pre_def setState_def Let_def split: if_splits)

lemma execute_pre_admitted:
  "execute_pre t cb = (cb', Admitted p ch) \<Longrightarrow>
     (state cb = StateClosed \<and> cb' = cb \<and> \<not> p \<and> ch = None) \<or>
     (state cb = StateHalfOpen \<and> \<not> halfOpenProbing cb \<and> p \<and> ch = None \<and>
        cb' = cb\<lparr>halfOpenProbing := True\<rparr>) \<or>
     (state cb = StateOpen \<and> timeout cb \<le> Sub t (openedAt cb) \<and> p \<and>
        ch = Some (StateOpen, StateHalfOpen) \<and> state cb' = StateHalfOpen \<and> halfOpenProbing cb')"
  by (cases "state cb") (auto simp: execute_pre_def setState_def Let_def split: if_splits)

lemma execute_pre_path:
  "execute_pre t cb = (cb', Admitted p ch) \<Longrightarrow>
     (ch = None \<and> state cb' = state cb) \<or>
     (ch = Some (state cb, state cb') \<and> legal (state cb) (state cb'))"
  by (cases "state cb") (auto simp: execute_pre_def setState_def Let_def split: if_splits)

lemma execute_post_path:
  "execute_post t p f cb = (cb', ch) \<Longrightarrow>
     (ch = None \<and> state cb' = state cb) \<or>
     (ch = Some (state cb, state cb') \<and> legal (state cb) (state cb'))"
  by (cases "state cb") (auto simp: execute_post_def setState_def Let_def split: if_splits)

lemma execute_post_probe_flag:
  "execute_post t p f cb = (cb', ch) \<Longrightarrow> halfOpenProbing cb' \<Longrightarrow> halfOpenProbing cb \<and> \<not> p"
  by (auto simp: execute_post_def setState_def Let_def split: if_splits)

section \<open>Lemmas on runs\<close>

lemma report_simps [simp]:
  "breaker (report ch s) = breaker s"
  "inflight (report ch s) = inflight s"
  "clock (report ch s) = clock s"
  "reported (report ch s) = (case ch of None \<Rightarrow> reported s | Some x \<Rightarrow> x # reported s)"
  by (auto simp: report_def split: option.splits)

inductive_cases cb_stepE: "cb_step s l s'"

lemma cb_step_fire: "cb_step s l s' \<longleftrightarrow> cb_fire l s = Some s'"
proof
  assume "cb_step s l s'"
  then show "cb_fire l s = Some s'"
    by (induction rule: cb_step.induct) (auto simp: cb_fire_def)
next
  assume "cb_fire l s = Some s'"
  then show "cb_step s l s'"
    by (auto simp: cb_fire_def intro: cb_step.intros
        split: cb_label.splits option.splits prod.splits admission.splits if_splits)
qed

lemma cb_steps_Cons: "cb_step s l u \<Longrightarrow> cb_steps u ls v \<Longrightarrow> cb_steps s (l # ls) v"
proof (rotate_tac, induction rule: cb_steps.induct)
  case (stop s')
  then show ?case using cb_steps.more [OF cb_steps.stop, of s l s'] by simp
next
  case (more s' ls u' l' v')
  then have "cb_steps s (l # ls) u'" by blast
  from cb_steps.more [OF this more.hyps(2)] show ?case by simp
qed

lemma cb_run_steps: "cb_run ls s = Some u \<Longrightarrow> cb_steps s ls u"
  by (induction ls arbitrary: s)
    (auto intro: cb_steps.stop cb_steps_Cons simp: cb_step_fire split: option.splits)

text \<open>An invariant of single steps is one of runs; \<open>P\<close> restricts the labels.\<close>

lemma cb_steps_invariant:
  assumes "cb_steps s ls u" and "I s"
    and "\<And>l. l \<in> set ls \<Longrightarrow> P l"
    and "\<And>v l v'. I v \<Longrightarrow> P l \<Longrightarrow> cb_step v l v' \<Longrightarrow> I v'"
  shows "I u"
  using assms by (induction rule: cb_steps.induct) auto

lemma cb_step_sane_inv:
  "cb_step s l u \<Longrightarrow> sane (cfg_of (breaker s)) \<and> cb_inv (breaker s) \<Longrightarrow>
     cfg_of (breaker u) = cfg_of (breaker s) \<and> cb_inv (breaker u)"
  by (induction rule: cb_step.induct) (auto dest: execute_pre_inv execute_post_inv)

lemma cb_steps_cfg_inv:
  assumes "cb_steps (cb_init cfg name t) ls s" and "sane cfg"
  shows "cfg_of (breaker s) = cfg \<and> cb_inv (breaker s)"
proof (rule cb_steps_invariant [OF assms(1), where P = "\<lambda>_. True"])
  show "cfg_of (breaker (cb_init cfg name t)) = cfg \<and> cb_inv (breaker (cb_init cfg name t))"
    using assms(2) by (simp add: cb_init_def cb_inv_New)
next
  fix v l v'
  assume "cfg_of (breaker v) = cfg \<and> cb_inv (breaker v)" and "cb_step v l v'"
  with assms(2) show "cfg_of (breaker v') = cfg \<and> cb_inv (breaker v')"
    using cb_step_sane_inv by auto
qed auto

lemma cb_step_probe_owned:
  assumes "cb_step s l u" and "probe_owned s" and "\<forall>i. l \<noteq> Crash i"
  shows "probe_owned u"
  using assms
proof (induction rule: cb_step.induct)
  case (enter s i cb p ch)
  show ?case
  proof (cases p)
    case True
    then show ?thesis by (auto simp: probe_owned_def)
  next
    case False
    with execute_pre_admitted [OF enter.hyps(2)] have "cb = breaker s" by auto
    with enter show ?thesis by (auto simp: probe_owned_def) (metis option.distinct(1))
  qed
next
  case (refuse s i cb)
  with execute_pre_rejected [OF refuse.hyps(2)] show ?case by (simp add: probe_owned_def)
next
  case (leave s i p failed cb ch)
  show ?case
  proof (cases "halfOpenProbing cb")
    case True
    with execute_post_probe_flag [OF leave.hyps(2)] have "halfOpenProbing (breaker s)" "\<not> p"
      by auto
    with leave show ?thesis by (auto simp: probe_owned_def) (metis option.inject)
  qed (simp add: probe_owned_def)
qed (auto simp: probe_owned_def)

lemma cb_steps_probe_owned:
  assumes "cb_steps (cb_init cfg name t) ls s" and "\<forall>i. Crash i \<notin> set ls"
  shows "probe_owned s"
proof (rule cb_steps_invariant [OF assms(1), where P = "\<lambda>l. \<forall>i. l \<noteq> Crash i"])
  show "probe_owned (cb_init cfg name t)"
    by (simp add: probe_owned_def cb_init_def cb_New_def)
qed (use assms(2) cb_step_probe_owned in auto)

lemma open_enters:
  assumes "inflight s i = None" "state (breaker s) = StateOpen"
    and "timeout (breaker s) \<le> Sub (clock s) (openedAt (breaker s))"
  shows "\<exists>u. cb_step s (Enter i) u \<and> inflight u i = Some True"
proof -
  obtain cb ch where "execute_pre (clock s) (breaker s) = (cb, Admitted True ch)"
    using assms(2,3) by (simp add: execute_pre_def setState_def Let_def)
  from cb_step.enter [OF assms(1) this] show ?thesis by fastforce
qed

lemma wedged_step:
  "cb_step s l u \<Longrightarrow> wedged old s \<Longrightarrow> \<forall>j f. j \<in> old \<longrightarrow> l \<noteq> Leave j f \<Longrightarrow> wedged old u \<and> (\<forall>i. l \<noteq> Enter i)"
  by (induction rule: cb_step.induct)
    (auto simp: wedged_def dest: execute_pre_admitted execute_pre_rejected)

lemma wedged_steps:
  "cb_steps s ls u \<Longrightarrow> wedged old s \<Longrightarrow> \<forall>j f. j \<in> old \<longrightarrow> Leave j f \<notin> set ls \<Longrightarrow>
     wedged old u \<and> (\<forall>i. Enter i \<notin> set ls)"
proof (induction rule: cb_steps.induct)
  case (more s ls u l v)
  have "wedged old u" "\<forall>i. Enter i \<notin> set ls" "\<forall>j f. j \<in> old \<longrightarrow> l \<noteq> Leave j f"
    using more.IH more.prems by auto
  with wedged_step [OF more.hyps(2), of old] show ?case by auto
qed simp

lemma cb_step_path:
  "cb_step s l u \<Longrightarrow> path_to (reported s) (state (breaker s)) \<Longrightarrow>
     path_to (reported u) (state (breaker u))"
proof (induction rule: cb_step.induct)
  case (enter s i cb p ch)
  with execute_pre_path [OF enter.hyps(2)] show ?case by auto
next
  case (refuse s i cb)
  with execute_pre_rejected [OF refuse.hyps(2)] show ?case by auto
next
  case (leave s i p failed cb ch)
  with execute_post_path [OF leave.hyps(2)] show ?case by auto
qed auto

section \<open>Calls that do not overlap\<close>

lemma solo_refines:
  assumes "quiet cb"
  shows "quiet (solo t t' failed cb)"
    and "cfg_of (solo t t' failed cb) = cfg_of cb"
    and "abs_breaker (solo t t' failed cb) = spec_call (cfg_of cb) t t' failed (abs_breaker cb)"
  using assms
  by (cases "state cb"; force simp: quiet_def solo_def execute_pre_def execute_post_def setState_def
      Let_def cfg_of_def abs_breaker_def spec_call_def spec_admit_def spec_record_def)+

lemma solos_refines:
  "quiet cb \<Longrightarrow> abs_breaker (solos ks cb) = spec_calls (cfg_of cb) ks (abs_breaker cb)"
  by (induction ks arbitrary: cb) (auto simp: solo_refines)

lemma solos_quiet:
  assumes "quiet cb"
  shows "quiet (solos ks cb)" and "cfg_of (solos ks cb) = cfg_of cb"
  using assms by (induction ks arbitrary: cb) (auto simp: solo_refines)

lemma spec_calls_failures:
  assumes "\<forall>k \<in> set ks. snd (snd k)" and "int (length ks) + n < FailureThreshold cfg"
  shows "spec_calls cfg ks (SClosed n) = SClosed (n + int (length ks))"
  using assms
proof (induction ks arbitrary: n)
  case Nil
  then show ?case by simp
next
  case (Cons k ks)
  obtain t t' where k: "k = (t, t', True)" using Cons.prems(1) by (cases k) auto
  have "spec_call cfg t t' True (SClosed n) = SClosed (n + 1)"
    using Cons.prems(2) by (simp add: spec_call_def spec_admit_def spec_record_def)
  with k Cons.IH [of "n + 1"] Cons.prems show ?case by simp
qed

lemma abs_New [simp]: "abs_breaker (cb_New cfg name) = SClosed 0"
  by (simp add: abs_breaker_def cb_New_def)

lemma quiet_New [simp]: "quiet (cb_New cfg name)"
  by (simp add: quiet_def cb_New_def)

lemma abs_Closed: "abs_breaker cb = SClosed n \<Longrightarrow> state cb = StateClosed \<and> failureCount cb = n"
  by (auto simp: abs_breaker_def split: State.splits)

lemma abs_Open: "abs_breaker cb = SOpen t \<Longrightarrow> state cb = StateOpen \<and> openedAt cb = t"
  by (auto simp: abs_breaker_def split: State.splits)

section \<open>The breaker as a cell of a larger state\<close>

text \<open>
  What a client of \<open>Execute\<close> provides: a clock, and a place for the breaker. Everything the
  clients use about \<open>Execute\<close> is proved from these laws.
\<close>

locale breaker_cell =
  fixes now :: "'w \<Rightarrow> int"
    and get :: "'w \<Rightarrow> CircuitBreaker"
    and put :: "CircuitBreaker \<Rightarrow> 'w \<Rightarrow> 'w"
  assumes get_put [simp]: "get (put cb w) = cb"
    and put_get [simp]: "put (get w) w = w"
    and now_put [simp]: "now (put cb w) = now w"
begin

lemma Execute_rejected:
  assumes "execute_pre (now w) (get w) = (cb, Rejected)"
  shows "Execute now get put onChange fn w = (ErrCircuitOpen, w)"
  using assms execute_pre_rejected [OF assms] by (simp add: Execute_def)

lemma Execute_panic:
  assumes "execute_pre (now w) (get w) = (cb, Admitted p ch)"
    and "fn (fire onChange ch (put cb w)) = (FnPanic e, w1)"
  shows "Execute now get put onChange fn w = (ExecPanic e, w1)"
  using assms by (simp add: Execute_def)

text \<open>A call whose \<open>fn\<close> and callback leave the breaker alone is a \<open>solo\<close> call.\<close>

lemma Execute_solo:
  assumes notify: "\<And>a b w. get (onChange a b w) = get w"
    and fn: "\<And>w. get (snd (fn w)) = get w"
    and adm: "execute_pre (now w) (get w) = (cb, Admitted p ch)"
    and res: "fn (fire onChange ch (put cb w)) = (r, w1)" "\<forall>e. r \<noteq> FnPanic e"
  shows "get (snd (Execute now get put onChange fn w)) = solo (now w) (now w1) (r \<noteq> FnNil) (get w)"
proof -
  have fire: "get (fire onChange c v) = get v" for c v
    by (auto simp: fire_def notify split: option.splits)
  have w1: "get w1 = cb" using fn [of "fire onChange ch (put cb w)"] res(1) by (simp add: fire)
  show ?thesis
    using adm res w1
    by (cases r) (auto simp: Execute_def solo_def fire split: prod.splits)
qed

end

interpretation sys: breaker_cell clock breaker "\<lambda>cb s. s\<lparr>breaker := cb\<rparr>"
  by unfold_locales auto

lemma Execute_refines:
  assumes "quiet (breaker s)"
    and "Execute clock breaker (\<lambda>cb s. s\<lparr>breaker := cb\<rparr>) (\<lambda>from to s. s\<lparr>reported := (from, to) # reported s\<rparr>)
      (\<lambda>s. (case err of None \<Rightarrow> FnNil | Some x \<Rightarrow> FnErr x, s\<lparr>clock := clock s + e\<rparr>)) s = (res, s1)"
  shows "quiet (breaker s1) \<and> cfg_of (breaker s1) = cfg_of (breaker s) \<and>
    (case spec_admit (cfg_of (breaker s)) (clock s) (abs_breaker (breaker s)) of
       None \<Rightarrow> res = ErrCircuitOpen \<and> clock s1 = clock s \<and> abs_breaker (breaker s1) = abs_breaker (breaker s)
     | Some q \<Rightarrow> res = (case err of None \<Rightarrow> ExecNil | Some x \<Rightarrow> ExecErr x) \<and> clock s1 = clock s + e \<and>
         abs_breaker (breaker s1) = spec_record (cfg_of (breaker s)) (clock s + e) (err \<noteq> None) q)"
proof (cases "execute_pre (clock s) (breaker s)")
  case (Pair cb a)
  show ?thesis
  proof (cases a)
    case Rejected
    with Pair have rej: "execute_pre (clock s) (breaker s) = (cb, Rejected)" by simp
    note why = execute_pre_rejected [OF rej]
    then have "spec_admit (cfg_of (breaker s)) (clock s) (abs_breaker (breaker s)) = None"
      using assms(1) by (auto simp: quiet_def spec_admit_def abs_breaker_def cfg_of_def)
    moreover have "res = ErrCircuitOpen" "s1 = s"
      using assms(2) rej conjunct1 [OF why] by (simp_all add: Execute_def)
    ultimately show ?thesis
      using assms(1) by simp
  next
    case (Admitted p ch)
    have adm: "execute_pre (clock s) (breaker s) = (cb, Admitted p ch)"
      using Pair Admitted by simp
    obtain q where q: "spec_admit (cfg_of (breaker s)) (clock s) (abs_breaker (breaker s)) = Some q"
      using execute_pre_admitted [OF adm]
      by (auto simp: spec_admit_def abs_breaker_def cfg_of_def split: State.splits)
    have "res = (case err of None \<Rightarrow> ExecNil | Some x \<Rightarrow> ExecErr x)" "clock s1 = clock s + e"
      "breaker s1 = solo (clock s) (clock s + e) (err \<noteq> None) (breaker s)"
      using assms(2) adm by (auto simp: Execute_def solo_def fire_def split: option.splits prod.splits)
    then show ?thesis
      using solo_refines [OF assms(1)] q by (simp add: spec_call_def)
  qed
qed

lemma executes_refines:
  "quiet (breaker s) \<Longrightarrow>
     (case (executes ks s :: ('e, 'p) exec_result list \<times> cb_sys) of (rs, s') \<Rightarrow> (rs, abs_breaker (breaker s'), clock s')) =
       spec_executes (cfg_of (breaker s)) ks (abs_breaker (breaker s)) (clock s)"
proof (induction ks arbitrary: s)
  case (Cons k ks)
  obtain d e err where k: "k = (d, e, err)" by (cases k)
  let ?s = "s\<lparr>clock := clock s + d\<rparr>"
  obtain res :: "('e, 'p) exec_result" and s1 where ex: "Execute clock breaker (\<lambda>cb s. s\<lparr>breaker := cb\<rparr>) (\<lambda>from to s. s\<lparr>reported := (from, to) # reported s\<rparr>)
      (\<lambda>s. (case err of None \<Rightarrow> FnNil | Some x \<Rightarrow> FnErr x, s\<lparr>clock := clock s + e\<rparr>)) ?s = (res, s1)"
    by fastforce
  have quiet: "quiet (breaker ?s)" using Cons.prems by simp
  note ref = Execute_refines [OF quiet ex, simplified]
  obtain rs :: "('e, 'p) exec_result list" and s2 where rest: "executes ks s1 = (rs, s2)" by fastforce
  have "spec_executes (cfg_of (breaker s)) ks (abs_breaker (breaker s1)) (clock s1) = (rs, abs_breaker (breaker s2), clock s2)"
    using Cons.IH [of s1] ref rest by simp
  then show ?case
    using ref ex rest by (auto simp: k split: option.splits)
qed simp

section \<open>Properties\<close>

text \<open>C13: With thresholds of at least one, in every state the breaker reaches, under any interleaving of calls, returns, panics
  and clock advances, the counters are non-negative, a closed breaker has fewer consecutive
  failures than its threshold, a half-open one fewer successes than its threshold and no
  failure, and the probe flag is up only when half-open.\<close>

theorem cb_reachable_invariant:
  assumes "sane cfg" and "cb_steps (cb_init cfg name t) ls s"
  shows "cb_inv (breaker s)"
  using cb_steps_cfg_inv [OF assms(2,1)] by simp

theorem cb_reachable_invariant_witness:
  "cb_inv (breaker (the (cb_run [Enter 1, Enter 2, Leave 1 True, Leave 2 False]
     (cb_init \<lparr>FailureThreshold = 2, SuccessThreshold = 1, CBTimeout = 5\<rparr> ''r'' 0))))"
proof -
  let ?cfg = "\<lparr>FailureThreshold = 2, SuccessThreshold = 1, CBTimeout = 5\<rparr>"
  let ?ls = "[Enter 1, Enter 2, Leave 1 True, Leave 2 False]"
  have sane: "sane ?cfg" by (simp add: sane_def)
  have "\<exists>s. cb_run ?ls (cb_init ?cfg ''r'' 0) = Some s"
    by (simp add: cb_fire_def section_defs cb_init_def cb_New_def report_def)
  then obtain s where run: "cb_run ?ls (cb_init ?cfg ''r'' 0) = Some s" ..
  from cb_reachable_invariant [OF sane cb_run_steps [OF run]] run show ?thesis by simp
qed

text \<open>C34: The breaker does not lock up, under any interleaving. Whatever calls are in flight, and also after
  panics: a closed breaker admits every call; an open one whose timeout has passed admits the next call,
  as a probe; an open one whose timeout is an int64 admits a call after enough time. A half-open breaker
  that refuses a call has a probe in flight, unless an \<open>fn\<close> has panicked.\<close>

theorem breaker_not_stuck:
  assumes "cb_steps (cb_init cfg name t) ls s" and "inflight s i = None"
  shows "(state (breaker s) = StateClosed \<longrightarrow> (\<exists>u. cb_step s (Enter i) u)) \<and>
    (state (breaker s) = StateOpen \<longrightarrow> timeout (breaker s) \<le> Sub (clock s) (openedAt (breaker s)) \<longrightarrow>
       (\<exists>u. cb_step s (Enter i) u \<and> inflight u i = Some True)) \<and>
    (state (breaker s) = StateOpen \<longrightarrow> timeout (breaker s) \<le> maxInt64 \<longrightarrow>
       (\<exists>d u v. cb_step s (Tick d) u \<and> cb_step u (Enter i) v)) \<and>
    (state (breaker s) = StateHalfOpen \<longrightarrow> (\<forall>j. Crash j \<notin> set ls) \<longrightarrow>
       (\<exists>u. cb_step s (Enter i) u) \<or> (\<exists>j. inflight s j = Some True))"
proof (intro conjI impI)
  assume "state (breaker s) = StateClosed"
  then show "\<exists>u. cb_step s (Enter i) u"
    using cb_step.enter [OF assms(2), of "breaker s" False None] by (auto simp: execute_pre_def)
next
  assume "state (breaker s) = StateOpen" "timeout (breaker s) \<le> Sub (clock s) (openedAt (breaker s))"
  then show "\<exists>u. cb_step s (Enter i) u \<and> inflight u i = Some True"
    using open_enters [OF assms(2)] by blast
next
  assume opened: "state (breaker s) = StateOpen" "timeout (breaker s) \<le> maxInt64"
  define d where "d = max 0 (openedAt (breaker s) + timeout (breaker s) - clock s)"
  have "timeout (breaker s) \<le> Sub (clock s + d) (openedAt (breaker s))"
    using opened(2) by (simp add: Sub_def d_def)
  then show "\<exists>d u v. cb_step s (Tick d) u \<and> cb_step u (Enter i) v"
    using cb_step.tick [of d s] open_enters [of "s\<lparr>clock := clock s + d\<rparr>" i] opened(1) assms(2)
    by (auto simp: d_def)
next
  assume half: "state (breaker s) = StateHalfOpen" "\<forall>j. Crash j \<notin> set ls"
  show "(\<exists>u. cb_step s (Enter i) u) \<or> (\<exists>j. inflight s j = Some True)"
  proof (cases "halfOpenProbing (breaker s)")
    case True
    then show ?thesis
      using cb_steps_probe_owned [OF assms(1) half(2)] by (simp add: probe_owned_def)
  next
    case False
    then show ?thesis
      using cb_step.enter [OF assms(2), of "breaker s\<lparr>halfOpenProbing := True\<rparr>" True None] half(1)
      by (auto simp: execute_pre_def)
  qed
qed

theorem breaker_not_stuck_witness:
  "\<exists>u. cb_step (the (cb_run [Enter 1, Leave 1 True, Tick 5]
     (cb_init \<lparr>FailureThreshold = 1, SuccessThreshold = 1, CBTimeout = 5\<rparr> ''r'' 0))) (Enter 2) u"
proof -
  let ?s0 = "cb_init \<lparr>FailureThreshold = 1, SuccessThreshold = 1, CBTimeout = 5\<rparr> ''r'' 0"
  let ?ls = "[Enter 1, Leave 1 True, Tick 5]"
  have "\<exists>s. cb_run ?ls ?s0 = Some s \<and> inflight s = Map.empty \<and> state (breaker s) = StateOpen \<and>
      timeout (breaker s) = 5 \<and> openedAt (breaker s) = 0 \<and> clock s = 5"
    by (simp add: cb_fire_def section_defs cb_init_def cb_New_def report_def fun_eq_iff)
  then obtain s where run: "cb_run ?ls ?s0 = Some s" and s: "inflight s = Map.empty" "state (breaker s) = StateOpen"
    "timeout (breaker s) = 5" "openedAt (breaker s) = 0" "clock s = 5" by blast
  have "Sub 5 0 = 5" by (simp add: Sub_def maxInt64_def minInt64_def)
  with s breaker_not_stuck [OF cb_run_steps [OF run], of 2] run show ?thesis by auto
qed

text \<open>C40: When the \<open>fn\<close> of the half-open probe panics, no call is admitted any more until a call that was
  in flight at that moment returns, however long the system runs: \<open>Execute\<close> has no deferred section B, so
  the probe flag stays up. If the probe was the only call in flight, no call is ever admitted again.\<close>

theorem panicking_probe_wedges_breaker:
  assumes "state (breaker s) = StateHalfOpen" and "halfOpenProbing (breaker s)"
    and "inflight s i = Some True"
    and "cb_step s (Crash i) u" and "cb_steps u ls v"
    and "\<forall>j f. j \<noteq> i \<longrightarrow> inflight s j \<noteq> None \<longrightarrow> Leave j f \<notin> set ls"
  shows "(\<forall>j. Enter j \<notin> set ls) \<and> (\<forall>j w. \<not> cb_step v (Enter j) w)"
proof -
  let ?old = "dom (inflight s) - {i}"
  from assms(4) have "u = s\<lparr>inflight := (inflight s)(i := None)\<rparr>" by (auto elim: cb_stepE)
  with assms(1,2) have "wedged ?old u" by (auto simp: wedged_def)
  with wedged_steps [OF assms(5)] assms(6) have "wedged ?old v" "\<forall>j. Enter j \<notin> set ls" by auto
  then show ?thesis using wedged_step by blast
qed

theorem panicking_probe_wedges_breaker_witness:
  "\<exists>s u. cb_run [Enter 1, Leave 1 True, Tick 5, Enter 2]
        (cb_init \<lparr>FailureThreshold = 1, SuccessThreshold = 1, CBTimeout = 5\<rparr> ''r'' 0) = Some s \<and>
      cb_step s (Crash 2) u \<and> (\<forall>j w. \<not> cb_step u (Enter j) w)"
proof -
  let ?s0 = "cb_init \<lparr>FailureThreshold = 1, SuccessThreshold = 1, CBTimeout = 5\<rparr> ''r'' 0"
  let ?ls = "[Enter 1, Leave 1 True, Tick 5, Enter 2]"
  have "\<exists>s. cb_run ?ls ?s0 = Some s \<and> inflight s = [2 \<mapsto> True] \<and>
      state (breaker s) = StateHalfOpen \<and> halfOpenProbing (breaker s)"
    by (simp add: cb_fire_def section_defs cb_init_def cb_New_def report_def fun_eq_iff
        Sub_def maxInt64_def minInt64_def)
  then obtain s where s: "cb_run ?ls ?s0 = Some s" "inflight s = [2 \<mapsto> True]"
    "state (breaker s) = StateHalfOpen" "halfOpenProbing (breaker s)" by blast
  obtain u where u: "cb_step s (Crash 2) u"
    using s(2) cb_step.crash [of s 2 True] by auto
  have "inflight s 2 = Some True" using s(2) by simp
  from panicking_probe_wedges_breaker [OF s(3,4) this u cb_steps.stop] s(1) u show ?thesis by auto
qed

text \<open>Without any panic, two half-open probes can be in flight at once: a call admitted while
  the breaker was closed reports its failure during the first probe, which reopens the breaker
  and drops the probe flag, and after the timeout a second probe is admitted.\<close>

theorem two_probes_in_flight:
  "\<exists>ls s. (\<forall>i. Crash i \<notin> set ls) \<and>
     cb_steps (cb_init \<lparr>FailureThreshold = 1, SuccessThreshold = 1, CBTimeout = 5\<rparr> ''r'' 0) ls s \<and>
     state (breaker s) = StateHalfOpen \<and> inflight s 3 = Some True \<and> inflight s 4 = Some True"
proof -
  let ?s0 = "cb_init \<lparr>FailureThreshold = 1, SuccessThreshold = 1, CBTimeout = 5\<rparr> ''r'' 0"
  let ?ls = "[Enter 1, Enter 2, Leave 2 True, Tick 5, Enter 3, Leave 1 True, Tick 5, Enter 4]"
  have "\<exists>s. cb_run ?ls ?s0 = Some s \<and> state (breaker s) = StateHalfOpen \<and>
      inflight s 3 = Some True \<and> inflight s 4 = Some True"
    by (simp add: cb_fire_def section_defs cb_init_def cb_New_def report_def
        Sub_def maxInt64_def minInt64_def)
  then obtain s where "cb_run ?ls ?s0 = Some s" "state (breaker s) = StateHalfOpen"
    "inflight s 3 = Some True" "inflight s 4 = Some True" by blast
  moreover have "\<forall>i. Crash i \<notin> set ?ls" by simp
  ultimately show ?thesis using cb_run_steps by blast
qed

text \<open>C5: For calls that do not overlap and do not panic, \<open>Execute\<close> refines the abstract three-state machine:
  whatever time passes before and during each call and whatever \<open>fn\<close> returns, every call has the result it
  has on the abstract machine (refused with \<open>ErrCircuitOpen\<close>, nil, or its error), and the states after
  the calls correspond.\<close>

theorem breaker_refines_spec:
  "(case executes ks (cb_init cfg name t) of (rs, s) \<Rightarrow> (rs, abs_breaker (breaker s), clock s)) =
     spec_executes cfg ks (SClosed 0) t"
  using executes_refines [of "cb_init cfg name t" ks] by (simp add: cb_init_def)

text \<open>A new breaker stays closed through fewer consecutive failures than its threshold and
  opens at exactly that many, stamped with the clock reading of the last one.\<close>

theorem breaker_trips_at_threshold:
  assumes "\<forall>k \<in> set ks. snd (snd k)" and "int (length ks) + 1 = FailureThreshold cfg"
  shows "state (solos ks (cb_New cfg name)) = StateClosed \<and>
         failureCount (solos ks (cb_New cfg name)) = int (length ks) \<and>
         state (solo t t' True (solos ks (cb_New cfg name))) = StateOpen \<and>
         openedAt (solo t t' True (solos ks (cb_New cfg name))) = t'"
proof -
  let ?cb = "solos ks (cb_New cfg name)"
  have closed: "abs_breaker ?cb = SClosed (int (length ks))"
    using spec_calls_failures [OF assms(1), of 0 cfg] assms(2) by (simp add: solos_refines)
  have quiet: "quiet ?cb" "cfg_of ?cb = cfg" by (simp_all add: solos_quiet)
  have "abs_breaker (solo t t' True ?cb) = SOpen t'"
    using solo_refines(3) [OF quiet(1), of t t' True] assms(2)
    by (simp add: closed quiet spec_call_def spec_admit_def spec_record_def)
  with closed show ?thesis by (auto dest: abs_Closed abs_Open)
qed

theorem breaker_trips_at_threshold_witness:
  "state (solo 30 31 True (solos [(10, 11, True), (20, 21, True)]
     (cb_New \<lparr>FailureThreshold = 3, SuccessThreshold = 2, CBTimeout = 5\<rparr> ''r''))) = StateOpen"
  using breaker_trips_at_threshold [of "[(10, 11, True), (20, 21, True)]"
      "\<lparr>FailureThreshold = 3, SuccessThreshold = 2, CBTimeout = 5\<rparr>" "''r''" 30 31] by simp

text \<open>The transitions reported to the callback, under any interleaving, form a path of the
  state diagram (closed to open, open to half-open, half-open to open or closed) that starts
  in the closed state and ends in the current one.\<close>

theorem reported_transitions_form_path:
  assumes "cb_steps (cb_init cfg name t) ls s"
  shows "path_to (reported s) (state (breaker s))"
  by (rule cb_steps_invariant [OF assms, where P = "\<lambda>_. True"])
    (auto simp: cb_init_def cb_New_def intro: cb_step_path)

theorem reported_transitions_form_path_witness:
  "path_to (reported (the (cb_run [Enter 1, Leave 1 True, Tick 5, Enter 2]
     (cb_init \<lparr>FailureThreshold = 1, SuccessThreshold = 1, CBTimeout = 5\<rparr> ''r'' 0))))
   StateHalfOpen"
proof -
  let ?s0 = "cb_init \<lparr>FailureThreshold = 1, SuccessThreshold = 1, CBTimeout = 5\<rparr> ''r'' 0"
  let ?ls = "[Enter 1, Leave 1 True, Tick 5, Enter 2]"
  have "\<exists>s. cb_run ?ls ?s0 = Some s \<and> state (breaker s) = StateHalfOpen"
    by (simp add: cb_fire_def section_defs cb_init_def cb_New_def report_def
        Sub_def maxInt64_def minInt64_def)
  then obtain s where s: "cb_run ?ls ?s0 = Some s" "state (breaker s) = StateHalfOpen" by blast
  from reported_transitions_form_path [OF cb_run_steps [OF s(1)]] s show ?thesis by simp
qed

end
