(* ===== verification/ConfigTypes.thy ===== *)
theory ConfigTypes
  imports Prelude CircuitBreaker
begin

text \<open>
  The configuration structs of \<open>internal/config/config.go\<close>, lines 15 to 213. A pointer field is
  an \<open>option\<close>, a duration an \<open>int\<close> of nanoseconds, a float a \<open>rat\<close>. A Go map whose
  iteration order matters is an association list with distinct keys, in the order one iteration
  visits it; every theorem that quantifies over such a list holds for every order.

  \<open>yaml.Node\<close> is a type of \<open>gopkg.in/yaml.v3\<close>; the gateway reads its fields \<open>Kind\<close>, \<open>Tag\<close>,
  \<open>Value\<close> and \<open>Content\<close>, which are all it has here. \<open>any\<close> values decoded from JSON or YAML
  are values of \<open>json\<close>.
\<close>

section \<open>Library data\<close>

datatype json =
    JNull
  | JBool bool
  | JNum rat
  | JStr string
  | JArr "json list"
  | JObj "(string \<times> json) list"

datatype yaml_node = Node (nKind: nat) (nTag: string) (nValue: string) (nContent: "yaml_node list")

definition MappingNode :: nat where
  "MappingNode = 4"

definition zeroNode :: yaml_node where
  "zeroNode = Node 0 [] [] []"

section \<open>Middleware definitions\<close>

record MiddlewareDefinition =
  md_Type :: string
  md_Config :: yaml_node

record MiddlewareRef =
  mr_Ref :: string
  mr_Config :: yaml_node

record RateLimitConfig =
  Requests :: int
  Window :: int
  KeySource :: string
  AlgorithmName :: string

record AuthMiddlewareConfig =
  Providers :: "string list"

record CORSConfig =
  AllowedOrigins :: "string list"
  AllowedMethods :: "string list"
  AllowedHeaders :: "string list"
  ExposedHeaders :: "string list"
  AllowCredentials :: bool
  MaxAge :: int

record HeaderTransform =
  ht_Add :: "(string \<times> string) list"
  ht_Remove :: "string list"
  ht_Rename :: "(string \<times> string) list"

record BodyTransform =
  InjectFields :: "(string \<times> json) list"
  StripFields :: "string list"
  RenameKeys :: "(string \<times> string) list"

record DirectionTransform =
  dt_Headers :: "HeaderTransform option"
  dt_Body :: "BodyTransform option"

record TransformConfig =
  tc_Request :: "DirectionTransform option"
  tc_Response :: "DirectionTransform option"
  MaxBodySize :: int

text \<open>The \<open>any\<close> in \<open>ResolvedMiddleware.Config\<close> is a pointer to one of these four structs.\<close>

datatype TypedConfig =
    CORSCfg CORSConfig
  | RateLimitCfg RateLimitConfig
  | AuthCfg AuthMiddlewareConfig
  | TransformCfg TransformConfig

record ResolvedMiddleware =
  rm_Name :: string
  rm_Type :: string
  rm_Config :: TypedConfig

section \<open>Routes\<close>

record MatchConfig =
  PathRegex :: string
  Methods :: "string list"
  MatchHost :: string
  MatchHeaders :: "(string \<times> string) list"

record UpstreamConfig =
  UpstreamURL :: string
  PathRewrite :: string
  UpstreamTimeout :: int

record RetryConfig =
  MaxRetries :: int
  InitialDelay :: int
  Multiplier :: rat
  RetryableStatusCodes :: "int list"

record RouteConfig =
  RouteName :: string
  Match :: MatchConfig
  Upstream :: UpstreamConfig
  Retry :: "RetryConfig option"
  RouteCircuitBreaker :: "CircuitBreakerConfig option"
  SkipMiddlewares :: "string list"
  RouteMiddlewares :: "MiddlewareRef list"

section \<open>Authentication providers\<close>

record JWTConfig =
  Secret :: string
  PublicKeyFile :: string
  JWTAlgorithm :: string
  Issuer :: string
  JWTAudience :: string

record APIKeyEntry =
  Key :: string
  KeyName :: string

record APIKeyConfig =
  APIKeyHeader :: string
  Keys :: "APIKeyEntry list"

record OIDCConfig =
  IssuerURL :: string
  JWKSURL :: string
  IntrospectionURL :: string
  ClientID :: string
  ClientSecret :: string
  OIDCAudience :: string
  AllowedAlgorithms :: "string list"
  SkipIssuerCheck :: bool

record AuthProvider =
  ap_Type :: string
  ap_JWT :: "JWTConfig option"
  ap_APIKey :: "APIKeyConfig option"
  ap_OIDC :: "OIDCConfig option"

section \<open>Global settings\<close>

record ServerConfig =
  ServerHost :: string
  ServerPort :: int
  ReadTimeout :: int
  WriteTimeout :: int
  IdleTimeout :: int
  ShutdownTimeout :: int
  TrustedProxies :: "string list"
  MaxHeaderBytes :: int

record RedisConfig =
  Addr :: string
  Password :: string
  DB :: int
  PoolSize :: int
  MinIdleConns :: int
  DialTimeout :: int
  RedisReadTimeout :: int
  RedisWriteTimeout :: int
  RedisMaxRetries :: int
  QueryTimeout :: int
  TLSEnabled :: bool

record RateLimitGlobalConfig =
  Backend :: string
  Redis :: "RedisConfig option"

record GatewayConfig =
  Server :: ServerConfig
  LoggingLevel :: string
  RateLimit :: RateLimitGlobalConfig
  AuthProviders :: "(string \<times> AuthProvider) list"
  MiddlewareDefinitions :: "(string \<times> MiddlewareDefinition) list"
  Middlewares :: "MiddlewareRef list"
  Routes :: "RouteConfig list"

end
