(* ===== verification/Resolve.thy ===== *)
theory Resolve
  imports ConfigTypes
begin

text \<open>
  Resolution of middleware references, \<open>internal/config/resolve.go\<close>: look up the definition, merge
  the reference's override into its configuration, decode into the struct of the type. The decoders
  of \<open>yaml.Node.Decode\<close> are fields of a record of library functions; a struct that nothing was
  decoded into has the zero value.
\<close>

section \<open>Errors and decoders\<close>

datatype resolve_error =
    RefNotFound string
  | BaseNotMapping string nat
  | OverrideNotMapping string nat
  | DecodeFailed string string string
  | UnknownType string string

record yaml_lib =
  decodeCORS :: "yaml_node \<Rightarrow> string + CORSConfig"
  decodeRateLimit :: "yaml_node \<Rightarrow> string + RateLimitConfig"
  decodeAuth :: "yaml_node \<Rightarrow> string + AuthMiddlewareConfig"
  decodeTransform :: "yaml_node \<Rightarrow> string + TransformConfig"
  marshalNode :: "yaml_node \<Rightarrow> string option"

definition zeroCORS :: CORSConfig where
  "zeroCORS = \<lparr>AllowedOrigins = [], AllowedMethods = [], AllowedHeaders = [], ExposedHeaders = [],
     AllowCredentials = False, MaxAge = 0\<rparr>"

definition zeroRateLimit :: RateLimitConfig where
  "zeroRateLimit = \<lparr>Requests = 0, Window = 0, KeySource = [], AlgorithmName = []\<rparr>"

definition zeroTransform :: TransformConfig where
  "zeroTransform = \<lparr>tc_Request = None, tc_Response = None, MaxBodySize = 0\<rparr>"

section \<open>mergeYAMLNodes\<close>

fun baseIndex :: "yaml_node list \<Rightarrow> nat \<Rightarrow> (string \<rightharpoonup> nat) \<Rightarrow> (string \<rightharpoonup> nat)" where
  "baseIndex (k # v # content) i m = baseIndex content (i + 2) (m(nValue k \<mapsto> i))"
| "baseIndex _ i m = m"

fun applyOverride :: "(string \<rightharpoonup> nat) \<Rightarrow> yaml_node list \<Rightarrow> yaml_node list \<Rightarrow> yaml_node list" where
  "applyOverride idx (k # v # content) res =
     applyOverride idx content
       (case idx (nValue k) of
          Some i \<Rightarrow> res[i + 1 := v]
        | None \<Rightarrow> res @ [k, v])"
| "applyOverride idx _ res = res"

definition mergeYAMLNodes :: "string \<Rightarrow> yaml_node \<Rightarrow> yaml_node \<Rightarrow> resolve_error + yaml_node" where
  "mergeYAMLNodes ref base override =
     (if nKind base = 0 then Inr override
      else if nKind base \<noteq> MappingNode then Inl (BaseNotMapping ref (nKind base))
      else if nKind override \<noteq> MappingNode then Inl (OverrideNotMapping ref (nKind override))
      else Inr (Node MappingNode (nTag base) []
             (applyOverride (baseIndex (nContent base) 0 Map.empty) (nContent override) (nContent base))))"

section \<open>decodeTypedConfig\<close>

definition applyRateLimitDefaults :: "RateLimitConfig \<Rightarrow> RateLimitConfig" where
  "applyRateLimitDefaults cfg =
     (if AlgorithmName cfg = [] then cfg\<lparr>AlgorithmName := ''sliding_window''\<rparr> else cfg)"

definition decodeWith :: "string \<Rightarrow> string \<Rightarrow> (yaml_node \<Rightarrow> string + 'c) \<Rightarrow> 'c \<Rightarrow> yaml_node \<Rightarrow> resolve_error + 'c" where
  "decodeWith ref typeName dec zero node =
     (if nKind node = 0 then Inr zero
      else case dec node of Inl e \<Rightarrow> Inl (DecodeFailed ref typeName e) | Inr c \<Rightarrow> Inr c)"

definition decodeTypedConfig :: "yaml_lib \<Rightarrow> string \<Rightarrow> string \<Rightarrow> yaml_node \<Rightarrow> resolve_error + TypedConfig" where
  "decodeTypedConfig lib ref typeName node =
     (if typeName = ''cors'' then map_sum id CORSCfg (decodeWith ref typeName (decodeCORS lib) zeroCORS node)
      else if typeName = ''rate_limit'' then
        map_sum id (\<lambda>c. RateLimitCfg (applyRateLimitDefaults c))
          (decodeWith ref typeName (decodeRateLimit lib) zeroRateLimit node)
      else if typeName = ''auth'' then
        map_sum id AuthCfg (decodeWith ref typeName (decodeAuth lib) \<lparr>Providers = []\<rparr> node)
      else if typeName = ''transform'' then
        map_sum id TransformCfg (decodeWith ref typeName (decodeTransform lib) zeroTransform node)
      else Inl (UnknownType ref typeName))"

section \<open>ResolveMiddlewares\<close>

definition resolveRef ::
  "yaml_lib \<Rightarrow> (string \<rightharpoonup> MiddlewareDefinition) \<Rightarrow> MiddlewareRef \<Rightarrow> resolve_error + ResolvedMiddleware" where
  "resolveRef lib defs ref =
     (case defs (mr_Ref ref) of
        None \<Rightarrow> Inl (RefNotFound (mr_Ref ref))
      | Some d \<Rightarrow>
          (case (if nKind (mr_Config ref) \<noteq> 0 then mergeYAMLNodes (mr_Ref ref) (md_Config d) (mr_Config ref)
                 else Inr (md_Config d)) of
             Inl e \<Rightarrow> Inl e
           | Inr cfgNode \<Rightarrow>
               map_sum id (\<lambda>typed. \<lparr>rm_Name = mr_Ref ref, rm_Type = md_Type d, rm_Config = typed\<rparr>)
                 (decodeTypedConfig lib (mr_Ref ref) (md_Type d) cfgNode)))"

fun ResolveMiddlewares ::
  "yaml_lib \<Rightarrow> MiddlewareRef list \<Rightarrow> (string \<rightharpoonup> MiddlewareDefinition) \<Rightarrow> resolve_error + ResolvedMiddleware list" where
  "ResolveMiddlewares lib [] defs = Inr []"
| "ResolveMiddlewares lib (ref # refs) defs =
     (case resolveRef lib defs ref of
        Inl e \<Rightarrow> Inl e
      | Inr m \<Rightarrow> map_sum id (\<lambda>ms. m # ms) (ResolveMiddlewares lib refs defs))"

section \<open>What the merge promises\<close>

text \<open>The entries of a mapping node and the value of a key.\<close>

fun entries :: "yaml_node list \<Rightarrow> (string \<times> yaml_node) list" where
  "entries (k # v # content) = (nValue k, v) # entries content"
| "entries _ = []"

definition mapping :: "yaml_node list \<Rightarrow> bool" where
  "mapping c \<longleftrightarrow> even (length c) \<and> distinct (map fst (entries c))"

definition well_typed :: "ResolvedMiddleware \<Rightarrow> bool" where
  "well_typed m = (case rm_Config m of
       CORSCfg _ \<Rightarrow> rm_Type m = ''cors''
     | RateLimitCfg c \<Rightarrow> rm_Type m = ''rate_limit'' \<and> AlgorithmName c \<noteq> []
     | AuthCfg _ \<Rightarrow> rm_Type m = ''auth''
     | TransformCfg _ \<Rightarrow> rm_Type m = ''transform'')"

section \<open>Lemmas on entries\<close>

lemma map_sum_eq_InrE:
  assumes "map_sum id f x = Inr y"
  obtains z where "x = Inr z" "y = f z"
  using assms by (cases x) auto

lemma entries_append: "even (length c) \<Longrightarrow> entries (c @ d) = entries c @ entries d"
  by (induction c rule: entries.induct) auto

lemma length_entries: "even (length c) \<Longrightarrow> length c = 2 * length (entries c)"
  by (induction c rule: entries.induct) auto

lemma entries_update:
  "j < length (entries c) \<Longrightarrow> entries (c[2 * j + 1 := v]) = (entries c)[j := (fst (entries c ! j), v)]"
proof (induction c arbitrary: j rule: entries.induct)
  case (1 k w content)
  then show ?case by (cases j) auto
qed auto

lemma map_of_update:
  "distinct (map fst xs) \<Longrightarrow> j < length xs \<Longrightarrow> map_of (xs[j := (fst (xs ! j), v)]) = (map_of xs)(fst (xs ! j) \<mapsto> v)"
proof (induction xs arbitrary: j)
  case (Cons x xs)
  show ?case
  proof (cases j)
    case (Suc n)
    with Cons.prems have "fst (xs ! n) \<in> fst ` set xs" by simp
    moreover have "fst x \<notin> fst ` set xs" using Cons.prems by simp
    ultimately have "fst (xs ! n) \<noteq> fst x" by metis
    with Cons Suc show ?thesis by (auto simp: fun_eq_iff)
  qed (use Cons in \<open>auto simp: fun_eq_iff\<close>)
qed simp

lemma map_fst_update: "j < length xs \<Longrightarrow> map fst (xs[j := (fst (xs ! j), v)]) = map fst xs"
  by (metis list_update_id map_update nth_map fst_conv)

lemma baseIndex_notin: "k \<notin> fst ` set (entries c) \<Longrightarrow> baseIndex c i m k = m k"
  by (induction c i m rule: baseIndex.induct) auto

lemma baseIndex_in:
  "distinct (map fst (entries c)) \<Longrightarrow> k \<in> fst ` set (entries c) \<Longrightarrow>
    \<exists>j < length (entries c). baseIndex c i m k = Some (i + 2 * j) \<and> fst (entries c ! j) = k"
proof (induction c i m rule: baseIndex.induct)
  case (1 k' v content i m)
  show ?case
  proof (cases "k = nValue k'")
    case True
    with 1 show ?thesis by (intro exI [of _ 0]) (simp add: baseIndex_notin)
  next
    case False
    with 1 have "distinct (map fst (entries content))" "k \<in> fst ` set (entries content)" by auto
    from 1(1) [OF this] obtain j where "j < length (entries content)"
      "baseIndex content (i + 2) (m(nValue k' \<mapsto> i)) k = Some (i + 2 + 2 * j)" "fst (entries content ! j) = k"
      by blast
    then show ?thesis by (intro exI [of _ "Suc j"]) simp
  qed
qed auto

lemma baseIndex_spec:
  assumes "distinct (map fst (entries c))"
  shows "(case baseIndex c 0 Map.empty k of
       None \<Rightarrow> k \<notin> fst ` set (entries c)
     | Some i \<Rightarrow> \<exists>j < length (entries c). i = 2 * j \<and> fst (entries c ! j) = k)"
  using baseIndex_in [OF assms, of k 0 Map.empty] baseIndex_notin [of k c 0 Map.empty]
  by (cases "k \<in> fst ` set (entries c)") auto

text \<open>The loop keeps the keys of the base where they are, so the index stays right.\<close>

lemma applyOverride_lookup:
  assumes base: "distinct (map fst (entries base))"
    and "mapping ov" and "even (length res)" and "distinct (map fst (entries res))"
    and "take (length (entries base)) (map fst (entries res)) = map fst (entries base)"
    and "\<forall>k \<in> fst ` set (entries ov). k \<in> fst ` set (entries res) \<longrightarrow> k \<in> fst ` set (entries base)"
  shows "map_of (entries (applyOverride (baseIndex base 0 Map.empty) ov res)) =
    map_of (entries res) ++ map_of (entries ov)"
  using assms(2-)
proof (induction ov arbitrary: res rule: entries.induct)
  case (1 k v content)
  let ?idx = "baseIndex base 0 Map.empty" and ?k = "nValue k"
  define res' where "res' = (case ?idx ?k of Some i \<Rightarrow> res[i + 1 := v] | None \<Rightarrow> res @ [k, v])"
  have ov: "mapping content" "?k \<notin> fst ` set (entries content)" using 1(2) by (auto simp: mapping_def)
  have r: "even (length res') \<and> distinct (map fst (entries res')) \<and>
      take (length (entries base)) (map fst (entries res')) = map fst (entries base) \<and>
      map_of (entries res') = (map_of (entries res))(?k \<mapsto> v) \<and>
      fst ` set (entries res') = insert ?k (fst ` set (entries res))"
  proof (cases "?idx ?k")
    case None
    then have "?k \<notin> fst ` set (entries base)" using baseIndex_spec [OF base, of ?k] by simp
    with 1(6) have nk: "?k \<notin> fst ` set (entries res)" by auto
    have e: "entries res' = entries res @ [(?k, v)]" using None 1(3) by (simp add: res'_def entries_append)
    have len: "length (entries base) \<le> length (entries res)"
      using 1(5) by (metis length_map length_take min.absorb_iff2 nle_le min_def)
    have "map_of (entries res) ?k = None" using nk by (simp add: map_of_eq_None_iff)
    then have m: "map_of (entries res') = (map_of (entries res))(?k \<mapsto> v)"
      unfolding e by (auto simp: fun_eq_iff map_add_def split: option.splits)
    have "fst ` set (entries res') = insert ?k (fst ` set (entries res))"
      "distinct (map fst (entries res'))" using nk 1(4) by (auto simp: e)
    moreover have "take (length (entries base)) (map fst (entries res')) = map fst (entries base)"
      using 1(5) len by (simp add: e)
    ultimately show ?thesis
      using None 1(3) m by (simp add: res'_def)
  next
    case (Some i)
    then obtain j where j: "j < length (entries base)" "i = 2 * j" "fst (entries base ! j) = ?k"
      using baseIndex_spec [OF base, of ?k] by auto
    have len: "length (entries base) \<le> length (entries res)"
      using 1(5) by (metis length_map length_take min.absorb_iff2 nle_le min_def)
    have k: "fst (entries res ! j) = ?k"
      using arg_cong [OF 1(5), of "\<lambda>l. l ! j"] j len by simp
    have e: "entries res' = (entries res)[j := (fst (entries res ! j), v)]"
      using Some j len entries_update [of j res v] by (simp add: res'_def)
    have m: "map fst (entries res') = map fst (entries res)"
      unfolding e using j len by (intro map_fst_update) simp
    have "?k \<in> fst ` set (entries res)" using k j len by (metis image_eqI nth_mem order_less_le_trans)
    moreover have "fst ` set (entries res') = fst ` set (entries res)" using m by (metis set_map)
    moreover have "map_of (entries res') = (map_of (entries res))(?k \<mapsto> v)"
      unfolding e using map_of_update [OF 1(4), of j v] j len k by simp
    ultimately show ?thesis
      using Some 1(3-5) m by (auto simp: res'_def)
  qed
  have keep: "\<forall>x \<in> fst ` set (entries content). x \<in> fst ` set (entries res') \<longrightarrow> x \<in> fst ` set (entries base)"
  proof (intro ballI impI)
    fix x assume x: "x \<in> fst ` set (entries content)" "x \<in> fst ` set (entries res')"
    from x(1) ov(2) have "x \<noteq> ?k" by metis
    with x r have "x \<in> fst ` set (entries res)" by (metis insertE)
    moreover have "x \<in> fst ` set (entries (k # v # content))" using x(1) by auto
    ultimately show "x \<in> fst ` set (entries base)" using 1(6) by blast
  qed
  have "map_of (entries (applyOverride ?idx content res')) = map_of (entries res') ++ map_of (entries content)"
    using ov(1) r keep by (intro 1(1)) auto
  moreover have "map_of (entries content) ?k = None" using ov(2) by (simp add: map_of_eq_None_iff)
  ultimately show ?case using r by (auto simp: res'_def map_add_def fun_eq_iff split: option.splits)
qed (auto simp: mapping_def)

section \<open>Lemmas on resolution\<close>

lemma decodeTypedConfig_typed:
  "decodeTypedConfig lib ref ty node = Inr c \<Longrightarrow> well_typed \<lparr>rm_Name = n, rm_Type = ty, rm_Config = c\<rparr>"
  by (auto simp: decodeTypedConfig_def well_typed_def applyRateLimitDefaults_def split: if_splits
      elim!: map_sum_eq_InrE)

lemma resolveRef_ok:
  "resolveRef lib defs ref = Inr m \<Longrightarrow> well_typed m \<and> rm_Name m = mr_Ref ref \<and>
    (\<exists>d. defs (mr_Ref ref) = Some d \<and> rm_Type m = md_Type d)"
  by (auto simp: resolveRef_def split: option.splits sum.splits if_splits elim!: map_sum_eq_InrE
      intro: decodeTypedConfig_typed)

lemma ResolveMiddlewares_ok:
  "ResolveMiddlewares lib refs defs = Inr ms \<Longrightarrow>
   map rm_Name ms = map mr_Ref refs \<and> list_all well_typed ms \<and>
   list_all2 (\<lambda>ref m. \<exists>d. defs (mr_Ref ref) = Some d \<and> rm_Type m = md_Type d) refs ms"
proof (induction refs arbitrary: ms)
  case (Cons ref refs)
  then obtain m ms' where "resolveRef lib defs ref = Inr m" "ResolveMiddlewares lib refs defs = Inr ms'" "ms = m # ms'"
    by (auto split: sum.splits elim!: map_sum_eq_InrE)
  with Cons.IH [of ms'] resolveRef_ok [of lib defs ref m] show ?case by simp
qed simp

section \<open>Properties\<close>

text \<open>C38: The merge is the shallow merge its comment promises: for two mappings, the merged mapping
  holds the override's value for every key of the override and the base's value for every other
  key, and nothing else.\<close>

theorem merge_is_shallow_override:
  assumes "nKind base = MappingNode" and "nKind override = MappingNode"
    and "mapping (nContent base)" and "mapping (nContent override)"
  shows "\<exists>m. mergeYAMLNodes ref base override = Inr m \<and> nKind m = MappingNode \<and> nTag m = nTag base \<and>
    map_of (entries (nContent m)) = map_of (entries (nContent base)) ++ map_of (entries (nContent override))"
proof -
  have "map_of (entries (applyOverride (baseIndex (nContent base) 0 Map.empty) (nContent override) (nContent base))) =
      map_of (entries (nContent base)) ++ map_of (entries (nContent override))"
    using assms(3,4) by (intro applyOverride_lookup) (auto simp: mapping_def)
  with assms(1,2) show ?thesis by (simp add: mergeYAMLNodes_def MappingNode_def)
qed

theorem merge_is_shallow_override_witness:
  "\<exists>m. mergeYAMLNodes ''rl'' (Node 4 [] [] [Node 8 [] ''requests'' [], Node 8 [] ''5'' [], Node 8 [] ''window'' [], Node 8 [] ''1m'' []])
      (Node 4 [] [] [Node 8 [] ''requests'' [], Node 8 [] ''9'' []]) = Inr m \<and>
    map_of (entries (nContent m)) ''requests'' = Some (Node 8 [] ''9'' []) \<and>
    map_of (entries (nContent m)) ''window'' = Some (Node 8 [] ''1m'' [])"
proof -
  let ?b = "Node 4 [] [] [Node 8 [] ''requests'' [], Node 8 [] ''5'' [], Node 8 [] ''window'' [], Node 8 [] ''1m'' []]"
  let ?o = "Node 4 [] [] [Node 8 [] ''requests'' [], Node 8 [] ''9'' []]"
  have "nKind ?b = MappingNode" "nKind ?o = MappingNode" "mapping (nContent ?b)" "mapping (nContent ?o)"
    by (simp_all add: MappingNode_def mapping_def)
  from merge_is_shallow_override [OF this, of "''rl''"] show ?thesis by (auto simp: map_add_def)
qed

text \<open>Resolution keeps the chain: the resolved middlewares are the references in order and under
  their names, each with the type of its definition and a configuration struct of that type, so
  that the type assertions of the pipeline builder cannot fail; a rate limit has an algorithm.\<close>

theorem resolve_keeps_order_and_types:
  assumes "ResolveMiddlewares lib refs defs = Inr ms"
  shows "map rm_Name ms = map mr_Ref refs \<and> list_all well_typed ms \<and>
    list_all2 (\<lambda>ref m. \<exists>d. defs (mr_Ref ref) = Some d \<and> rm_Type m = md_Type d) refs ms"
  using assms by (rule ResolveMiddlewares_ok)

theorem resolve_keeps_order_and_types_witness:
  "\<exists>ms. ResolveMiddlewares \<lparr>decodeCORS = (\<lambda>_. Inr zeroCORS), decodeRateLimit = (\<lambda>_. Inr zeroRateLimit),
       decodeAuth = (\<lambda>_. Inr \<lparr>Providers = []\<rparr>), decodeTransform = (\<lambda>_. Inr zeroTransform), marshalNode = (\<lambda>_. None)\<rparr>
     [\<lparr>mr_Ref = ''b'', mr_Config = zeroNode\<rparr>, \<lparr>mr_Ref = ''a'', mr_Config = zeroNode\<rparr>]
     [''a'' \<mapsto> \<lparr>md_Type = ''cors'', md_Config = zeroNode\<rparr>, ''b'' \<mapsto> \<lparr>md_Type = ''rate_limit'', md_Config = zeroNode\<rparr>] = Inr ms \<and>
     map rm_Name ms = [''b'', ''a'']"
proof -
  let ?lib = "\<lparr>decodeCORS = (\<lambda>_. Inr zeroCORS), decodeRateLimit = (\<lambda>_. Inr zeroRateLimit),
       decodeAuth = (\<lambda>_. Inr \<lparr>Providers = []\<rparr>), decodeTransform = (\<lambda>_. Inr zeroTransform), marshalNode = (\<lambda>_. None)\<rparr> :: yaml_lib"
  let ?refs = "[\<lparr>mr_Ref = ''b'', mr_Config = zeroNode\<rparr>, \<lparr>mr_Ref = ''a'', mr_Config = zeroNode\<rparr>] :: MiddlewareRef list"
  let ?defs = "[''a'' \<mapsto> \<lparr>md_Type = ''cors'', md_Config = zeroNode\<rparr>,
      ''b'' \<mapsto> \<lparr>md_Type = ''rate_limit'', md_Config = zeroNode\<rparr>] :: string \<rightharpoonup> MiddlewareDefinition"
  obtain ms where ms: "ResolveMiddlewares ?lib ?refs ?defs = Inr ms"
    by (simp add: resolveRef_def decodeTypedConfig_def decodeWith_def zeroNode_def)
  with resolve_keeps_order_and_types [OF this] show ?thesis by auto
qed

end
