(* ===== verification/Http.thy ===== *)
theory Http
  imports ConfigTypes
begin

text \<open>
  The part of \<open>net/http\<close> every component uses: header maps with canonical keys, and the
  request with the values the gateway stores in its context (the request id, the matched
  route, the authentication result, the start time, and whether a route holder is present).
\<close>

section \<open>Header maps\<close>

type_synonym header = "string \<rightharpoonup> string list"

definition validHeaderFieldByte :: "char \<Rightarrow> bool" where
  "validHeaderFieldByte c \<longleftrightarrow> isUpper c \<or> isLower c \<or> (48 \<le> byte c \<and> byte c \<le> 57) \<or>
     c \<in> set ''!#$%&*+-.^_`|~'' \<or> byte c = 39"

fun canonBytes :: "bool \<Rightarrow> string \<Rightarrow> string" where
  "canonBytes up [] = []"
| "canonBytes up (c # s) =
     (let d = (if up then upperByte c else lowerByte c) in d # canonBytes (d = CHR ''-'') s)"

definition CanonicalHeaderKey :: "string \<Rightarrow> string" where
  "CanonicalHeaderKey s = (if list_all validHeaderFieldByte s then canonBytes True s else s)"

definition Values :: "header \<Rightarrow> string \<Rightarrow> string list" where
  "Values h k = (case h (CanonicalHeaderKey k) of None \<Rightarrow> [] | Some vs \<Rightarrow> vs)"

definition Get :: "header \<Rightarrow> string \<Rightarrow> string" where
  "Get h k = (case Values h k of [] \<Rightarrow> [] | v # _ \<Rightarrow> v)"

definition Set :: "string \<Rightarrow> string \<Rightarrow> header \<Rightarrow> header" where
  "Set k v h = h(CanonicalHeaderKey k \<mapsto> [v])"

definition Add :: "string \<Rightarrow> string \<Rightarrow> header \<Rightarrow> header" where
  "Add k v h = h(CanonicalHeaderKey k \<mapsto> Values h k @ [v])"

definition Del :: "string \<Rightarrow> header \<Rightarrow> header" where
  "Del k h = h(CanonicalHeaderKey k := None)"

text \<open>Adding every value of one header map to another; maps are read at canonical keys, as \<open>Set\<close>
  and \<open>Add\<close> write them.\<close>

definition addHeaders :: "header \<Rightarrow> header \<Rightarrow> header" where
  "addHeaders src dst k = (case src k of
       None \<Rightarrow> dst k
     | Some [] \<Rightarrow> dst k
     | Some vals \<Rightarrow> Some ((case dst k of None \<Rightarrow> [] | Some old \<Rightarrow> old) @ vals))"

section \<open>Requests\<close>

record MatchedRoute =
  MatchedConfig :: RouteConfig
  PathParams :: "string \<rightharpoonup> string"

record AuthResult =
  Subject :: string
  Claims :: "(string \<rightharpoonup> json) option"
  AuthName :: string
  Provider :: string

record request =
  Method :: string
  URLPath :: string
  Host :: string
  RemoteAddr :: string
  Header :: header
  Body :: "string option"
  ContentLength :: int
  ctx_requestID :: "string option"
  ctx_route :: "MatchedRoute option"
  ctx_auth :: "AuthResult option"
  ctx_start :: "int option"
  ctx_holder :: bool

definition RequestIDFromContext :: "request \<Rightarrow> string" where
  "RequestIDFromContext r = (case ctx_requestID r of None \<Rightarrow> [] | Some i \<Rightarrow> i)"

text \<open>A request straight from the server: no gateway values in its context.\<close>

definition bareRequest :: "string \<Rightarrow> string \<Rightarrow> header \<Rightarrow> request" where
  "bareRequest m p h = \<lparr>Method = m, URLPath = p, Host = [], RemoteAddr = [], Header = h,
     Body = None, ContentLength = 0, ctx_requestID = None, ctx_route = None, ctx_auth = None,
     ctx_start = None, ctx_holder = False\<rparr>"

abbreviation RouteFromContext :: "request \<Rightarrow> MatchedRoute option" where
  "RouteFromContext r \<equiv> ctx_route r"

abbreviation ResultFromContext :: "request \<Rightarrow> AuthResult option" where
  "ResultFromContext r \<equiv> ctx_auth r"

lemma bareRequest_sel [simp]:
  "Method (bareRequest m p h) = m" "URLPath (bareRequest m p h) = p"
  "Header (bareRequest m p h) = h" "Host (bareRequest m p h) = []"
  "ctx_route (bareRequest m p h) = None" "ctx_auth (bareRequest m p h) = None"
  "ctx_requestID (bareRequest m p h) = None" "ctx_start (bareRequest m p h) = None"
  "Body (bareRequest m p h) = None" "RemoteAddr (bareRequest m p h) = []"
  "ctx_holder (bareRequest m p h) = False"
  by (simp_all add: bareRequest_def)

section \<open>Lemmas on canonical keys\<close>

lemma upperByte_idem [simp]: "upperByte (upperByte c) = upperByte c"
  by (auto simp: upperByte_def isLower_def byte_def)

lemma validHeaderFieldByte_upper:
  "validHeaderFieldByte c \<Longrightarrow> validHeaderFieldByte (upperByte c)"
  by (auto simp: validHeaderFieldByte_def upperByte_def isUpper_def isLower_def byte_def)

lemma validHeaderFieldByte_lower:
  "validHeaderFieldByte c \<Longrightarrow> validHeaderFieldByte (lowerByte c)"
  by (auto simp: validHeaderFieldByte_def lowerByte_def isUpper_def isLower_def byte_def)

lemma canonBytes_valid:
  "list_all validHeaderFieldByte s \<Longrightarrow> list_all validHeaderFieldByte (canonBytes up s)"
  by (induction up s rule: canonBytes.induct)
    (auto simp: Let_def validHeaderFieldByte_upper validHeaderFieldByte_lower)

lemma canonBytes_idem [simp]: "canonBytes up (canonBytes up s) = canonBytes up s"
  by (induction up s rule: canonBytes.induct) (auto simp: Let_def)

lemma CanonicalHeaderKey_idem [simp]:
  "CanonicalHeaderKey (CanonicalHeaderKey k) = CanonicalHeaderKey k"
  by (simp add: CanonicalHeaderKey_def canonBytes_valid)

lemma upper_lower: "upperByte (lowerByte c) = upperByte c"
  by (auto simp: upperByte_def lowerByte_def isUpper_def isLower_def byte_def)

lemma canonBytes_ToLower: "canonBytes up (ToLower s) = canonBytes up s"
  by (induction up s rule: canonBytes.induct) (auto simp: Let_def ToLower_def upper_lower)

section \<open>Lemmas on header maps\<close>

lemma Values_Set [simp]:
  "Values (Set k v h) k' = (if CanonicalHeaderKey k = CanonicalHeaderKey k' then [v] else Values h k')"
  by (simp add: Values_def Set_def)

lemma Values_Add [simp]:
  "Values (Add k v h) k' =
     (if CanonicalHeaderKey k = CanonicalHeaderKey k' then Values h k' @ [v] else Values h k')"
  by (simp add: Values_def Add_def)

lemma Values_Del [simp]:
  "Values (Del k h) k' = (if CanonicalHeaderKey k = CanonicalHeaderKey k' then [] else Values h k')"
  by (simp add: Values_def Del_def)

lemma Get_Set [simp]:
  "Get (Set k v h) k' = (if CanonicalHeaderKey k = CanonicalHeaderKey k' then v else Get h k')"
  by (simp add: Get_def)

lemma Get_Del [simp]:
  "Get (Del k h) k' = (if CanonicalHeaderKey k = CanonicalHeaderKey k' then [] else Get h k')"
  by (simp add: Get_def)

lemma Values_addHeaders [simp]: "Values (addHeaders src dst) k = Values dst k @ Values src k"
  by (auto simp: Values_def addHeaders_def split: option.splits list.splits)

lemma Get_empty [simp]: "Get Map.empty k = []"
  by (simp add: Get_def Values_def)

end
