(* ===== verification/CorsPolicy.thy ===== *)
theory CorsPolicy
  imports Http
begin

text \<open>
  The origin policy of \<open>internal/middleware/cors.go\<close>, lines 77 to 152: which origins are
  allowed, which value \<open>Access-Control-Allow-Origin\<close> takes, and the header changes of a
  preflight answer and of a normal response, as functions on header maps.
\<close>

section \<open>Operations\<close>

fun isWildcard :: "string list \<Rightarrow> bool" where
  "isWildcard [] = False"
| "isWildcard (x # xs) = (if x = ''*'' then True else isWildcard xs)"

fun isOriginAllowed :: "string \<Rightarrow> string list \<Rightarrow> bool" where
  "isOriginAllowed origin [] = False"
| "isOriginAllowed origin (x # xs) =
     (if x = ''*'' \<or> x = origin then True else isOriginAllowed origin xs)"

definition resolveAllowOrigin :: "string \<Rightarrow> CORSConfig \<Rightarrow> string" where
  "resolveAllowOrigin origin cfg =
     (if \<not> isOriginAllowed origin (AllowedOrigins cfg) then []
      else if isWildcard (AllowedOrigins cfg) \<and> \<not> AllowCredentials cfg then ''*''
      else origin)"

definition isPreflight :: "request \<Rightarrow> bool" where
  "isPreflight r \<longleftrightarrow> Method r = ''OPTIONS'' \<and> Get (Header r) ''Origin'' \<noteq> [] \<and>
     Get (Header r) ''Access-Control-Request-Method'' \<noteq> []"

text \<open>The header changes of \<open>handlePreflight\<close>; the status it writes is always 204.\<close>

definition preflightHeaders :: "string \<Rightarrow> CORSConfig \<Rightarrow> header \<Rightarrow> header" where
  "preflightHeaders origin cfg h0 =
     (let h1 = Set ''Vary'' ''Origin'' h0;
          allowOrigin = resolveAllowOrigin origin cfg
      in if allowOrigin = [] then h1
         else
           (let h2 = Set ''Access-Control-Allow-Origin'' allowOrigin h1;
                h3 = Set ''Access-Control-Allow-Methods'' (Join (AllowedMethods cfg) '', '') h2;
                h4 = (if AllowedHeaders cfg \<noteq> []
                      then Set ''Access-Control-Allow-Headers'' (Join (AllowedHeaders cfg) '', '') h3
                      else h3);
                h5 = (if 0 < MaxAge cfg
                      then Set ''Access-Control-Max-Age'' (Itoa (MaxAge cfg)) h4 else h4)
            in if AllowCredentials cfg
               then Set ''Access-Control-Allow-Credentials'' ''true'' h5 else h5))"

definition injectCORSHeaders :: "string \<Rightarrow> CORSConfig \<Rightarrow> header \<Rightarrow> header" where
  "injectCORSHeaders origin cfg h0 =
     (let h1 = Set ''Vary'' ''Origin'' h0;
          allowOrigin = resolveAllowOrigin origin cfg
      in if allowOrigin = [] then h1
         else
           (let h2 = Set ''Access-Control-Allow-Origin'' allowOrigin h1;
                h3 = (if AllowCredentials cfg
                      then Set ''Access-Control-Allow-Credentials'' ''true'' h2 else h2)
            in if ExposedHeaders cfg \<noteq> []
               then Set ''Access-Control-Expose-Headers'' (Join (ExposedHeaders cfg) '', '') h3
               else h3))"

section \<open>Canonical header names\<close>

lemma canon_cors [simp]:
  "CanonicalHeaderKey ''Vary'' = ''Vary''"
  "CanonicalHeaderKey ''Origin'' = ''Origin''"
  "CanonicalHeaderKey ''Access-Control-Allow-Origin'' = ''Access-Control-Allow-Origin''"
  "CanonicalHeaderKey ''Access-Control-Allow-Methods'' = ''Access-Control-Allow-Methods''"
  "CanonicalHeaderKey ''Access-Control-Allow-Headers'' = ''Access-Control-Allow-Headers''"
  "CanonicalHeaderKey ''Access-Control-Max-Age'' = ''Access-Control-Max-Age''"
  "CanonicalHeaderKey ''Access-Control-Allow-Credentials'' = ''Access-Control-Allow-Credentials''"
  "CanonicalHeaderKey ''Access-Control-Expose-Headers'' = ''Access-Control-Expose-Headers''"
  "CanonicalHeaderKey ''Access-Control-Request-Method'' = ''Access-Control-Request-Method''"
  by code_simp+

section \<open>Lemmas\<close>

lemma isWildcard_iff: "isWildcard xs \<longleftrightarrow> ''*'' \<in> set xs"
  by (induction xs) auto

lemma isOriginAllowed_iff: "isOriginAllowed origin xs \<longleftrightarrow> ''*'' \<in> set xs \<or> origin \<in> set xs"
  by (induction xs) auto

lemma resolveAllowOrigin_empty_iff:
  "origin \<noteq> [] \<Longrightarrow>
     resolveAllowOrigin origin cfg = [] \<longleftrightarrow> ''*'' \<notin> set (AllowedOrigins cfg) \<and> origin \<notin> set (AllowedOrigins cfg)"
  by (auto simp: resolveAllowOrigin_def isOriginAllowed_iff)

lemma inject_allow_origin:
  "Get (injectCORSHeaders origin cfg h) ''Access-Control-Allow-Origin'' =
     (if resolveAllowOrigin origin cfg = [] then Get h ''Access-Control-Allow-Origin''
      else resolveAllowOrigin origin cfg)"
  by (simp add: injectCORSHeaders_def Let_def)

lemma inject_vary: "Get (injectCORSHeaders origin cfg h) ''Vary'' = ''Origin''"
  by (simp add: injectCORSHeaders_def Let_def)

lemma inject_credentials:
  "Get (injectCORSHeaders origin cfg h) ''Access-Control-Allow-Credentials'' =
     (if resolveAllowOrigin origin cfg \<noteq> [] \<and> AllowCredentials cfg then ''true''
      else Get h ''Access-Control-Allow-Credentials'')"
  by (simp add: injectCORSHeaders_def Let_def)

lemma inject_expose:
  "Get (injectCORSHeaders origin cfg h) ''Access-Control-Expose-Headers'' =
     (if resolveAllowOrigin origin cfg \<noteq> [] \<and> ExposedHeaders cfg \<noteq> [] then Join (ExposedHeaders cfg) '', ''
      else Get h ''Access-Control-Expose-Headers'')"
  by (simp add: injectCORSHeaders_def Let_def)

lemma inject_other:
  "k \<notin> {''Vary'', ''Access-Control-Allow-Origin'', ''Access-Control-Allow-Credentials'', ''Access-Control-Expose-Headers''} \<Longrightarrow>
     injectCORSHeaders origin cfg h k = h k"
  by (simp add: injectCORSHeaders_def Let_def Set_def)

lemma resolveAllowOrigin_set:
  "resolveAllowOrigin origin cfg =
     (if ''*'' \<in> set (AllowedOrigins cfg) \<or> origin \<in> set (AllowedOrigins cfg)
      then if ''*'' \<in> set (AllowedOrigins cfg) \<and> \<not> AllowCredentials cfg then ''*'' else origin else [])"
  by (simp add: resolveAllowOrigin_def isOriginAllowed_iff isWildcard_iff)

lemma inject_idem:
  "injectCORSHeaders origin cfg (injectCORSHeaders origin cfg h) = injectCORSHeaders origin cfg h"
  by (auto simp: injectCORSHeaders_def Let_def Set_def fun_eq_iff)

end
