(* ===== verification/Writers.thy ===== *)
theory Writers
  imports CorsPolicy
begin

text \<open>
  The response writers of the gateway. A Go value of interface type \<open>http.ResponseWriter\<close> is a
  value of \<open>writer\<close>, one constructor per concrete type: the server's own response, the
  \<open>WrappedResponseWriter\<close> of \<open>internal/middleware/responsewriter.go\<close>, the
  \<open>corsResponseWriter\<close> of \<open>internal/middleware/cors.go\<close>, the \<open>bufferingResponseWriter\<close> of
  \<open>internal/middleware/transform/transform.go\<close> and the recorder of \<open>net/http/httptest\<close>; an
  embedded writer is the last argument of its constructor. A method call on the interface is a
  function that dispatches on the constructor.

  Of the server's response the model keeps what handlers can see or decide: the live header
  map, the header map at the moment the status was written, the status, the body and the
  informational (1xx) responses, which do not end the header phase. What the server adds on
  its own (Date, sniffed content types, chunking) is left out.
\<close>

section \<open>Concrete types\<close>

record conn =
  conn_header :: header
  conn_status :: "int option"
  conn_sent :: header
  conn_body :: string
  conn_info :: "(int \<times> header) list"

record wrapped_fields =
  wrw_statusCode :: int
  wrw_bytesWritten :: int
  wrw_wroteHeader :: bool

record cors_fields =
  crw_origin :: string
  crw_cfg :: CORSConfig
  crw_headersSent :: bool

record buffering_fields =
  buf_headers :: header
  buf_body :: string
  buf_statusCode :: int
  buf_wroteHeader :: bool
  buf_maxBody :: int
  buf_exceeded :: bool

text \<open>\<open>rec_detect\<close> stands for \<open>http.DetectContentType\<close>, which the recorder calls when a body is
  written before any status.\<close>

record recorder_fields =
  rec_HeaderMap :: header
  rec_Code :: int
  rec_wroteHeader :: bool
  rec_Body :: string
  rec_detect :: "string \<Rightarrow> string"

datatype writer =
    ServerResponse conn
  | WrappedResponseWriter wrapped_fields writer
  | CorsResponseWriter cors_fields writer
  | BufferingResponseWriter buffering_fields
  | ResponseRecorder recorder_fields

section \<open>Methods of the leaf types\<close>

definition informational :: "int \<Rightarrow> bool" where
  "informational code \<longleftrightarrow> 100 \<le> code \<and> code \<le> 199 \<and> code \<noteq> 101"

definition bodyAllowedForStatus :: "int \<Rightarrow> bool" where
  "bodyAllowedForStatus code \<longleftrightarrow> \<not> (100 \<le> code \<and> code \<le> 199) \<and> code \<noteq> 204 \<and> code \<noteq> 304"

definition conn_WriteHeader :: "int \<Rightarrow> conn \<Rightarrow> conn" where
  "conn_WriteHeader code c =
     (if conn_status c \<noteq> None then c
      else if informational code then c\<lparr>conn_info := conn_info c @ [(code, conn_header c)]\<rparr>
      else c\<lparr>conn_status := Some code, conn_sent := conn_header c\<rparr>)"

definition conn_Write :: "string \<Rightarrow> conn \<Rightarrow> conn \<times> int \<times> bool" where
  "conn_Write b c0 =
     (let c = (if conn_status c0 = None then conn_WriteHeader 200 c0 else c0)
      in if b = [] then (c, 0, False)
         else if \<not> bodyAllowedForStatus (the (conn_status c)) then (c, 0, True)
         else (c\<lparr>conn_body := conn_body c @ b\<rparr>, int (length b), False))"

definition conn_Flush :: "conn \<Rightarrow> conn" where
  "conn_Flush c = (if conn_status c = None then conn_WriteHeader 200 c else c)"

definition buf_WriteHeader :: "int \<Rightarrow> buffering_fields \<Rightarrow> buffering_fields" where
  "buf_WriteHeader code f =
     (if buf_wroteHeader f then f else f\<lparr>buf_wroteHeader := True, buf_statusCode := code\<rparr>)"

definition buf_Write :: "string \<Rightarrow> buffering_fields \<Rightarrow> buffering_fields \<times> int \<times> bool" where
  "buf_Write b f0 =
     (let f = (if \<not> buf_wroteHeader f0 then f0\<lparr>buf_wroteHeader := True\<rparr> else f0)
      in if 0 < buf_maxBody f \<and> buf_maxBody f < int (length (buf_body f)) + int (length b)
         then (f\<lparr>buf_exceeded := True\<rparr>, 0, True)
         else (f\<lparr>buf_body := buf_body f @ b\<rparr>, int (length b), False))"

definition rec_WriteHeader :: "int \<Rightarrow> recorder_fields \<Rightarrow> recorder_fields" where
  "rec_WriteHeader code f =
     (if rec_wroteHeader f then f else f\<lparr>rec_Code := code, rec_wroteHeader := True\<rparr>)"

definition rec_Write :: "string \<Rightarrow> recorder_fields \<Rightarrow> recorder_fields \<times> int \<times> bool" where
  "rec_Write b f0 =
     (let f1 = (if \<not> rec_wroteHeader f0 \<and> rec_HeaderMap f0 ''Content-Type'' = None \<and>
                   Get (rec_HeaderMap f0) ''Transfer-Encoding'' = []
                then f0\<lparr>rec_HeaderMap := Set ''Content-Type'' (rec_detect f0 b) (rec_HeaderMap f0)\<rparr>
                else f0);
          f = rec_WriteHeader 200 f1
      in (f\<lparr>rec_Body := rec_Body f @ b\<rparr>, int (length b), False))"

definition NewRecorder :: "(string \<Rightarrow> string) \<Rightarrow> recorder_fields" where
  "NewRecorder detect = \<lparr>rec_HeaderMap = Map.empty, rec_Code = 200, rec_wroteHeader = False,
     rec_Body = [], rec_detect = detect\<rparr>"

section \<open>Header access\<close>

primrec headers :: "writer \<Rightarrow> header" where
  "headers (ServerResponse c) = conn_header c"
| "headers (WrappedResponseWriter f w) = headers w"
| "headers (CorsResponseWriter f w) = headers w"
| "headers (BufferingResponseWriter f) = buf_headers f"
| "headers (ResponseRecorder f) = rec_HeaderMap f"

text \<open>A change of the map returned by \<open>w.Header()\<close>, which all wrappers share.\<close>

primrec updHeader :: "(header \<Rightarrow> header) \<Rightarrow> writer \<Rightarrow> writer" where
  "updHeader g (ServerResponse c) = ServerResponse (c\<lparr>conn_header := g (conn_header c)\<rparr>)"
| "updHeader g (WrappedResponseWriter f w) = WrappedResponseWriter f (updHeader g w)"
| "updHeader g (CorsResponseWriter f w) = CorsResponseWriter f (updHeader g w)"
| "updHeader g (BufferingResponseWriter f) =
     BufferingResponseWriter (f\<lparr>buf_headers := g (buf_headers f)\<rparr>)"
| "updHeader g (ResponseRecorder f) = ResponseRecorder (f\<lparr>rec_HeaderMap := g (rec_HeaderMap f)\<rparr>)"

primrec depth :: "writer \<Rightarrow> nat" where
  "depth (ServerResponse c) = 0"
| "depth (WrappedResponseWriter f w) = Suc (depth w)"
| "depth (CorsResponseWriter f w) = Suc (depth w)"
| "depth (BufferingResponseWriter f) = 0"
| "depth (ResponseRecorder f) = 0"

lemma depth_updHeader [simp]: "depth (updHeader g w) = depth w"
  by (induction w) auto

section \<open>Writing the status\<close>

text \<open>The first result of \<open>wrw_WriteHeader\<close> is the wrapper afterwards, the second whether the
  call goes on to the embedded writer.\<close>

definition wrw_WriteHeader :: "int \<Rightarrow> wrapped_fields \<Rightarrow> wrapped_fields \<times> bool" where
  "wrw_WriteHeader code f =
     (if wrw_wroteHeader f then (f, False)
      else (f\<lparr>wrw_wroteHeader := True, wrw_statusCode := code\<rparr>, True))"

definition crw_before :: "cors_fields \<Rightarrow> writer \<Rightarrow> cors_fields \<times> writer" where
  "crw_before f w =
     (if \<not> crw_headersSent f
      then (f\<lparr>crw_headersSent := True\<rparr>,
            updHeader (injectCORSHeaders (crw_origin f) (crw_cfg f)) w)
      else (f, w))"

lemma depth_crw_before [simp]: "depth (snd (crw_before f w)) = depth w"
  by (simp add: crw_before_def)

function WriteHeader :: "int \<Rightarrow> writer \<Rightarrow> writer" where
  "WriteHeader code (ServerResponse c) = ServerResponse (conn_WriteHeader code c)"
| "WriteHeader code (WrappedResponseWriter f w) =
     WrappedResponseWriter (fst (wrw_WriteHeader code f))
       (if snd (wrw_WriteHeader code f) then WriteHeader code w else w)"
| "WriteHeader code (CorsResponseWriter f w) =
     CorsResponseWriter (fst (crw_before f w)) (WriteHeader code (snd (crw_before f w)))"
| "WriteHeader code (BufferingResponseWriter f) = BufferingResponseWriter (buf_WriteHeader code f)"
| "WriteHeader code (ResponseRecorder f) = ResponseRecorder (rec_WriteHeader code f)"
  by pat_completeness auto
termination
  by (relation "measure (\<lambda>(code, w). depth w)") auto

lemma depth_WriteHeader [simp]: "depth (WriteHeader code w) = depth w"
  by (induction code w rule: WriteHeader.induct) auto

section \<open>Writing the body\<close>

text \<open>The results of \<open>Write\<close> are the writer, the number of bytes taken and whether an error is
  returned. A wrapper that has not seen a status yet calls its own \<open>WriteHeader\<close> with 200.\<close>

definition wrw_ensure :: "wrapped_fields \<Rightarrow> writer \<Rightarrow> wrapped_fields \<times> writer" where
  "wrw_ensure f w =
     (if \<not> wrw_wroteHeader f
      then (fst (wrw_WriteHeader 200 f), if snd (wrw_WriteHeader 200 f) then WriteHeader 200 w else w)
      else (f, w))"

definition crw_ensure :: "cors_fields \<Rightarrow> writer \<Rightarrow> cors_fields \<times> writer" where
  "crw_ensure f w =
     (if \<not> crw_headersSent f
      then (fst (crw_before f w), WriteHeader 200 (snd (crw_before f w)))
      else (f, w))"

lemma depth_ensure [simp]:
  "depth (snd (wrw_ensure f w)) = depth w" "depth (snd (crw_ensure g w)) = depth w"
  by (simp_all add: wrw_ensure_def crw_ensure_def)

function Write :: "string \<Rightarrow> writer \<Rightarrow> writer \<times> int \<times> bool" where
  "Write b (ServerResponse c) =
     (case conn_Write b c of (c', n, err) \<Rightarrow> (ServerResponse c', n, err))"
| "Write b (WrappedResponseWriter f w) =
     (case Write b (snd (wrw_ensure f w)) of (w', n, err) \<Rightarrow>
        (WrappedResponseWriter
           ((fst (wrw_ensure f w))\<lparr>wrw_bytesWritten := wrw_bytesWritten f + n\<rparr>) w', n, err))"
| "Write b (CorsResponseWriter f w) =
     (case Write b (snd (crw_ensure f w)) of (w', n, err) \<Rightarrow>
        (CorsResponseWriter (fst (crw_ensure f w)) w', n, err))"
| "Write b (BufferingResponseWriter f) =
     (case buf_Write b f of (f', n, err) \<Rightarrow> (BufferingResponseWriter f', n, err))"
| "Write b (ResponseRecorder f) =
     (case rec_Write b f of (f', n, err) \<Rightarrow> (ResponseRecorder f', n, err))"
  by pat_completeness auto
termination
  by (relation "measure (\<lambda>(b, w). depth w)") auto

primrec Flush :: "writer \<Rightarrow> writer" where
  "Flush (ServerResponse c) = ServerResponse (conn_Flush c)"
| "Flush (WrappedResponseWriter f w) = WrappedResponseWriter f (Flush w)"
| "Flush (CorsResponseWriter f w) = CorsResponseWriter f (Flush w)"
| "Flush (BufferingResponseWriter f) = BufferingResponseWriter f"
| "Flush (ResponseRecorder f) =
     ResponseRecorder (if \<not> rec_wroteHeader f then rec_WriteHeader 200 f else f)"

section \<open>WrappedResponseWriter\<close>

definition newWrapped :: wrapped_fields where
  "newWrapped = \<lparr>wrw_statusCode = 0, wrw_bytesWritten = 0, wrw_wroteHeader = False\<rparr>"

definition WrapResponseWriter :: "writer \<Rightarrow> writer" where
  "WrapResponseWriter w = (case w of
       WrappedResponseWriter f w' \<Rightarrow> w
     | _ \<Rightarrow> WrappedResponseWriter newWrapped w)"

text \<open>The writer the caller holds once the handler it wrapped \<open>w\<close> for has left \<open>ww\<close>: the same
  object when \<open>w\<close> was already wrapped, the embedded one otherwise.\<close>

definition callerWriter :: "writer \<Rightarrow> writer \<Rightarrow> writer" where
  "callerWriter w ww = (case w of
       WrappedResponseWriter _ _ \<Rightarrow> ww
     | _ \<Rightarrow> (case ww of WrappedResponseWriter _ w' \<Rightarrow> w' | _ \<Rightarrow> ww))"

definition StatusCode :: "writer \<Rightarrow> int" where
  "StatusCode w = (case w of
       WrappedResponseWriter f _ \<Rightarrow> (if \<not> wrw_wroteHeader f then 200 else wrw_statusCode f)
     | _ \<Rightarrow> 200)"

definition BytesWritten :: "writer \<Rightarrow> int" where
  "BytesWritten w = (case w of WrappedResponseWriter f _ \<Rightarrow> wrw_bytesWritten f | _ \<Rightarrow> 0)"

section \<open>Sequences of calls\<close>

text \<open>What a handler can do to the writer it is given.\<close>

datatype wop = OpHeader "header \<Rightarrow> header" | OpWriteHeader int | OpWrite string | OpFlush

primrec do_op :: "wop \<Rightarrow> writer \<Rightarrow> writer" where
  "do_op (OpHeader g) w = updHeader g w"
| "do_op (OpWriteHeader code) w = WriteHeader code w"
| "do_op (OpWrite b) w = fst (Write b w)"
| "do_op OpFlush w = Flush w"

fun do_ops :: "wop list \<Rightarrow> writer \<Rightarrow> writer" where
  "do_ops [] w = w"
| "do_ops (x # xs) w = do_ops xs (do_op x w)"

definition acts :: "writer \<Rightarrow> writer \<Rightarrow> bool" where
  "acts w w' \<longleftrightarrow> (\<exists>xs. w' = do_ops xs w)"

primrec base_conn :: "writer \<Rightarrow> conn option" where
  "base_conn (ServerResponse c) = Some c"
| "base_conn (WrappedResponseWriter f w) = base_conn w"
| "base_conn (CorsResponseWriter f w) = base_conn w"
| "base_conn (BufferingResponseWriter f) = None"
| "base_conn (ResponseRecorder f) = None"

definition fresh_conn :: conn where
  "fresh_conn = \<lparr>conn_header = Map.empty, conn_status = None, conn_sent = Map.empty,
     conn_body = [], conn_info = []\<rparr>"

text \<open>The response the client gets once the handlers have returned: the server writes 200 if
  nobody wrote a status.\<close>

definition client_view :: "conn \<Rightarrow> int \<times> header \<times> string" where
  "client_view c =
     (let c' = (if conn_status c = None then conn_WriteHeader 200 c else c)
      in (the (conn_status c'), conn_sent c', conn_body c'))"

text \<open>Once a status has gone out it stays, with the headers it went out with; the body grows.\<close>

definition conn_le :: "conn \<Rightarrow> conn \<Rightarrow> bool" where
  "conn_le c c' \<longleftrightarrow>
     (conn_status c \<noteq> None \<longrightarrow> conn_status c' = conn_status c \<and> conn_sent c' = conn_sent c) \<and>
     prefix (conn_body c) (conn_body c')"

text \<open>Every call moves the base connection up in \<open>conn_le\<close>.\<close>

definition base_le :: "writer \<Rightarrow> writer \<Rightarrow> bool" where
  "base_le w w' \<longleftrightarrow> (\<forall>c. base_conn w = Some c \<longrightarrow> (\<exists>c'. base_conn w' = Some c' \<and> conn_le c c'))"

text \<open>A writer on its way to a server response to which no status has been written, and the
  status that a sequence of calls will commit first (\<open>None\<close> if the first call that matters is
  an informational status or a flush).\<close>

primrec clean :: "writer \<Rightarrow> bool" where
  "clean (ServerResponse c) = (conn_status c = None)"
| "clean (WrappedResponseWriter f w) = (\<not> wrw_wroteHeader f \<and> clean w)"
| "clean (CorsResponseWriter f w) = False"
| "clean (BufferingResponseWriter f) = False"
| "clean (ResponseRecorder f) = False"

primrec written :: "writer \<Rightarrow> bool" where
  "written (ServerResponse c) = True"
| "written (WrappedResponseWriter f w) = (wrw_wroteHeader f \<and> written w)"
| "written (CorsResponseWriter f w) = False"
| "written (BufferingResponseWriter f) = False"
| "written (ResponseRecorder f) = False"

fun first_commit :: "wop list \<Rightarrow> int option" where
  "first_commit [] = None"
| "first_commit (OpHeader g # xs) = first_commit xs"
| "first_commit (OpWriteHeader code # xs) = (if informational code then None else Some code)"
| "first_commit (OpWrite b # xs) = Some 200"
| "first_commit (OpFlush # xs) = None"

text \<open>The headers a handler leaves with the writer before it writes a status, a body or flushes.\<close>

fun set_until :: "wop list \<Rightarrow> header \<Rightarrow> header" where
  "set_until (OpHeader g # xs) h = set_until xs (g h)"
| "set_until _ h = h"

text \<open>Calls without a flush or an informational status.\<close>

fun plain_op :: "wop \<Rightarrow> bool" where
  "plain_op (OpWriteHeader code) = (\<not> informational code)"
| "plain_op OpFlush = False"
| "plain_op _ = True"

text \<open>The wrapper and the server's response agree on the status and on the bytes written.\<close>

definition in_step :: "wrapped_fields \<Rightarrow> conn \<Rightarrow> bool" where
  "in_step f c \<longleftrightarrow>
     (if wrw_wroteHeader f then conn_status c = Some (wrw_statusCode f) else conn_status c = None) \<and>
     wrw_bytesWritten f = int (length (conn_body c))"

section \<open>Lemmas on sequences of calls\<close>

lemma do_ops_append: "do_ops (xs @ ys) w = do_ops ys (do_ops xs w)"
  by (induction xs arbitrary: w) auto

lemma acts_refl [simp, intro]: "acts w w"
  unfolding acts_def by (rule exI [of _ "[]"]) simp

lemma acts_trans [trans]: "acts u v \<Longrightarrow> acts v w \<Longrightarrow> acts u w"
  unfolding acts_def by (metis do_ops_append)

lemma acts_op: "acts w (do_op x w)"
  unfolding acts_def by (rule exI [of _ "[x]"]) simp

lemma acts_updHeader [intro]: "acts w (updHeader g w)"
  using acts_op [of w "OpHeader g"] by simp

lemma acts_WriteHeader [intro]: "acts w (WriteHeader code w)"
  using acts_op [of w "OpWriteHeader code"] by simp

lemma acts_Write [intro]: "acts w (fst (Write b w))"
  using acts_op [of w "OpWrite b"] by simp

lemma acts_Flush [intro]: "acts w (Flush w)"
  using acts_op [of w OpFlush] by simp

lemmas acts_intros = acts_refl acts_updHeader acts_WriteHeader acts_Write acts_Flush

lemma acts_induct:
  assumes "acts w w'" and "P w" and "\<And>v x. P v \<Longrightarrow> P (do_op x v)"
  shows "P w'"
proof -
  obtain xs where "w' = do_ops xs w" using assms(1) by (auto simp: acts_def)
  moreover have "P (do_ops xs v)" if "P v" for v
    using that by (induction xs arbitrary: v) (auto intro: assms(3))
  ultimately show ?thesis using assms(2) by simp
qed

section \<open>What a call on a wrapper does to the embedded writer\<close>

lemma acts_crw_before: "acts w (snd (crw_before f w))"
  by (auto simp: crw_before_def)

lemma acts_wrw_ensure: "acts w (snd (wrw_ensure f w))"
  by (auto simp: wrw_ensure_def)

lemma acts_crw_ensure: "acts w (snd (crw_ensure f w))"
  by (auto simp: crw_ensure_def intro: acts_trans [OF acts_crw_before acts_WriteHeader])

lemma acts_Write_eq: "Write b w = (w', n, err) \<Longrightarrow> acts w w'"
  using acts_Write [of w b] by simp

lemma do_op_Wrapped:
  "\<exists>f' w'. do_op x (WrappedResponseWriter f w) = WrappedResponseWriter f' w' \<and> acts w w'"
  by (cases x) (auto split: prod.splits intro: acts_trans [OF acts_wrw_ensure] dest: acts_Write_eq)

lemma do_op_Cors:
  "\<exists>f' w'. do_op x (CorsResponseWriter f w) = CorsResponseWriter f' w' \<and> acts w w'"
  by (cases x)
    (auto split: prod.splits dest: acts_Write_eq
      intro: acts_trans [OF acts_crw_ensure] acts_trans [OF acts_crw_before])

lemma acts_WrappedD:
  assumes "acts (WrappedResponseWriter f w) u"
  shows "\<exists>f' w'. u = WrappedResponseWriter f' w' \<and> acts w w'"
  using assms
  by (rule acts_induct) (auto, metis acts_trans do_op_Wrapped)

lemma acts_CorsD:
  assumes "acts (CorsResponseWriter f w) u"
  shows "\<exists>f' w'. u = CorsResponseWriter f' w' \<and> acts w w'"
  using assms
  by (rule acts_induct) (auto, metis acts_trans do_op_Cors)

lemma do_op_Buffering: "\<exists>f'. do_op x (BufferingResponseWriter f) = BufferingResponseWriter f'"
  by (cases x) (auto split: prod.splits)

lemma acts_BufferingD: "acts (BufferingResponseWriter f) u \<Longrightarrow> \<exists>f'. u = BufferingResponseWriter f'"
  by (rule acts_induct) (auto, metis do_op_Buffering)

lemma do_op_Recorder: "\<exists>f'. do_op x (ResponseRecorder f) = ResponseRecorder f'"
  by (cases x) (auto split: prod.splits)

lemma acts_RecorderD: "acts (ResponseRecorder f) u \<Longrightarrow> \<exists>f'. u = ResponseRecorder f'"
  by (rule acts_induct) (auto, metis do_op_Recorder)

text \<open>Wrapping a writer for a handler and taking the caller's writer back is itself a sequence of
  calls on the caller's writer.\<close>

lemma acts_callerWriter:
  assumes "acts (WrapResponseWriter w) ww"
  shows "acts w (callerWriter w ww)"
proof (cases w)
  case (WrappedResponseWriter f v)
  with assms show ?thesis by (simp add: callerWriter_def WrapResponseWriter_def)
qed (use assms in \<open>auto simp: callerWriter_def WrapResponseWriter_def dest!: acts_WrappedD\<close>)

section \<open>What reaches the client\<close>

lemma conn_le_refl [simp]: "conn_le c c"
  by (simp add: conn_le_def)

lemma conn_le_trans: "conn_le a b \<Longrightarrow> conn_le b c \<Longrightarrow> conn_le a c"
  by (auto simp: conn_le_def)

lemma conn_le_WriteHeader: "conn_le c (conn_WriteHeader code c)"
  by (simp add: conn_le_def conn_WriteHeader_def)

lemma conn_le_Write: "conn_le c (fst (conn_Write b c))"
  by (auto simp: conn_le_def conn_Write_def conn_WriteHeader_def Let_def)

lemma base_le_refl [simp]: "base_le w w"
  by (simp add: base_le_def)

lemma base_le_trans: "base_le u v \<Longrightarrow> base_le v w \<Longrightarrow> base_le u w"
  unfolding base_le_def by (metis conn_le_trans)

lemma base_le_updHeader [simp]: "base_le w (updHeader g w)"
  by (induction w) (auto simp: base_le_def conn_le_def)

lemma base_le_WriteHeader [simp]: "base_le w (WriteHeader code w)"
proof (induction code w rule: WriteHeader.induct)
  case (3 code f w)
  then show ?case
    by (auto simp: crw_before_def base_le_def split: if_splits)
      (metis base_le_def base_le_updHeader conn_le_trans)
qed (auto simp: base_le_def conn_le_WriteHeader)

lemma base_le_Write: "base_le w (fst (Write b w))"
proof (induction b w rule: Write.induct)
  case (1 b c)
  then show ?case using conn_le_Write [of c b] by (auto simp: base_le_def split: prod.splits)
next
  case (2 b f w)
  have "base_le w (snd (wrw_ensure f w))" by (simp add: wrw_ensure_def)
  from base_le_trans [OF this 2] show ?case by (auto simp: base_le_def split: prod.splits)
next
  case (3 b f w)
  have "base_le w (snd (crw_ensure f w))"
    using base_le_trans [OF base_le_updHeader base_le_WriteHeader]
    by (auto simp: crw_ensure_def crw_before_def)
  from base_le_trans [OF this 3] show ?case by (auto simp: base_le_def split: prod.splits)
qed (auto simp: base_le_def)

lemma base_le_Flush: "base_le w (Flush w)"
  by (induction w) (auto simp: base_le_def conn_Flush_def conn_le_WriteHeader)

lemma base_le_op: "base_le w (do_op x w)"
  by (cases x) (auto simp: base_le_Write base_le_Flush)

lemma acts_base_le: "acts w w' \<Longrightarrow> base_le w w'"
  by (rule acts_induct) (auto intro: base_le_trans base_le_op)

lemma acts_committed:
  assumes "acts w w'" and "base_conn w = Some c" and "conn_status c = Some code"
  obtains c' where "base_conn w' = Some c'" "conn_status c' = Some code" "conn_sent c' = conn_sent c"
  using acts_base_le [OF assms(1)] assms(2,3) by (auto simp: base_le_def conn_le_def)

section \<open>The first status committed\<close>

lemma clean_updHeader [simp]: "clean (updHeader g w) = clean w"
  by (induction w) auto

lemma clean_base: "clean w \<Longrightarrow> \<exists>c. base_conn w = Some c \<and> conn_status c = None \<and> conn_header c = headers w"
  by (induction w) auto

lemma clean_WriteHeader:
  assumes "clean w" and "\<not> informational code"
  shows "\<exists>c. base_conn (WriteHeader code w) = Some c \<and> conn_status c = Some code \<and>
             conn_sent c = headers w"
  using assms
  by (induction code w rule: WriteHeader.induct)
    (auto simp: conn_WriteHeader_def wrw_WriteHeader_def)

lemma headers_updHeader [simp]: "headers (updHeader g w) = g (headers w)"
  by (induction w) auto

lemma not_informational_200 [simp]: "\<not> informational 200"
  by (simp add: informational_def)

lemma cors_commit_op:
  assumes "clean w" and "\<not> crw_headersSent f" and "\<not> informational code"
  shows "\<exists>c. base_conn (WriteHeader code (CorsResponseWriter f w)) = Some c \<and>
    conn_status c = Some code \<and> conn_sent c = injectCORSHeaders (crw_origin f) (crw_cfg f) (headers w)"
  using clean_WriteHeader [of "snd (crw_before f w)" code] assms by (simp add: crw_before_def)

lemma Write_Cors_base:
  assumes "clean w" and "\<not> crw_headersSent f"
  shows "\<exists>c. base_conn (fst (Write b (CorsResponseWriter f w))) = Some c \<and>
    conn_status c = Some 200 \<and> conn_sent c = injectCORSHeaders (crw_origin f) (crw_cfg f) (headers w)"
proof -
  let ?u = "snd (crw_ensure f w)"
  have "\<exists>c. base_conn ?u = Some c \<and> conn_status c = Some 200 \<and>
      conn_sent c = injectCORSHeaders (crw_origin f) (crw_cfg f) (headers w)"
    using clean_WriteHeader [of "snd (crw_before f w)" 200] assms
    by (simp add: crw_ensure_def crw_before_def)
  then obtain c where "base_conn ?u = Some c" "conn_status c = Some 200"
    "conn_sent c = injectCORSHeaders (crw_origin f) (crw_cfg f) (headers w)" by blast
  with base_le_Write [of ?u b] show ?thesis
    by (auto simp: base_le_def conn_le_def split: prod.splits)
qed

lemma Write_clean_committed:
  assumes "base_conn w = Some c" and "conn_status c = Some code" and "bodyAllowedForStatus code"
    and "b \<noteq> []" and "written w"
  shows "\<exists>c'. base_conn (fst (Write b w)) = Some c' \<and> conn_status c' = Some code \<and>
    conn_sent c' = conn_sent c \<and> conn_body c' = conn_body c @ b"
  using assms
proof (induction b w rule: Write.induct)
  case (1 b c)
  then show ?case by (auto simp: conn_Write_def)
next
  case (2 b f w)
  then show ?case by (auto simp: wrw_ensure_def split: prod.splits)
qed auto

lemma clean_written: "clean w \<Longrightarrow> written (WriteHeader code w)"
  by (induction code w rule: WriteHeader.induct) (auto simp: wrw_WriteHeader_def)

text \<open>Whatever the handler below a CORS writer does, the status it commits first goes out with
  the CORS headers injected into the headers set until then.\<close>

lemma cors_first_commit:
  assumes "clean w" and "\<not> crw_headersSent f" and "first_commit xs = Some code"
  shows "\<exists>c. base_conn (do_ops xs (CorsResponseWriter f w)) = Some c \<and> conn_status c = Some code \<and>
    conn_sent c = injectCORSHeaders (crw_origin f) (crw_cfg f) (set_until xs (headers w))"
  using assms
proof (induction xs arbitrary: w)
  case Nil
  then show ?case by simp
next
  case (Cons x xs)
  have rest: "\<exists>c. base_conn (do_ops xs v) = Some c \<and> conn_status c = Some code \<and>
      conn_sent c = injectCORSHeaders (crw_origin f) (crw_cfg f) (headers w)"
    if "base_conn v = Some c" "conn_status c = Some code"
      "conn_sent c = injectCORSHeaders (crw_origin f) (crw_cfg f) (headers w)" for v c
    using acts_committed [of v "do_ops xs v" c code] that by (auto simp: acts_def)
  show ?case
  proof (cases x)
    case (OpHeader g)
    with Cons.IH [of "updHeader g w"] Cons.prems show ?thesis by simp
  next
    case (OpWriteHeader k)
    with Cons.prems have "k = code" "\<not> informational code" by (auto split: if_splits)
    with cors_commit_op [OF Cons.prems(1,2)] OpWriteHeader rest show ?thesis
      by (metis do_op.simps(2) do_ops.simps(2) set_until.simps(3))
  next
    case (OpWrite b)
    with Cons.prems have "code = 200" by simp
    with Write_Cors_base [OF Cons.prems(1,2), of b] OpWrite rest show ?thesis
      by (metis do_op.simps(3) do_ops.simps(2) set_until.simps(4))
  qed (use Cons.prems in auto)
qed

section \<open>The wrapper's account of the response\<close>

lemma in_step_Write:
  assumes "in_step f c"
  shows "\<exists>f' c'. fst (Write b (WrappedResponseWriter f (ServerResponse c))) =
            WrappedResponseWriter f' (ServerResponse c') \<and> in_step f' c'"
  using assms
  by (cases "wrw_wroteHeader f")
    (auto simp: in_step_def wrw_ensure_def wrw_WriteHeader_def conn_WriteHeader_def conn_Write_def
      Let_def)

lemma in_step_op:
  assumes "in_step f c" and "plain_op x"
  shows "\<exists>f' c'. do_op x (WrappedResponseWriter f (ServerResponse c)) =
            WrappedResponseWriter f' (ServerResponse c') \<and> in_step f' c'"
proof (cases x)
  case (OpWriteHeader code)
  with assms show ?thesis
    by (auto simp: in_step_def wrw_WriteHeader_def conn_WriteHeader_def)
next
  case (OpWrite b)
  with in_step_Write [OF assms(1)] show ?thesis by simp
qed (use assms in \<open>auto simp: in_step_def\<close>)

lemma in_step_ops:
  assumes "in_step f c" and "list_all plain_op xs"
  shows "\<exists>f' c'. do_ops xs (WrappedResponseWriter f (ServerResponse c)) =
            WrappedResponseWriter f' (ServerResponse c') \<and> in_step f' c'"
  using assms
proof (induction xs arbitrary: f c)
  case (Cons x xs)
  with in_step_op [of f c x] show ?case by auto
qed auto

lemma in_step_fresh: "conn_status c = None \<Longrightarrow> conn_body c = [] \<Longrightarrow> in_step newWrapped c"
  by (simp add: in_step_def newWrapped_def)

lemma in_step_reports:
  assumes "in_step f c"
  shows "StatusCode (WrappedResponseWriter f (ServerResponse c)) = fst (client_view c) \<and>
    BytesWritten (WrappedResponseWriter f (ServerResponse c)) = int (length (snd (snd (client_view c))))"
  using assms by (auto simp: in_step_def StatusCode_def BytesWritten_def client_view_def conn_WriteHeader_def
      Let_def split: if_splits)

section \<open>Properties\<close>

text \<open>For a handler that writes no informational status and does not flush, the status code
  and byte count that \<open>WrappedResponseWriter\<close> reports to logging and metrics are the status and
  the body length the client receives.\<close>

theorem wrapped_writer_reports_client_response:
  assumes "conn_status c = None" and "conn_body c = []" and "list_all plain_op xs"
    and "do_ops xs (WrapResponseWriter (ServerResponse c)) = ww"
    and "base_conn ww = Some c'"
  shows "StatusCode ww = fst (client_view c') \<and>
         BytesWritten ww = int (length (snd (snd (client_view c'))))"
proof -
  have "WrapResponseWriter (ServerResponse c) = WrappedResponseWriter newWrapped (ServerResponse c)"
    by (simp add: WrapResponseWriter_def)
  then obtain f' where ww: "ww = WrappedResponseWriter f' (ServerResponse c')" and "in_step f' c'"
    using in_step_ops [OF in_step_fresh [OF assms(1,2)] assms(3)] assms(4,5) by fastforce
  then show ?thesis using in_step_reports by blast
qed

theorem wrapped_writer_reports_client_response_witness:
  "StatusCode (do_ops [OpWriteHeader 404, OpWriteHeader 500, OpWrite ''abc'']
     (WrapResponseWriter (ServerResponse fresh_conn))) = 404"
proof -
  let ?xs = "[OpWriteHeader 404, OpWriteHeader 500, OpWrite ''abc'']"
  let ?ww = "do_ops ?xs (WrapResponseWriter (ServerResponse fresh_conn))"
  have base: "base_conn ?ww = Some (fresh_conn\<lparr>conn_status := Some 404, conn_body := ''abc''\<rparr>)"
    by (simp add: WrapResponseWriter_def newWrapped_def wrw_WriteHeader_def wrw_ensure_def
        conn_WriteHeader_def conn_Write_def fresh_conn_def informational_def bodyAllowedForStatus_def)
  have plain: "list_all plain_op ?xs" by (simp add: informational_def)
  have "conn_status fresh_conn = None" "conn_body fresh_conn = []"
    by (simp_all add: fresh_conn_def)
  from wrapped_writer_reports_client_response [OF this plain refl base] show ?thesis
    by (simp add: client_view_def)
qed

text \<open>An informational status is taken by \<open>WrappedResponseWriter\<close> for the final one: when a
  handler sends 103 and then the real status, the real status is swallowed, the client gets
  200 and the wrapper reports 103.\<close>

theorem informational_status_hides_final_status:
  assumes "code \<noteq> 200" and "\<not> informational code"
  shows "\<exists>f c. do_ops [OpWriteHeader 103, OpWriteHeader code, OpWrite b]
            (WrapResponseWriter (ServerResponse fresh_conn)) =
            WrappedResponseWriter f (ServerResponse c) \<and>
          fst (client_view c) = 200 \<and>
          StatusCode (WrappedResponseWriter f (ServerResponse c)) = 103 \<and>
          fst (client_view (conn_WriteHeader code fresh_conn)) = code"
  using assms
  by (auto simp: WrapResponseWriter_def newWrapped_def wrw_WriteHeader_def wrw_ensure_def
      conn_WriteHeader_def conn_Write_def fresh_conn_def informational_def bodyAllowedForStatus_def
      client_view_def StatusCode_def Let_def)

theorem informational_status_hides_final_status_witness:
  "\<exists>f c. do_ops [OpWriteHeader 103, OpWriteHeader 404, OpWrite ''x'']
            (WrapResponseWriter (ServerResponse fresh_conn)) =
            WrappedResponseWriter f (ServerResponse c) \<and> fst (client_view c) = 200"
  using informational_status_hides_final_status [of 404 "''x''"] by (auto simp: informational_def)

end
