(* ===== verification/Middleware.thy ===== *)
theory Middleware
  imports Writers
begin

text \<open>
  Handlers and the middlewares of package \<open>internal/middleware\<close>: \<open>Chain\<close>, \<open>Recovery\<close>,
  \<open>RequestID\<close>, \<open>Logging\<close> and \<open>CORSMiddleware\<close>.

  A handler is a function of the request, the writer and a world \<open>'w\<close> (clock, stores, counters,
  upstreams); it returns the writer as its calls left it, how it ended, and the world. What a
  middleware needs of the world is an argument, as it is an argument or a package function in
  Go: \<open>now\<close> reads the clock, \<open>randRead\<close> draws random bytes, \<open>emit\<close> appends a log entry.
  The handler promise the components rely on is the locale \<open>wellbehaved\<close>: the writer is only
  changed by calls of its methods.
\<close>

section \<open>Handlers\<close>

datatype outcome = Returned | Panicked string

type_synonym 'w handler = "request \<Rightarrow> writer \<Rightarrow> 'w \<Rightarrow> writer \<times> outcome \<times> 'w"
type_synonym 'w middleware = "'w handler \<Rightarrow> 'w handler"

definition well_behaved :: "'w handler \<Rightarrow> bool" where
  "well_behaved h \<longleftrightarrow> (\<forall>r w s. acts w (fst (h r w s)))"

section \<open>Error bodies\<close>

text \<open>\<open>json.NewEncoder(w).Encode\<close> of a string map with the keys error and message. Bytes above
  127 are copied, as the encoder does for valid UTF-8.\<close>

definition jsonByte :: "char \<Rightarrow> string" where
  "jsonByte c =
     (if byte c = 34 then [char_of (92::nat), c]
      else if byte c = 92 then [c, c]
      else if byte c = 8 then [char_of (92::nat), CHR ''b'']
      else if byte c = 12 then [char_of (92::nat), CHR ''f'']
      else if byte c = 10 then [char_of (92::nat), CHR ''n'']
      else if byte c = 13 then [char_of (92::nat), CHR ''r'']
      else if byte c = 9 then [char_of (92::nat), CHR ''t'']
      else if byte c < 32 \<or> byte c = 60 \<or> byte c = 62 \<or> byte c = 38
           then [char_of (92::nat)] @ ''u00'' @ [hexDigit (byte c div 16), hexDigit (byte c mod 16)]
      else [c])"

definition jsonQuote :: "string \<Rightarrow> string" where
  "jsonQuote s = [char_of (34::nat)] @ concat (map jsonByte s) @ [char_of (34::nat)]"

definition errorBody :: "string \<Rightarrow> string \<Rightarrow> string" where
  "errorBody errCode message =
     ''{'' @ jsonQuote ''error'' @ '':'' @ jsonQuote errCode @ '','' @
     jsonQuote ''message'' @ '':'' @ jsonQuote message @ ''}'' @ [char_of (10::nat)]"

text \<open>The three calls every error answer of the gateway makes.\<close>

definition writeErrorJSON :: "int \<Rightarrow> string \<Rightarrow> string \<Rightarrow> writer \<Rightarrow> writer" where
  "writeErrorJSON status errCode message w =
     fst (Write (errorBody errCode message)
       (WriteHeader status (updHeader (Set ''Content-Type'' ''application/json'') w)))"

section \<open>Chain\<close>

text \<open>The loop runs from the last middleware to the first.\<close>

definition Chain :: "'w middleware list \<Rightarrow> 'w middleware" where
  "Chain middlewares final = fold (\<lambda>m h. m h) (rev middlewares) final"

section \<open>Recovery\<close>

definition Recovery :: "'w middleware" where
  "Recovery nxt r w s =
     (case nxt r w s of
        (w', Returned, s') \<Rightarrow> (w', Returned, s')
      | (w', Panicked p, s') \<Rightarrow>
          (writeErrorJSON 500 ''internal_error'' ''Internal server error'' w', Returned, s'))"

section \<open>Request ids\<close>

unbundle bit_operations_syntax

definition hexByte :: "8 word \<Rightarrow> string" where
  "hexByte b = [hexDigit (unat b div 16), hexDigit (unat b mod 16)]"

definition hexBytes :: "8 word list \<Rightarrow> string" where
  "hexBytes bs = concat (map hexByte bs)"

text \<open>\<open>generateUUID\<close> of the 16 bytes \<open>io.ReadFull\<close> delivers.\<close>

definition uuidBytes :: "8 word list \<Rightarrow> 8 word list" where
  "uuidBytes u =
     (let u1 = u[6 := (u ! 6 AND 0x0f) OR 0x40] in u1[8 := (u1 ! 8 AND 0x3f) OR 0x80])"

definition generateUUID :: "8 word list \<Rightarrow> string" where
  "generateUUID rnd =
     (let u = uuidBytes rnd in
      hexBytes (take 4 u) @ ''-'' @ hexBytes (take 2 (drop 4 u)) @ ''-'' @
      hexBytes (take 2 (drop 6 u)) @ ''-'' @ hexBytes (take 2 (drop 8 u)) @ ''-'' @
      hexBytes (take 6 (drop 10 u)))"

definition RequestID :: "('w \<Rightarrow> 8 word list \<times> 'w) \<Rightarrow> 'w middleware" where
  "RequestID randRead nxt r w s =
     (let (i, s1) = (if Get (Header r) ''X-Request-ID'' = []
                     then (case randRead s of (bs, s') \<Rightarrow> (generateUUID bs, s'))
                     else (Get (Header r) ''X-Request-ID'', s))
      in nxt (r\<lparr>Header := Set ''X-Request-ID'' i (Header r), ctx_requestID := Some i\<rparr>)
           (updHeader (Set ''X-Request-ID'' i) w) s1)"

section \<open>Logging\<close>

datatype log_entry =
    RequestStarted string string string string
  | RequestCompleted (lg_method: string) (lg_path: string) (lg_status: int) (lg_latency: int)
      (lg_requestID: string) (lg_route: string) (lg_remote: string) (lg_size: int)

definition Logging :: "('w \<Rightarrow> int) \<Rightarrow> (log_entry \<Rightarrow> 'w \<Rightarrow> 'w) \<Rightarrow> 'w middleware" where
  "Logging now emit nxt r w s =
     (let start = now s;
          ww = WrapResponseWriter w;
          requestID = RequestIDFromContext r;
          s1 = emit (RequestStarted (Method r) (URLPath r) (RemoteAddr r) requestID) s
      in (case nxt r ww s1 of
            (ww', Panicked p, s2) \<Rightarrow> (callerWriter w ww', Panicked p, s2)
          | (ww', Returned, s2) \<Rightarrow>
              (let route = (case RouteFromContext r of
                              None \<Rightarrow> ''unknown'' | Some mr \<Rightarrow> RouteName (MatchedConfig mr));
                   latency = Sub (now s2) start
               in (callerWriter w ww', Returned,
                   emit (RequestCompleted (Method r) (URLPath r) (StatusCode ww')
                     (Milliseconds latency) requestID route (RemoteAddr r) (BytesWritten ww')) s2))))"

section \<open>CORS\<close>

definition handlePreflight :: "string \<Rightarrow> CORSConfig \<Rightarrow> writer \<Rightarrow> writer" where
  "handlePreflight origin cfg w = WriteHeader 204 (updHeader (preflightHeaders origin cfg) w)"

definition CORSMiddleware :: "CORSConfig \<Rightarrow> 'w middleware" where
  "CORSMiddleware cfg nxt r w s =
     (let origin = Get (Header r) ''Origin''
      in if origin = [] then nxt r w s
         else if isPreflight r then (handlePreflight origin cfg w, Returned, s)
         else (case nxt r (CorsResponseWriter
                       \<lparr>crw_origin = origin, crw_cfg = cfg, crw_headersSent = False\<rparr> w) s of
                 (crw, out, s') \<Rightarrow>
                   ((case crw of CorsResponseWriter _ w' \<Rightarrow> w' | _ \<Rightarrow> crw), out, s')))"

section \<open>Canonical header names\<close>

lemma canon_middleware [simp]:
  "CanonicalHeaderKey ''Content-Type'' = ''Content-Type''"
  "CanonicalHeaderKey ''X-Request-ID'' = ''X-Request-Id''"
  by code_simp+

section \<open>Chains\<close>

lemma Chain_Nil [simp]: "Chain [] h = h"
  by (simp add: Chain_def)

lemma Chain_Cons [simp]: "Chain (m # ms) h = m (Chain ms h)"
  by (simp add: Chain_def)

lemma Chain_append: "Chain (ms @ ns) h = Chain ms (Chain ns h)"
  by (induction ms) auto

section \<open>Handlers that only call methods of their writer\<close>

lemma acts_writeErrorJSON [intro, simp]: "acts w (writeErrorJSON status e m w)"
  unfolding writeErrorJSON_def
  by (meson acts_Write acts_WriteHeader acts_trans acts_updHeader)

lemma acts_handlePreflight [intro, simp]: "acts w (handlePreflight origin cfg w)"
  unfolding handlePreflight_def by (meson acts_WriteHeader acts_trans acts_updHeader)

lemma well_behavedD: "well_behaved h \<Longrightarrow> h r w s = (w', out, s') \<Longrightarrow> acts w w'"
  unfolding well_behaved_def by (metis fst_conv)

lemma well_behavedI: "(\<And>r w s w' out s'. h r w s = (w', out, s') \<Longrightarrow> acts w w') \<Longrightarrow> well_behaved h"
  unfolding well_behaved_def by (metis prod.collapse)

text \<open>The contract of a middleware: it keeps well-behaved handlers well-behaved.\<close>

locale wellbehaved =
  fixes mw :: "'w middleware"
  assumes keeps: "well_behaved nxt \<Longrightarrow> well_behaved (mw nxt)"
begin

lemma chain_head: "well_behaved (Chain ms h) \<Longrightarrow> well_behaved (Chain (mw # ms) h)"
  by (simp add: keeps)

text \<open>A status that had already gone out when the middleware was entered still stands when it
  is left, whatever the handler below does.\<close>

lemma committed_stays:
  assumes "well_behaved nxt" and "mw nxt r w s = (w', out, s')"
    and "base_conn w = Some c" and "conn_status c = Some code"
  shows "\<exists>c'. base_conn w' = Some c' \<and> conn_status c' = Some code \<and> conn_sent c' = conn_sent c"
  using acts_committed [OF well_behavedD [OF keeps [OF assms(1)] assms(2)] assms(3,4)] by blast

end

interpretation recovery: wellbehaved Recovery
proof
  fix nxt :: "'a handler"
  assume nx: "well_behaved nxt"
  show "well_behaved (Recovery nxt)"
    by (rule well_behavedI)
      (auto simp: Recovery_def split: prod.splits outcome.splits dest!: well_behavedD [OF nx]
        intro: acts_trans [OF _ acts_writeErrorJSON])
qed

interpretation requestID: wellbehaved "RequestID randRead"
proof
  fix nxt :: "'a handler"
  assume nx: "well_behaved nxt"
  show "well_behaved (RequestID randRead nxt)"
    by (rule well_behavedI)
      (auto simp: RequestID_def Let_def split: prod.splits if_splits dest!: well_behavedD [OF nx]
        intro: acts_trans [OF acts_updHeader])
qed

interpretation logging: wellbehaved "Logging now emit"
proof
  fix nxt :: "'a handler"
  assume nx: "well_behaved nxt"
  show "well_behaved (Logging now emit nxt)"
    by (rule well_behavedI)
      (auto simp: Logging_def Let_def split: prod.splits outcome.splits dest!: well_behavedD [OF nx]
        intro: acts_callerWriter)
qed

interpretation cors: wellbehaved "CORSMiddleware cfg"
proof
  fix nxt :: "'a handler"
  assume nx: "well_behaved nxt"
  show "well_behaved (CORSMiddleware cfg nxt)"
    by (rule well_behavedI)
      (auto simp: CORSMiddleware_def Let_def split: prod.splits if_splits
        dest!: well_behavedD [OF nx] dest!: acts_CorsD)
qed

section \<open>Lemmas for the properties\<close>

text \<open>An answer of headers, status and body on a writer that has not sent a status yet.\<close>

lemma answer_clean:
  assumes "clean w" and "\<not> informational status" and "bodyAllowedForStatus status"
    and "base_conn w = Some c0" and "b \<noteq> []"
  shows "\<exists>c. base_conn (fst (Write b (WriteHeader status (updHeader f w)))) = Some c \<and>
    conn_status c = Some status \<and> conn_sent c = f (headers w) \<and> conn_body c = conn_body c0 @ b"
proof -
  let ?v = "updHeader f w"
  have body: "\<exists>c. base_conn (WriteHeader status ?v) = Some c \<and> conn_body c = conn_body c0"
    using assms(1,4) by (induction w) (auto simp: conn_WriteHeader_def wrw_WriteHeader_def)
  obtain c where c: "base_conn (WriteHeader status ?v) = Some c" "conn_status c = Some status"
    "conn_sent c = f (headers w)" "conn_body c = conn_body c0"
    using clean_WriteHeader [of ?v status] assms(1,2) body by auto
  have "written (WriteHeader status ?v)" using assms(1) by (simp add: clean_written)
  from Write_clean_committed [OF c(1,2) assms(3) _ this, of b] c assms(5) show ?thesis by simp
qed

lemma writeErrorJSON_clean:
  assumes "clean w" and "\<not> informational status" and "bodyAllowedForStatus status"
    and "base_conn w = Some c0"
  shows "\<exists>c. base_conn (writeErrorJSON status e m w) = Some c \<and> conn_status c = Some status \<and>
    conn_sent c = Set ''Content-Type'' ''application/json'' (headers w) \<and>
    conn_body c = conn_body c0 @ errorBody e m"
  unfolding writeErrorJSON_def by (rule answer_clean [OF assms]) (simp add: errorBody_def)

lemma length_hexBytes [simp]: "length (hexBytes bs) = 2 * length bs"
  by (induction bs) (auto simp: hexBytes_def hexByte_def)

lemma hexBytes_Cons: "hexBytes (b # bs) = hexByte b @ hexBytes bs"
  by (simp add: hexBytes_def)

lemma version_nibble': "drop_bit 4 ((b AND 0x0f) OR 0x40 :: 8 word) = 4"
proof -
  have "drop_bit 4 ((b AND 0x0f) OR 0x40 :: 8 word) = (drop_bit 4 b AND drop_bit 4 0x0f) OR drop_bit 4 0x40"
    by (simp only: drop_bit_or drop_bit_and)
  also have "\<dots> = 4" by (simp add: drop_bit_eq_div)
  finally show ?thesis .
qed

lemma version_nibble: "unat ((b AND 0x0f) OR 0x40 :: 8 word) div 16 = 4"
proof -
  let ?x = "(b AND 0x0f) OR 0x40 :: 8 word"
  have "unat (drop_bit 4 ?x) = unat ?x div 16"
    using drop_bit_eq_div [of 4 "unat ?x"] by (simp only: unat_drop_bit_eq) simp
  then show ?thesis by (simp add: version_nibble')
qed

lemma variant_nibble': "drop_bit 6 ((b AND 0x3f) OR 0x80 :: 8 word) = 2"
proof -
  have "drop_bit 6 ((b AND 0x3f) OR 0x80 :: 8 word) = (drop_bit 6 b AND drop_bit 6 0x3f) OR drop_bit 6 0x80"
    by (simp only: drop_bit_or drop_bit_and)
  also have "\<dots> = 2" by (simp add: drop_bit_eq_div)
  finally show ?thesis .
qed

lemma variant_nibble: "unat ((b AND 0x3f) OR 0x80 :: 8 word) div 16 \<in> {8, 9, 10, 11}"
proof -
  let ?x = "(b AND 0x3f) OR 0x80 :: 8 word"
  have "unat (drop_bit 6 ?x) = unat ?x div 64"
    using drop_bit_eq_div [of 6 "unat ?x"] by (simp only: unat_drop_bit_eq) simp
  then have "unat ?x div 64 = 2" by (simp add: variant_nibble')
  then have "128 \<le> unat ?x" "unat ?x < 192" by auto
  then have "8 \<le> unat ?x div 16" "unat ?x div 16 < 12" by auto
  then show ?thesis by auto
qed


lemma hexDigit_in: "n < 16 \<Longrightarrow> hexDigit n \<in> set ''0123456789abcdef''"
proof -
  assume "n < 16"
  then have "n \<in> set [0..<16]" by simp
  moreover have "list_all (\<lambda>n. hexDigit n \<in> set ''0123456789abcdef'') [0..<16]" by code_simp
  ultimately show ?thesis by (simp add: list_all_iff del: set_upt)
qed

lemma hexDigit_values [simp]:
  "hexDigit 4 = CHR ''4''" "hexDigit 8 = CHR ''8''" "hexDigit 9 = CHR ''9''"
  "hexDigit 10 = CHR ''a''" "hexDigit 11 = CHR ''b''"
  by code_simp+

lemma hexByte_in: "set (hexByte b) \<subseteq> set ''0123456789abcdef''"
proof -
  have "unat b < 256" using unsigned_less [of b] by simp
  then have "unat b div 16 < 16" "unat b mod 16 < 16" by auto
  then show ?thesis using hexDigit_in by (simp add: hexByte_def)
qed

lemma hexBytes_in: "set (hexBytes bs) \<subseteq> set ''0123456789abcdef''"
  using hexByte_in by (induction bs) (auto simp: hexBytes_def)

section \<open>Properties\<close>

text \<open>\<open>Recovery\<close> never lets a panic through. If the handler panics before any status has
  been written, the client gets a 500 with content type JSON and the generic error body
  appended to what was written, and nothing of the panic value.\<close>

theorem recovery_answers_500:
  assumes "nxt r w s = (w', Panicked p, s')" and "clean w'" and "base_conn w' = Some c'"
  shows "\<exists>u c. Recovery nxt r w s = (u, Returned, s') \<and> base_conn u = Some c \<and>
     conn_status c = Some 500 \<and> Get (conn_sent c) ''Content-Type'' = ''application/json'' \<and>
     conn_body c = conn_body c' @ errorBody ''internal_error'' ''Internal server error''"
  using writeErrorJSON_clean [OF assms(2) _ _ assms(3), of 500] assms(1)
  by (simp add: Recovery_def informational_def bodyAllowedForStatus_def) force

theorem recovery_answers_500_witness:
  "\<exists>u c. Recovery (\<lambda>r w s. (w, Panicked ''boom'', s)) (undefined :: request)
        (WrapResponseWriter (ServerResponse fresh_conn)) () = (u, Returned, ()) \<and>
      base_conn u = Some c \<and> conn_status c = Some 500"
proof -
  have "clean (WrapResponseWriter (ServerResponse fresh_conn))"
    "base_conn (WrapResponseWriter (ServerResponse fresh_conn)) = Some fresh_conn"
    by (simp_all add: WrapResponseWriter_def newWrapped_def fresh_conn_def)
  from recovery_answers_500 [OF _ this, of "\<lambda>r w s. (w, Panicked ''boom'', s)" undefined
      "WrapResponseWriter (ServerResponse fresh_conn)" "()"] show ?thesis by auto
qed

text \<open>A generated request id is a version 4 UUID: 8-4-4-4-12 lower-case hexadecimal digits
  with the version digit 4 and the variant digit 8, 9, a or b, for any random bytes.\<close>

theorem generateUUID_format:
  assumes "length rnd = 16"
  shows "\<exists>a b c d e. generateUUID rnd = a @ ''-'' @ b @ ''-4'' @ c @ ''-'' @ d @ ''-'' @ e \<and>
    length a = 8 \<and> length b = 4 \<and> length c = 3 \<and> length d = 4 \<and> length e = 12 \<and>
    hd d \<in> set ''89ab'' \<and> set (a @ b @ c @ d @ e) \<subseteq> set ''0123456789abcdef''"
proof -
  let ?u = "uuidBytes rnd"
  let ?x = "(rnd ! 6 AND 0x0f) OR 0x40" and ?y = "(rnd ! 8 AND 0x3f) OR 0x80"
  have len: "length ?u = 16" using assms by (simp add: uuidBytes_def Let_def)
  have u6: "drop 6 ?u = ?x # drop 7 ?u" and u8: "drop 8 ?u = ?y # drop 9 ?u"
    using Cons_nth_drop_Suc [of 6 ?u] Cons_nth_drop_Suc [of 8 ?u] len assms
    by (simp_all add: uuidBytes_def Let_def)
  define a b c d e where "a = hexBytes (take 4 ?u)" and "b = hexBytes (take 2 (drop 4 ?u))"
    and "c = hexDigit (unat ?x mod 16) # hexBytes (take 1 (drop 7 ?u))"
    and "d = hexBytes (take 2 (drop 8 ?u))" and "e = hexBytes (take 6 (drop 10 ?u))"
  have x: "hexBytes (take 2 (drop 6 ?u)) = ''4'' @ c"
    by (simp add: u6 c_def hexBytes_def hexByte_def version_nibble numeral_2_eq_2)
  have "hd d = hexDigit (unat ?y div 16)"
    by (simp add: u8 d_def hexBytes_def hexByte_def numeral_2_eq_2)
  then have "hd d \<in> set ''89ab''"
    using variant_nibble [of "rnd ! 8"] by auto
  moreover have "generateUUID rnd = a @ ''-'' @ b @ ''-4'' @ c @ ''-'' @ d @ ''-'' @ e"
    using x by (simp add: generateUUID_def Let_def a_def b_def d_def e_def)
  moreover have "length a = 8" "length b = 4" "length c = 3" "length d = 4" "length e = 12"
    using len by (simp_all add: a_def b_def c_def d_def e_def)
  moreover have "set c \<subseteq> set ''0123456789abcdef''"
    using hexDigit_in [of "unat ?x mod 16"] hexBytes_in [of "take 1 (drop 7 ?u)"]
    by (auto simp: c_def)
  moreover have "set a \<subseteq> set ''0123456789abcdef''" "set b \<subseteq> set ''0123456789abcdef''"
    "set d \<subseteq> set ''0123456789abcdef''" "set e \<subseteq> set ''0123456789abcdef''"
    unfolding a_def b_def d_def e_def by (rule hexBytes_in)+
  ultimately show ?thesis
    by (intro exI [of _ a] exI [of _ b] exI [of _ c] exI [of _ d] exI [of _ e])
      (simp only: set_append Un_subset_iff simp_thms)
qed
theorem generateUUID_format_witness:
  "\<exists>a b c d e. generateUUID (replicate 16 255) = a @ ''-'' @ b @ ''-4'' @ c @ ''-'' @ d @ ''-'' @ e \<and>
     hd d \<in> set ''89ab''"
proof -
  have "length (replicate 16 (255 :: 8 word)) = 16" by (rule length_replicate)
  from generateUUID_format [OF this] show ?thesis by blast
qed

text \<open>C29: For a request with an \<open>Origin\<close> that is not a preflight, below which a handler sets headers
  and then writes a status or a body: the response that reaches the client carries the headers \<open>h\<close> the
  handler had set, changed in these places only. \<open>Vary\<close> is \<open>Origin\<close>. For an allowed origin,
  \<open>Access-Control-Allow-Origin\<close> is \<open>*\<close> for a wildcard without credentials and the origin otherwise,
  \<open>Access-Control-Allow-Credentials\<close> is set when configured, and \<open>Access-Control-Expose-Headers\<close>
  when configured. For an origin that is not allowed the middleware sets none of the three.\<close>

theorem cors_headers_reach_client:
  assumes "Get (Header r) ''Origin'' = origin" and "origin \<noteq> []" and "\<not> isPreflight r"
    and "clean w"
    and "nxt r (CorsResponseWriter
           \<lparr>crw_origin = origin, crw_cfg = cfg, crw_headersSent = False\<rparr> w) s =
         (do_ops xs (CorsResponseWriter
           \<lparr>crw_origin = origin, crw_cfg = cfg, crw_headersSent = False\<rparr> w), out, s')"
    and "first_commit xs = Some code"
    and "h = set_until xs (headers w)"
    and "allowed \<longleftrightarrow> ''*'' \<in> set (AllowedOrigins cfg) \<or> origin \<in> set (AllowedOrigins cfg)"
  shows "\<exists>u c. CORSMiddleware cfg nxt r w s = (u, out, s') \<and> base_conn u = Some c \<and>
     conn_status c = Some code \<and> Get (conn_sent c) ''Vary'' = ''Origin'' \<and>
     Get (conn_sent c) ''Access-Control-Allow-Origin'' =
       (if allowed then if ''*'' \<in> set (AllowedOrigins cfg) \<and> \<not> AllowCredentials cfg then ''*'' else origin
        else Get h ''Access-Control-Allow-Origin'') \<and>
     Get (conn_sent c) ''Access-Control-Allow-Credentials'' =
       (if allowed \<and> AllowCredentials cfg then ''true'' else Get h ''Access-Control-Allow-Credentials'') \<and>
     Get (conn_sent c) ''Access-Control-Expose-Headers'' =
       (if allowed \<and> ExposedHeaders cfg \<noteq> [] then Join (ExposedHeaders cfg) '', ''
        else Get h ''Access-Control-Expose-Headers'') \<and>
     (\<forall>k. k \<notin> {''Vary'', ''Access-Control-Allow-Origin'', ''Access-Control-Allow-Credentials'',
                ''Access-Control-Expose-Headers''} \<longrightarrow> conn_sent c k = h k)"
proof -
  let ?f = "\<lparr>crw_origin = origin, crw_cfg = cfg, crw_headersSent = False\<rparr>"
  obtain c where c: "base_conn (do_ops xs (CorsResponseWriter ?f w)) = Some c"
    "conn_status c = Some code" "conn_sent c = injectCORSHeaders origin cfg h"
    using cors_first_commit [OF assms(4) _ assms(6), of ?f] assms(7) by auto
  obtain f' w' where w': "do_ops xs (CorsResponseWriter ?f w) = CorsResponseWriter f' w'"
    using acts_CorsD [of ?f w] by (metis acts_def)
  have eq: "CORSMiddleware cfg nxt r w s = (w', out, s')"
    using assms(1-5) w' by (simp add: CORSMiddleware_def Let_def)
  show ?thesis
    by (intro exI [of _ w'] exI [of _ c])
      (use c w' eq assms(2) in \<open>simp add: assms(8) inject_vary inject_allow_origin inject_credentials
        inject_expose inject_other resolveAllowOrigin_set\<close>)
qed

theorem cors_headers_reach_client_witness:
  "\<exists>u c. CORSMiddleware \<lparr>AllowedOrigins = [''a''], AllowedMethods = [], AllowedHeaders = [],
        ExposedHeaders = [], AllowCredentials = True, MaxAge = 0\<rparr>
      (\<lambda>r w s. (do_ops [OpWriteHeader 404] w, Returned, s))
      (bareRequest ''GET'' ''/'' (Set ''Origin'' ''b'' Map.empty)) (ServerResponse fresh_conn) ()
      = (u, Returned, ()) \<and>
     base_conn u = Some c \<and> conn_status c = Some 404 \<and>
     Get (conn_sent c) ''Access-Control-Allow-Origin'' = [] \<and>
     Get (conn_sent c) ''Access-Control-Allow-Credentials'' = []"
proof -
  let ?cfg = "\<lparr>AllowedOrigins = [''a''], AllowedMethods = [], AllowedHeaders = [],
        ExposedHeaders = [], AllowCredentials = True, MaxAge = 0\<rparr>"
  let ?r = "bareRequest ''GET'' ''/'' (Set ''Origin'' ''b'' Map.empty)"
  have o: "Get (Header ?r) ''Origin'' = ''b''" and ne: "''b'' \<noteq> []" and np: "\<not> isPreflight ?r"
    and cl: "clean (ServerResponse fresh_conn)" and fc: "first_commit [OpWriteHeader 404] = Some 404"
    and h: "headers (ServerResponse fresh_conn) = Map.empty"
    by (simp_all add: isPreflight_def fresh_conn_def informational_def)
  obtain u c where u: "CORSMiddleware ?cfg (\<lambda>r w s. (do_ops [OpWriteHeader 404] w, Returned, s)) ?r (ServerResponse fresh_conn) () =
      (u, Returned, ())" "base_conn u = Some c" "conn_status c = Some 404"
    and sent: "Get (conn_sent c) ''Access-Control-Allow-Origin'' =
        (if ''*'' \<in> set (AllowedOrigins ?cfg) \<or> ''b'' \<in> set (AllowedOrigins ?cfg)
         then if ''*'' \<in> set (AllowedOrigins ?cfg) \<and> \<not> AllowCredentials ?cfg then ''*'' else ''b''
         else Get (set_until [OpWriteHeader 404] (headers (ServerResponse fresh_conn))) ''Access-Control-Allow-Origin'')"
      "Get (conn_sent c) ''Access-Control-Allow-Credentials'' =
        (if (''*'' \<in> set (AllowedOrigins ?cfg) \<or> ''b'' \<in> set (AllowedOrigins ?cfg)) \<and> AllowCredentials ?cfg then ''true''
         else Get (set_until [OpWriteHeader 404] (headers (ServerResponse fresh_conn))) ''Access-Control-Allow-Credentials'')"
    using cors_headers_reach_client [where cfg = ?cfg and s = "()" and s' = "()" and out = Returned
      and nxt = "\<lambda>r w s. (do_ops [OpWriteHeader 404] w, Returned, s)", OF o ne np cl refl fc refl refl]
    by (elim exE conjE)
  moreover from sent have "Get (conn_sent c) ''Access-Control-Allow-Origin'' = []"
    "Get (conn_sent c) ''Access-Control-Allow-Credentials'' = []"
    unfolding set_until.simps h by simp_all
  ultimately show ?thesis
    by blast
qed

text \<open>A preflight request is answered by the middleware alone: the handler below is not
  called and the world is unchanged; on a fresh connection the status is 204, without a body,
  and \<open>Access-Control-Allow-Origin\<close> is present exactly for an allowed origin.\<close>

theorem preflight_answered_locally:
  assumes "isPreflight r" and "clean w" and "base_conn w = Some c0"
  shows "\<exists>u c. CORSMiddleware cfg nxt r w s = (u, Returned, s) \<and> base_conn u = Some c \<and>
     conn_status c = Some 204 \<and> conn_body c = conn_body c0 \<and>
     (Get (headers w) ''Access-Control-Allow-Origin'' = [] \<longrightarrow>
       Get (conn_sent c) ''Access-Control-Allow-Origin'' =
         resolveAllowOrigin (Get (Header r) ''Origin'') cfg)"
proof -
  let ?o = "Get (Header r) ''Origin''"
  let ?v = "updHeader (preflightHeaders ?o cfg) w"
  have body: "\<exists>c. base_conn (WriteHeader 204 ?v) = Some c \<and> conn_body c = conn_body c0"
    using assms(2,3) by (induction w) (auto simp: conn_WriteHeader_def wrw_WriteHeader_def)
  have "?o \<noteq> []" using assms(1) by (simp add: isPreflight_def)
  then have "CORSMiddleware cfg nxt r w s = (WriteHeader 204 ?v, Returned, s)"
    using assms(1) by (simp add: CORSMiddleware_def handlePreflight_def Let_def)
  moreover obtain c where "base_conn (WriteHeader 204 ?v) = Some c" "conn_status c = Some 204"
    "conn_sent c = preflightHeaders ?o cfg (headers w)" "conn_body c = conn_body c0"
    using clean_WriteHeader [of ?v 204] assms(2) body by (auto simp: informational_def)
  ultimately show ?thesis by (auto simp: preflightHeaders_def Let_def)
qed

theorem preflight_answered_locally_witness:
  "\<exists>u c. CORSMiddleware \<lparr>AllowedOrigins = [''*''], AllowedMethods = [''GET''], AllowedHeaders = [],
        ExposedHeaders = [], AllowCredentials = False, MaxAge = 0\<rparr> (\<lambda>r w s. (w, Panicked [], s))
      (bareRequest ''OPTIONS'' ''/''
        (Set ''Access-Control-Request-Method'' ''PUT'' (Set ''Origin'' ''a'' Map.empty)))
      (ServerResponse fresh_conn) () = (u, Returned, ()) \<and>
     base_conn u = Some c \<and> conn_status c = Some 204 \<and>
     Get (conn_sent c) ''Access-Control-Allow-Origin'' = ''*''"
proof -
  let ?r = "bareRequest ''OPTIONS'' ''/''
        (Set ''Access-Control-Request-Method'' ''PUT'' (Set ''Origin'' ''a'' Map.empty))"
  let ?cfg = "\<lparr>AllowedOrigins = [''*''], AllowedMethods = [''GET''], AllowedHeaders = [],
        ExposedHeaders = [], AllowCredentials = False, MaxAge = 0\<rparr>"
  have pre: "isPreflight ?r" by (simp add: isPreflight_def)
  have cl: "clean (ServerResponse fresh_conn)"
    and bc: "base_conn (ServerResponse fresh_conn) = Some fresh_conn"
    and h: "Get (headers (ServerResponse fresh_conn)) ''Access-Control-Allow-Origin'' = []"
    by (simp_all add: fresh_conn_def)
  have o: "resolveAllowOrigin (Get (Header ?r) ''Origin'') ?cfg = ''*''"
    by (simp add: resolveAllowOrigin_def)
  from preflight_answered_locally [where cfg = ?cfg and s = "()"
      and nxt = "\<lambda>r w s. (w, Panicked [], s)", OF pre cl bc] o h
  show ?thesis by metis
qed

end
