(* ===== verification/Router.thy ===== *)
theory Router
  imports Middleware
begin

text \<open>
  The router of \<open>internal/router/router.go\<close>: \<open>New\<close> compiles the route configurations, \<open>ServeHTTP\<close>
  dispatches to the first compiled route that matches. The regular expressions of Go's
  \<open>regexp\<close> are a parameter: whether a pattern compiles, the submatches of its leftmost match in
  a text (\<open>FindStringSubmatch\<close>) and the names of its groups (\<open>SubexpNames\<close>, group 0 first).
  The route holder of the request context is a cell of the world, written by \<open>setHolder\<close>.
\<close>

section \<open>Data\<close>

record regexp =
  re_compiles :: "string \<Rightarrow> bool"
  re_find :: "string \<Rightarrow> string \<Rightarrow> string list option"
  re_names :: "string \<Rightarrow> string list"

definition MatchString :: "regexp \<Rightarrow> string \<Rightarrow> string \<Rightarrow> bool" where
  "MatchString re pat s \<longleftrightarrow> re_find re pat s \<noteq> None"

record headerMatcher =
  hm_name :: string
  hm_regex :: "string option"
  hm_presenceOnly :: bool

record hostMatcher =
  host_exact :: string
  host_wildcardSuffix :: string

record 'h compiledRoute =
  cr_name :: string
  cr_regex :: string
  cr_methods :: "string set option"
  cr_host :: "hostMatcher option"
  cr_headers :: "headerMatcher list"
  cr_handler :: "'h option"
  cr_config :: RouteConfig

section \<open>New\<close>

definition anchor :: "string \<Rightarrow> string" where
  "anchor pattern = ''^(?:'' @ pattern @ '')$''"

definition compileHost :: "string \<Rightarrow> hostMatcher option" where
  "compileHost host =
     (if host = [] then None
      else (let h = ToLower host
            in if HasPrefix h ''*.''
               then Some \<lparr>host_exact = [], host_wildcardSuffix = drop 1 h\<rparr>
               else Some \<lparr>host_exact = h, host_wildcardSuffix = []\<rparr>))"

text \<open>\<open>None\<close> is the panic of \<open>regexp.MustCompile\<close>.\<close>

fun compileHeaders :: "regexp \<Rightarrow> (string \<times> string) list \<Rightarrow> headerMatcher list option" where
  "compileHeaders re [] = Some []"
| "compileHeaders re ((hdrName, pattern) # hs) =
     (if pattern = ''*'' then
        map_option (\<lambda>ms. \<lparr>hm_name = hdrName, hm_regex = None, hm_presenceOnly = True\<rparr> # ms)
          (compileHeaders re hs)
      else if \<not> re_compiles re (anchor pattern) then None
      else
        map_option (\<lambda>ms. \<lparr>hm_name = hdrName, hm_regex = Some (anchor pattern),
                          hm_presenceOnly = False\<rparr> # ms)
          (compileHeaders re hs))"

definition compileRoute ::
  "regexp \<Rightarrow> (string \<rightharpoonup> 'h) \<Rightarrow> RouteConfig \<Rightarrow> 'h compiledRoute option" where
  "compileRoute re handlers cfg =
     (if \<not> re_compiles re (PathRegex (Match cfg)) then None
      else
        (let methods = (if Methods (Match cfg) \<noteq> [] then Some (set (Methods (Match cfg))) else None);
             hm = compileHost (MatchHost (Match cfg))
         in map_option (\<lambda>hdrs. \<lparr>cr_name = RouteName cfg, cr_regex = PathRegex (Match cfg),
                cr_methods = methods, cr_host = hm, cr_headers = hdrs,
                cr_handler = handlers (RouteName cfg), cr_config = cfg\<rparr>)
              (compileHeaders re (MatchHeaders (Match cfg)))))"

fun router_New ::
  "regexp \<Rightarrow> RouteConfig list \<Rightarrow> (string \<rightharpoonup> 'h) \<Rightarrow> 'h compiledRoute list option" where
  "router_New re [] handlers = Some []"
| "router_New re (cfg # cfgs) handlers =
     (case compileRoute re handlers cfg of
        None \<Rightarrow> None
      | Some cr \<Rightarrow> map_option (\<lambda>crs. cr # crs) (router_New re cfgs handlers))"

section \<open>ServeHTTP\<close>

definition requestHost :: "string \<Rightarrow> string" where
  "requestHost host =
     ToLower (case LastIndexByte host (CHR '':'') of None \<Rightarrow> host | Some idx \<Rightarrow> take idx host)"

definition hostMatches :: "hostMatcher option \<Rightarrow> string \<Rightarrow> bool" where
  "hostMatches hm host = (case hm of
       None \<Rightarrow> True
     | Some m \<Rightarrow>
         (let reqHost = requestHost host
          in if host_exact m \<noteq> [] then reqHost = host_exact m
             else if \<not> HasSuffix reqHost (host_wildcardSuffix m) then False
             else (let pre = take (length reqHost - length (host_wildcardSuffix m)) reqHost
                   in \<not> (pre = [] \<or> Contains pre ''.''))))"

definition methodMatches :: "string set option \<Rightarrow> string \<Rightarrow> bool" where
  "methodMatches methods m = (case methods of
       None \<Rightarrow> True
     | Some ms \<Rightarrow> m \<in> ms \<or> m = ''OPTIONS'')"

fun headersMatch :: "regexp \<Rightarrow> headerMatcher list \<Rightarrow> header \<Rightarrow> bool" where
  "headersMatch re [] h = True"
| "headersMatch re (hm # hms) h =
     (let val = Get h (hm_name hm)
      in if hm_presenceOnly hm then (if val = [] then False else headersMatch re hms h)
         else (if \<not> MatchString re (the (hm_regex hm)) val then False else headersMatch re hms h))"

text \<open>One iteration of the loop: the submatches when every condition holds.\<close>

definition matchRoute :: "regexp \<Rightarrow> 'h compiledRoute \<Rightarrow> request \<Rightarrow> string list option" where
  "matchRoute re cr r = (case re_find re (cr_regex cr) (URLPath r) of
       None \<Rightarrow> None
     | Some ms \<Rightarrow>
         (if \<not> hostMatches (cr_host cr) (Host r) then None
          else if \<not> methodMatches (cr_methods cr) (Method r) then None
          else if \<not> headersMatch re (cr_headers cr) (Header r) then None
          else Some ms))"

fun pathParams :: "(string \<times> string) list \<Rightarrow> (string \<rightharpoonup> string) \<Rightarrow> (string \<rightharpoonup> string)" where
  "pathParams [] params = params"
| "pathParams ((name, m) # xs) params =
     pathParams xs (if name = [] then params else params(name \<mapsto> m))"

definition matchedRoute :: "regexp \<Rightarrow> RouteConfig \<Rightarrow> string list \<Rightarrow> MatchedRoute" where
  "matchedRoute re cfg ms =
     \<lparr>MatchedConfig = cfg,
      PathParams = pathParams (drop 1 (zip (re_names re (PathRegex (Match cfg))) ms)) Map.empty\<rparr>"

definition dispatch ::
  "(MatchedRoute \<Rightarrow> 'w \<Rightarrow> 'w) \<Rightarrow> 'w handler option \<Rightarrow> MatchedRoute \<Rightarrow> 'w handler" where
  "dispatch setHolder handler mr r w s =
     (let s1 = (if ctx_holder r then setHolder mr s else s)
      in (case handler of
            None \<Rightarrow> (w, Panicked ''invalid memory address or nil pointer dereference'', s1)
          | Some h \<Rightarrow> h (r\<lparr>ctx_route := Some mr\<rparr>) w s1))"

definition notFound :: "'w handler" where
  "notFound r w s = (writeErrorJSON 404 ''not_found'' ''No route matched'' w, Returned, s)"

fun Router_ServeHTTP ::
  "regexp \<Rightarrow> (MatchedRoute \<Rightarrow> 'w \<Rightarrow> 'w) \<Rightarrow> 'w handler compiledRoute list \<Rightarrow> 'w handler" where
  "Router_ServeHTTP re setHolder [] r w s = notFound r w s"
| "Router_ServeHTTP re setHolder (cr # crs) r w s = (case matchRoute re cr r of
       None \<Rightarrow> Router_ServeHTTP re setHolder crs r w s
     | Some ms \<Rightarrow> dispatch setHolder (cr_handler cr) (matchedRoute re (cr_config cr) ms) r w s)"

section \<open>Specification\<close>

text \<open>What the documentation promises of one route configuration: path pattern, host (exact, or
  exactly one label in place of the star), method (OPTIONS always passes) and all headers.\<close>

definition host_spec :: "string \<Rightarrow> string \<Rightarrow> bool" where
  "host_spec pattern host \<longleftrightarrow>
     pattern = [] \<or>
     (\<exists>base. ToLower pattern = ''*.'' @ base \<and>
        (\<exists>label. requestHost host = label @ ''.'' @ base \<and> label \<noteq> [] \<and> CHR ''.'' \<notin> set label)) \<or>
     (\<not> HasPrefix (ToLower pattern) ''*.'' \<and> requestHost host = ToLower pattern)"

definition header_spec :: "regexp \<Rightarrow> header \<Rightarrow> string \<times> string \<Rightarrow> bool" where
  "header_spec re h np =
     (if snd np = ''*'' then Get h (fst np) \<noteq> [] else MatchString re (anchor (snd np)) (Get h (fst np)))"

definition route_spec :: "regexp \<Rightarrow> request \<Rightarrow> RouteConfig \<Rightarrow> bool" where
  "route_spec re r cfg \<longleftrightarrow>
     MatchString re (PathRegex (Match cfg)) (URLPath r) \<and>
     host_spec (MatchHost (Match cfg)) (Host r) \<and>
     (Methods (Match cfg) = [] \<or> Method r \<in> set (Methods (Match cfg)) \<or> Method r = ''OPTIONS'') \<and>
     (\<forall>np \<in> set (MatchHeaders (Match cfg)). header_spec re (Header r) np)"

definition serve_spec ::
  "regexp \<Rightarrow> (MatchedRoute \<Rightarrow> 'w \<Rightarrow> 'w) \<Rightarrow> RouteConfig list \<Rightarrow> (string \<rightharpoonup> 'w handler) \<Rightarrow> 'w handler" where
  "serve_spec re setHolder cfgs handlers r w s = (case find (route_spec re r) cfgs of
       None \<Rightarrow> notFound r w s
     | Some cfg \<Rightarrow>
         dispatch setHolder (handlers (RouteName cfg))
           (matchedRoute re cfg (the (re_find re (PathRegex (Match cfg)) (URLPath r)))) r w s)"

definition config_compiles :: "regexp \<Rightarrow> RouteConfig \<Rightarrow> bool" where
  "config_compiles re cfg \<longleftrightarrow>
     re_compiles re (PathRegex (Match cfg)) \<and>
     (\<forall>(n, p) \<in> set (MatchHeaders (Match cfg)). p = ''*'' \<or> re_compiles re (anchor p))"

text \<open>For examples: an engine for patterns without operators, which match themselves only, and a
  route with nothing but a name, a path and methods.\<close>

definition literal_regexp :: regexp where
  "literal_regexp = \<lparr>re_compiles = \<lambda>_. True, re_find = \<lambda>p s. if p = s then Some [s] else None,
     re_names = \<lambda>_. [[]]\<rparr>"

definition simpleRoute :: "string \<Rightarrow> string \<Rightarrow> string list \<Rightarrow> RouteConfig" where
  "simpleRoute name path methods = \<lparr>RouteName = name,
     Match = \<lparr>PathRegex = path, Methods = methods, MatchHost = [], MatchHeaders = []\<rparr>,
     Upstream = \<lparr>UpstreamURL = [], PathRewrite = [], UpstreamTimeout = 0\<rparr>, Retry = None,
     RouteCircuitBreaker = None, SkipMiddlewares = [], RouteMiddlewares = []\<rparr>"

section \<open>Lemmas\<close>

lemma hostMatches_spec: "hostMatches (compileHost pattern) host \<longleftrightarrow> host_spec pattern host"
proof (cases "pattern = []")
  case True
  then show ?thesis by (simp add: hostMatches_def compileHost_def host_spec_def)
next
  case False
  let ?h = "ToLower pattern" and ?req = "requestHost host"
  have ne: "?h \<noteq> []" using False by (simp add: ToLower_def)
  show ?thesis
  proof (cases "HasPrefix ?h ''*.''")
    case True
    then obtain t where h: "?h = ''*.'' @ t" by (auto simp: HasPrefix_iff)
    have "hostMatches (compileHost pattern) host \<longleftrightarrow>
        (\<exists>label. ?req = label @ ''.'' @ t \<and> label \<noteq> [] \<and> CHR ''.'' \<notin> set label)"
      using False True h
      by (auto simp: hostMatches_def compileHost_def Let_def HasSuffix_iff Contains_byte_iff)
    with False True h show ?thesis by (auto simp: host_spec_def)
  next
    case notwild: False
    with False ne show ?thesis
      by (auto simp: hostMatches_def compileHost_def Let_def host_spec_def HasPrefix_iff)
  qed
qed

lemma compileHeaders_match:
  assumes "compileHeaders re hs = Some ms"
  shows "headersMatch re ms h \<longleftrightarrow> (\<forall>np \<in> set hs. header_spec re h np)"
  using assms
proof (induction re hs arbitrary: ms rule: compileHeaders.induct)
  case (2 re hdrName pattern hs)
  then obtain ms' where ms': "compileHeaders re hs = Some ms'" by (auto split: if_splits)
  with 2 have "headersMatch re ms' h \<longleftrightarrow> (\<forall>np \<in> set hs. header_spec re h np)"
    by (auto split: if_splits)
  with 2(3) ms' show ?case
    by (cases "pattern = ''*''") (auto simp: header_spec_def [of _ _ "(hdrName, _)"] Let_def
        split: if_splits)
qed simp

lemma compileHeaders_None_iff:
  "compileHeaders re hs = None \<longleftrightarrow> (\<exists>(n, p) \<in> set hs. p \<noteq> ''*'' \<and> \<not> re_compiles re (anchor p))"
  by (induction re hs rule: compileHeaders.induct) auto

lemma compileRoute_match:
  assumes "compileRoute re handlers cfg = Some cr"
  shows "matchRoute re cr r =
      (if route_spec re r cfg then re_find re (PathRegex (Match cfg)) (URLPath r) else None)"
    and "cr_handler cr = handlers (RouteName cfg)" and "cr_config cr = cfg"
  using assms
  by (auto simp: compileRoute_def matchRoute_def route_spec_def MatchString_def Let_def
      hostMatches_spec methodMatches_def compileHeaders_match split: option.splits if_splits)

lemma compileRoute_None_iff: "compileRoute re handlers cfg = None \<longleftrightarrow> \<not> config_compiles re cfg"
  by (auto simp: compileRoute_def config_compiles_def Let_def compileHeaders_None_iff)

lemma route_spec_find: "route_spec re r cfg \<Longrightarrow> \<exists>ms. re_find re (PathRegex (Match cfg)) (URLPath r) = Some ms"
  by (auto simp: route_spec_def MatchString_def)

lemma router_New_None_iff:
  "router_New re cfgs handlers = None \<longleftrightarrow> (\<exists>cfg \<in> set cfgs. \<not> config_compiles re cfg)"
proof (induction cfgs)
  case (Cons cfg cfgs)
  then show ?case
    by (cases "compileRoute re handlers cfg") (auto simp flip: compileRoute_None_iff [of re handlers])
qed simp

lemma pathParams_notin:
  "n \<notin> fst ` set xs \<Longrightarrow> pathParams xs p n = p n"
  by (induction xs p rule: pathParams.induct) auto

lemma pathParams_append: "pathParams (xs @ ys) p = pathParams ys (pathParams xs p)"
  by (induction xs p rule: pathParams.induct) auto

lemma pathParams_empty_name: "pathParams xs p [] = p []"
  by (induction xs p rule: pathParams.induct) auto

lemma Router_acts:
  assumes "\<forall>cr \<in> set crs. \<forall>h. cr_handler cr = Some h \<longrightarrow> well_behaved h"
  shows "acts w (fst (Router_ServeHTTP re setHolder crs r w s))"
  using assms
proof (induction crs)
  case (Cons cr crs)
  show ?case
  proof (cases "matchRoute re cr r")
    case None
    with Cons show ?thesis by simp
  next
    case (Some ms)
    with Cons.prems show ?thesis
      by (cases "cr_handler cr") (auto simp: dispatch_def Let_def well_behaved_def)
  qed
qed (simp add: notFound_def)

lemma Router_well_behaved:
  "\<forall>cr \<in> set crs. \<forall>h. cr_handler cr = Some h \<longrightarrow> well_behaved h \<Longrightarrow>
     well_behaved (Router_ServeHTTP re setHolder crs)"
  using Router_acts by (auto simp: well_behaved_def)

lemma Router_serves_first_match:
  assumes "router_New re cfgs handlers = Some crs"
  shows "Router_ServeHTTP re setHolder crs r w s = serve_spec re setHolder cfgs handlers r w s"
  using assms
proof (induction cfgs arbitrary: crs)
  case Nil
  then show ?case by (simp add: serve_spec_def)
next
  case (Cons cfg cfgs)
  then obtain cr crs' where cr: "compileRoute re handlers cfg = Some cr"
    and crs: "router_New re cfgs handlers = Some crs'" "crs = cr # crs'"
    by (auto split: option.splits)
  show ?case
    using Cons.IH [OF crs(1)] crs(2) compileRoute_match [OF cr] route_spec_find [of re r cfg]
    by (auto simp: serve_spec_def)
qed

section \<open>Properties\<close>

text \<open>C12: The compiled router is equivalent to first-match dispatch on the configurations: it
  calls the handler registered for the first route whose path pattern, host, method and
  headers all match, with that route and its submatches in the context, and answers 404 when
  none matches.\<close>

theorem router_equals_first_match:
  assumes "router_New re cfgs handlers = Some crs"
  shows "Router_ServeHTTP re setHolder crs r w s = serve_spec re setHolder cfgs handlers r w s"
  using assms by (rule Router_serves_first_match)

theorem router_equals_first_match_witness:
  "\<exists>crs. router_New literal_regexp [simpleRoute ''a'' ''/a'' [''POST''], simpleRoute ''b'' ''/a'' [''GET'']]
       [''a'' \<mapsto> (\<lambda>r w s. (w, Returned, s + 1)), ''b'' \<mapsto> (\<lambda>r w s. (w, Returned, s + 2))] = Some crs \<and>
     snd (snd (Router_ServeHTTP literal_regexp (\<lambda>_ s. s) crs (bareRequest ''GET'' ''/a'' Map.empty)
       (ServerResponse fresh_conn) (0 :: nat))) = 2"
proof -
  let ?cfgs = "[simpleRoute ''a'' ''/a'' [''POST''], simpleRoute ''b'' ''/a'' [''GET'']]"
  let ?hs = "[''a'' \<mapsto> (\<lambda>r w s. (w, Returned, s + 1)), ''b'' \<mapsto> (\<lambda>r w s. (w, Returned, s + 2))]
     :: string \<rightharpoonup> nat handler"
  let ?r = "bareRequest ''GET'' ''/a'' Map.empty"
  obtain crs where new: "router_New literal_regexp ?cfgs ?hs = Some crs"
    by (auto simp: compileRoute_def simpleRoute_def literal_regexp_def)
  have "find (route_spec literal_regexp ?r) ?cfgs = Some (simpleRoute ''b'' ''/a'' [''GET''])"
    by (simp add: route_spec_def MatchString_def host_spec_def simpleRoute_def literal_regexp_def)
  with router_equals_first_match [OF new, of "\<lambda>_ s. s" ?r "ServerResponse fresh_conn" 0] new
  show ?thesis by (auto simp: serve_spec_def dispatch_def simpleRoute_def)
qed

text \<open>\<open>New\<close> panics exactly when some route has a path pattern or an anchored header pattern
  that does not compile.\<close>

theorem router_New_panics_iff:
  "router_New re cfgs handlers = None \<longleftrightarrow> \<not> list_all (config_compiles re) cfgs"
  by (auto simp: router_New_None_iff list_all_iff)

text \<open>A pattern \<open>*.domain\<close> matches, without regard to case and with or without a port,
  exactly the hosts that put one non-empty label without dots before \<open>.domain\<close>: never the bare
  domain, never a deeper subdomain.\<close>

theorem wildcard_host_one_label:
  assumes "CHR '':'' \<notin> set h" and "host = h \<or> (\<exists>port. host = h @ '':'' @ port \<and> CHR '':'' \<notin> set port)"
  shows "hostMatches (compileHost (''*.'' @ base)) host \<longleftrightarrow>
         (\<exists>label. ToLower h = label @ ''.'' @ ToLower base \<and> label \<noteq> [] \<and> CHR ''.'' \<notin> set label)"
proof -
  have low: "ToLower (''*.'' @ base) = ''*.'' @ ToLower base"
    by (simp add: ToLower_def lowerByte_def isUpper_def byte_def)
  have host: "requestHost host = ToLower h"
    using assms LastIndexByte_None_iff [of h "CHR '':''"]
    by (auto simp: requestHost_def LastIndexByte_append)
  show ?thesis
    unfolding hostMatches_spec host_spec_def low host by (auto simp: HasPrefix_iff)
qed

theorem wildcard_host_one_label_witness:
  "hostMatches (compileHost ''*.Example.com'') ''API.example.com:8080'' \<and>
   \<not> hostMatches (compileHost ''*.Example.com'') ''a.b.example.com''"
proof -
  have low: "ToLower ''API.example.com'' = ''api'' @ ''.'' @ ToLower ''Example.com''" by code_simp
  have deep: "ToLower ''a.b.example.com'' = ''a.b'' @ ''.'' @ ToLower ''Example.com''" by code_simp
  show ?thesis
    using wildcard_host_one_label [of "''API.example.com''" "''API.example.com:8080''" "''Example.com''"]
      wildcard_host_one_label [of "''a.b.example.com''" "''a.b.example.com''" "''Example.com''"]
    by (auto simp: low deep intro: exI [of _ "''api''"])
qed

text \<open>The port is cut at the last colon of the Host header even when that colon belongs to an
  IPv6 literal, so a route for such a host matches the literal with a port and not without.\<close>

theorem ipv6_host_without_port_not_matched:
  "hostMatches (compileHost ''[::1]'') ''[::1]:8080'' \<and>
   \<not> hostMatches (compileHost ''[::1]'') ''[::1]''"
  by code_simp

text \<open>Named groups of the path pattern become path parameters: for a group name that occurs
  once, the parameter is the text of that group, and unnamed groups contribute none.\<close>

theorem path_params_are_named_groups:
  assumes "re_names re (PathRegex (Match cfg)) = names" and "length ms = length names"
    and "0 < j" and "j < length names" and "names ! j \<noteq> []"
    and "\<forall>i < length names. names ! i = names ! j \<longrightarrow> i = j"
  shows "PathParams (matchedRoute re cfg ms) (names ! j) = Some (ms ! j) \<and>
         PathParams (matchedRoute re cfg ms) [] = None"
proof -
  let ?zs = "drop 1 (zip names ms)"
  have split: "?zs = take (j - 1) ?zs @ (names ! j, ms ! j) # drop j ?zs"
    using assms(2-4) id_take_nth_drop [of "j - 1" ?zs] by simp
  have "names ! j \<notin> fst ` set (drop j ?zs)"
  proof
    assume "names ! j \<in> fst ` set (drop j ?zs)"
    then obtain k where "k < length (drop j ?zs)" "fst (drop j ?zs ! k) = names ! j"
      by (metis (no_types, lifting) imageE in_set_conv_nth)
    then have "names ! (Suc (j + k)) = names ! j" "Suc (j + k) < length names"
      using assms(2) by auto
    with assms(6) show False by force
  qed
  then have "pathParams ?zs Map.empty (names ! j) = Some (ms ! j)"
    by (subst split) (simp add: pathParams_append pathParams_notin assms(5))
  moreover have "pathParams zs Map.empty [] = None" for zs
    using pathParams_empty_name [of zs Map.empty] by simp
  ultimately show ?thesis using assms(1) by (simp add: matchedRoute_def)
qed

theorem path_params_are_named_groups_witness:
  "PathParams (matchedRoute (literal_regexp\<lparr>re_names := \<lambda>_. [[], ''id'']\<rparr>)
     (simpleRoute ''a'' ''p'' []) [''/u/42'', ''42'']) ''id'' = Some ''42''"
  using path_params_are_named_groups [of "literal_regexp\<lparr>re_names := \<lambda>_. [[], ''id'']\<rparr>"
      "simpleRoute ''a'' ''p'' []" "[[], ''id'']" "[''/u/42'', ''42'']" 1]
  by (simp add: less_Suc_eq)

end
