(* ===== verification/VarPattern.thy ===== *)
theory VarPattern
  imports Prelude
begin

text \<open>
  The placeholder pattern \<open>\$\{([^}]+)\}\<close> that \<open>internal/middleware/transform\<close> and \<open>internal/config\<close>
  compile, as a scanner: at a dollar sign and an opening brace, the name is the text up to the next
  closing brace and is not empty. \<open>ReplaceVars f s\<close> is \<open>ReplaceAllStringFunc\<close> with the submatch
  given to \<open>f\<close>; \<open>HasVar\<close> is \<open>MatchString\<close>.
\<close>

definition varName :: "string \<Rightarrow> string" where
  "varName s = takeWhile (\<lambda>c. c \<noteq> CHR ''}'') (drop 2 s)"

definition varHere :: "string \<Rightarrow> bool" where
  "varHere s \<longleftrightarrow> HasPrefix s ''${'' \<and> varName s \<noteq> [] \<and> CHR ''}'' \<in> set (drop 2 s)"

function ReplaceVars :: "(string \<Rightarrow> string) \<Rightarrow> string \<Rightarrow> string" where
  "ReplaceVars f s =
     (if s = [] then []
      else if varHere s then f (varName s) @ ReplaceVars f (drop (length (varName s) + 3) s)
      else hd s # ReplaceVars f (tl s))"
  by pat_completeness auto
termination
  by (relation "measure (\<lambda>(f, s). length s)") auto

declare ReplaceVars.simps [simp del]

fun HasVar :: "string \<Rightarrow> bool" where
  "HasVar [] = False"
| "HasVar (c # s) = (varHere (c # s) \<or> HasVar s)"

definition placeholder :: "string \<Rightarrow> string" where
  "placeholder name = ''${'' @ name @ ''}''"

section \<open>Lemmas\<close>

lemma ReplaceVars_Nil [simp]: "ReplaceVars f [] = []"
  by (simp add: ReplaceVars.simps [of f "[]"])

lemma ReplaceVars_no_var: "\<not> HasVar s \<Longrightarrow> ReplaceVars f s = s"
proof (induction s)
  case (Cons c s)
  then show ?case by (simp add: ReplaceVars.simps [of f "c # s"])
qed simp

lemma drop_placeholder: "drop (length name + 3) (placeholder name @ t) = t"
  by (simp add: placeholder_def numeral_3_eq_3)

lemma varHere_split:
  assumes "varHere s"
  shows "s = placeholder (varName s) @ drop (length (varName s) + 3) s"
    and "CHR ''}'' \<notin> set (varName s)" and "varName s \<noteq> []"
proof -
  from assms obtain t where s: "s = ''${'' @ t" by (auto simp: varHere_def HasPrefix_iff)
  with assms have "CHR ''}'' \<in> set t" by (simp add: varHere_def)
  then obtain a b where ab: "t = a @ CHR ''}'' # b" "CHR ''}'' \<notin> set a" by (meson split_list_first)
  with s have "varName s = a" by (auto simp: varName_def takeWhile_tail)
  moreover have "s = placeholder a @ b" using s ab by (simp add: placeholder_def)
  ultimately show "s = placeholder (varName s) @ drop (length (varName s) + 3) s"
    "CHR ''}'' \<notin> set (varName s)" "varName s \<noteq> []"
    using ab assms drop_placeholder by (auto simp: varHere_def)
qed

lemma varHere_placeholder:
  assumes "name \<noteq> []" and "CHR ''}'' \<notin> set name"
  shows "varHere (placeholder name @ t)" and "varName (placeholder name @ t) = name"
proof -
  show "varName (placeholder name @ t) = name"
    using assms by (auto simp: placeholder_def varName_def takeWhile_tail)
  with assms show "varHere (placeholder name @ t)" by (simp add: placeholder_def varHere_def)
qed

lemma ReplaceVars_placeholder:
  assumes "name \<noteq> []" and "CHR ''}'' \<notin> set name"
  shows "ReplaceVars f (placeholder name @ t) = f name @ ReplaceVars f t"
proof -
  have "placeholder name \<noteq> []" by (simp add: placeholder_def)
  then show ?thesis
    using varHere_placeholder [OF assms, of t] drop_placeholder [of name t]
      ReplaceVars.simps [of f "placeholder name @ t"] by (simp del: drop_append)
qed

text \<open>A dollar sign only starts a placeholder before an opening brace, so text without one passes
  through up to the first placeholder.\<close>

lemma ReplaceVars_prefix: "CHR ''$'' \<notin> set p \<Longrightarrow> ReplaceVars f (p @ s) = p @ ReplaceVars f s"
proof (induction p)
  case (Cons c p)
  then have "\<not> varHere (c # p @ s)" by (auto simp: varHere_def)
  with Cons show ?case by (simp add: ReplaceVars.simps [of f "c # p @ s"])
qed simp

text \<open>Leaving every placeholder as it is changes nothing.\<close>

lemma ReplaceVars_id: "ReplaceVars placeholder s = s"
proof (induction "length s" arbitrary: s rule: less_induct)
  case less
  consider "s = []" | "s \<noteq> []" "\<not> varHere s" | "s \<noteq> []" "varHere s" by blast
  then show ?case
  proof cases
    case 2
    with less [of "tl s"] show ?thesis by (simp add: ReplaceVars.simps [of _ s])
  next
    case 3
    with less [of "drop (length (varName s) + 3) s"]
    have "ReplaceVars placeholder s = placeholder (varName s) @ drop (length (varName s) + 3) s"
      by (simp add: ReplaceVars.simps [of _ s])
    with 3 varHere_split(1) [of s] show ?thesis by simp
  qed simp
qed

end
