(* ===== verification/Validate.thy ===== *)
theory Validate
  imports Resolve Router VarPattern
begin

text \<open>
  Defaults and semantic validation of \<open>internal/config/config.go\<close>: \<open>applyDefaults\<close>,
  \<open>validateHostPattern\<close>, \<open>validateResolvedMiddlewares\<close> and \<open>semanticErrors\<close>. An error of the
  code is a formatted text; here it is a value with the parts the text is made of, in the order
  in which the code appends them. \<open>Go\<close>'s \<open>map[string]bool\<close> is a set.
\<close>

section \<open>applyDefaults\<close>

definition orDefault :: "int \<Rightarrow> int \<Rightarrow> int" where
  "orDefault d x = (if x = 0 then d else x)"

definition serverDefaults :: "ServerConfig \<Rightarrow> ServerConfig" where
  "serverDefaults s = s\<lparr>
     ServerHost := (if ServerHost s = [] then ''0.0.0.0'' else ServerHost s),
     ServerPort := orDefault 8080 (ServerPort s),
     ReadTimeout := orDefault (30 * second_ns) (ReadTimeout s),
     WriteTimeout := orDefault (30 * second_ns) (WriteTimeout s),
     IdleTimeout := orDefault (120 * second_ns) (IdleTimeout s),
     ShutdownTimeout := orDefault (15 * second_ns) (ShutdownTimeout s),
     MaxHeaderBytes := orDefault (2 ^ 20) (MaxHeaderBytes s)\<rparr>"

definition redisDefaults :: "RedisConfig \<Rightarrow> RedisConfig" where
  "redisDefaults r = r\<lparr>
     PoolSize := orDefault 10 (PoolSize r),
     DialTimeout := orDefault (5 * second_ns) (DialTimeout r),
     RedisReadTimeout := orDefault (3 * second_ns) (RedisReadTimeout r),
     RedisWriteTimeout := orDefault (3 * second_ns) (RedisWriteTimeout r),
     QueryTimeout := orDefault 100000000 (QueryTimeout r)\<rparr>"

definition rateLimitDefaults :: "RateLimitGlobalConfig \<Rightarrow> RateLimitGlobalConfig" where
  "rateLimitDefaults g =
     (let backend = (if Backend g = [] then ''memory'' else Backend g)
      in g\<lparr>Backend := backend,
           Redis := (if backend = ''redis'' then map_option redisDefaults (Redis g) else Redis g)\<rparr>)"

definition routeDefaults :: "RouteConfig \<Rightarrow> RouteConfig" where
  "routeDefaults rc = rc\<lparr>Upstream := (Upstream rc)
     \<lparr>UpstreamTimeout := orDefault (30 * second_ns) (UpstreamTimeout (Upstream rc))\<rparr>\<rparr>"

definition applyDefaults :: "GatewayConfig \<Rightarrow> GatewayConfig" where
  "applyDefaults cfg = cfg\<lparr>
     Server := serverDefaults (Server cfg),
     LoggingLevel := (if LoggingLevel cfg = [] then ''info'' else LoggingLevel cfg),
     RateLimit := rateLimitDefaults (RateLimit cfg),
     Routes := map routeDefaults (Routes cfg)\<rparr>"

section \<open>validateHostPattern\<close>

datatype host_error =
    WildcardNotLeading
  | WildcardSuffixEmpty
  | SecondWildcard
  | WildcardSuffixOneLabel
  | EmptyLabel

definition validateHostPattern :: "string \<Rightarrow> host_error option" where
  "validateHostPattern host =
     (if Contains host ''*'' then
        if \<not> HasPrefix host ''*.'' then Some WildcardNotLeading
        else (let rest = drop 2 host
              in if rest = [] then Some WildcardSuffixEmpty
                 else if Contains rest ''*'' then Some SecondWildcard
                 else if \<not> Contains rest ''.'' then Some WildcardSuffixOneLabel
                 else if [] \<in> set (Split rest (CHR ''.'')) then Some EmptyLabel
                 else None)
      else if [] \<in> set (Split host (CHR ''.'')) then Some EmptyLabel
      else None)"

section \<open>validateResolvedMiddlewares\<close>

datatype mw_error =
    WrongConfigType
  | RequestsNotPositive int
  | WindowNotPositive int
  | UnsupportedAlgorithm string
  | LeakyBucketNeedsRedis string
  | InvalidKeySource string
  | EmptyHeaderName string
  | EmptyClaimName string
  | NoProviders
  | EmptyProvider
  | DuplicateProvider string
  | UndefinedProvider string
  | NoneCombined
  | NoAllowedOrigins

definition keySourceErrors :: "string \<Rightarrow> mw_error list" where
  "keySourceErrors ks =
     (if ks \<noteq> [] \<and> ks \<noteq> ''ip'' then
        if \<not> HasPrefix ks ''header:'' \<and> \<not> HasPrefix ks ''claim:'' then [InvalidKeySource ks]
        else if HasPrefix ks ''header:'' \<and> TrimPrefix ks ''header:'' = [] then [EmptyHeaderName ks]
        else if HasPrefix ks ''claim:'' \<and> TrimPrefix ks ''claim:'' = [] then [EmptyClaimName ks]
        else []
      else [])"

definition rateLimitErrors :: "string \<Rightarrow> RateLimitConfig \<Rightarrow> mw_error list" where
  "rateLimitErrors backend c =
     (if Requests c \<le> 0 then [RequestsNotPositive (Requests c)] else []) @
     (if Window c \<le> 0 then [WindowNotPositive (Window c)] else []) @
     (if AlgorithmName c = ''sliding_window'' \<or> AlgorithmName c = ''leaky_bucket'' then []
      else [UnsupportedAlgorithm (AlgorithmName c)]) @
     (if AlgorithmName c = ''leaky_bucket'' \<and> backend \<noteq> ''redis'' then [LeakyBucketNeedsRedis backend] else []) @
     keySourceErrors (KeySource c)"

text \<open>The loop over the providers: its errors and the set \<open>seen\<close> at its end.\<close>

fun providerErrors :: "(string \<Rightarrow> bool) \<Rightarrow> string list \<Rightarrow> string set \<Rightarrow> mw_error list \<times> string set" where
  "providerErrors isDefined [] seen = ([], seen)"
| "providerErrors isDefined (p # ps) seen =
     (if p = [] then apfst (Cons EmptyProvider) (providerErrors isDefined ps seen)
      else if p \<in> seen then apfst (Cons (DuplicateProvider p)) (providerErrors isDefined ps seen)
      else apfst ((@) (if p \<noteq> ''none'' \<and> \<not> isDefined p then [UndefinedProvider p] else []))
             (providerErrors isDefined ps (insert p seen)))"

definition authErrors :: "(string \<Rightarrow> bool) \<Rightarrow> AuthMiddlewareConfig \<Rightarrow> mw_error list" where
  "authErrors isDefined c =
     (if Providers c = [] then [NoProviders]
      else (case providerErrors isDefined (Providers c) {} of
              (errs, seen) \<Rightarrow>
                errs @ (if ''none'' \<in> seen \<and> 1 < length (Providers c) then [NoneCombined] else [])))"

definition middlewareErrors :: "GatewayConfig \<Rightarrow> ResolvedMiddleware \<Rightarrow> mw_error list" where
  "middlewareErrors cfg m =
     (if rm_Type m = ''rate_limit'' then
        (case rm_Config m of
           RateLimitCfg c \<Rightarrow> rateLimitErrors (Backend (RateLimit cfg)) c
         | _ \<Rightarrow> [WrongConfigType])
      else if rm_Type m = ''auth'' then
        (case rm_Config m of
           AuthCfg c \<Rightarrow> authErrors (\<lambda>p. map_of (AuthProviders cfg) p \<noteq> None) c
         | _ \<Rightarrow> [WrongConfigType])
      else if rm_Type m = ''cors'' then
        (case rm_Config m of
           CORSCfg c \<Rightarrow> if AllowedOrigins c = [] then [NoAllowedOrigins] else []
         | _ \<Rightarrow> [WrongConfigType])
      else [])"

section \<open>semanticErrors\<close>

text \<open>The context of a middleware error: \<open>None\<close> for the global list, else the route.\<close>

datatype config_error =
    DuplicateRouteName string
  | UnresolvedJWTSecret string
  | UnresolvedAPIKey string nat
  | UnresolvedClientSecret string
  | UnresolvedRedisAddr
  | UnresolvedRedisPassword
  | GlobalUnresolved resolve_error
  | MiddlewareInvalid "string option" string mw_error
  | InvalidPathRegex string
  | InvalidHost string host_error
  | InvalidHeaderRegex string string
  | SkipNotGlobal string string
  | RouteUnresolved string resolve_error
  | CORSNotFirst string string nat
  | ManyCORS string nat
  | ClaimWithoutAuth string string

definition validateResolvedMiddlewares ::
  "string option \<Rightarrow> ResolvedMiddleware list \<Rightarrow> GatewayConfig \<Rightarrow> config_error list" where
  "validateResolvedMiddlewares context resolved cfg =
     concat (map (\<lambda>m. map (MiddlewareInvalid context (rm_Name m)) (middlewareErrors cfg m)) resolved)"

fun duplicateErrors :: "RouteConfig list \<Rightarrow> string set \<Rightarrow> config_error list" where
  "duplicateErrors [] names = []"
| "duplicateErrors (route # routes) names =
     (if RouteName route \<in> names then [DuplicateRouteName (RouteName route)] else []) @
     duplicateErrors routes (insert (RouteName route) names)"

definition hasUnresolvedEnvVar :: "string \<Rightarrow> bool" where
  "hasUnresolvedEnvVar s = HasVar s"

fun apiKeyErrors :: "string \<Rightarrow> nat \<Rightarrow> APIKeyEntry list \<Rightarrow> config_error list" where
  "apiKeyErrors name i [] = []"
| "apiKeyErrors name i (k # ks) =
     (if hasUnresolvedEnvVar (Key k) then [UnresolvedAPIKey name i] else []) @ apiKeyErrors name (Suc i) ks"

definition secretErrors :: "string \<times> AuthProvider \<Rightarrow> config_error list" where
  "secretErrors na = (case na of (name, ap) \<Rightarrow>
     (case ap_JWT ap of
        Some j \<Rightarrow> if hasUnresolvedEnvVar (Secret j) then [UnresolvedJWTSecret name] else []
      | None \<Rightarrow> []) @
     (case ap_APIKey ap of Some k \<Rightarrow> apiKeyErrors name 0 (Keys k) | None \<Rightarrow> []) @
     (case ap_OIDC ap of
        Some c \<Rightarrow> if hasUnresolvedEnvVar (ClientSecret c) then [UnresolvedClientSecret name] else []
      | None \<Rightarrow> []))"

definition redisErrors :: "RedisConfig option \<Rightarrow> config_error list" where
  "redisErrors r = (case r of
       None \<Rightarrow> []
     | Some c \<Rightarrow>
         (if hasUnresolvedEnvVar (Addr c) then [UnresolvedRedisAddr] else []) @
         (if hasUnresolvedEnvVar (Password c) then [UnresolvedRedisPassword] else []))"

definition matchErrors :: "regexp \<Rightarrow> RouteConfig \<Rightarrow> config_error list" where
  "matchErrors re route =
     (let m = Match route; name = RouteName route
      in (if PathRegex m \<noteq> [] \<and> \<not> re_compiles re (PathRegex m) then [InvalidPathRegex name] else []) @
         (if MatchHost m \<noteq> [] then
            (case validateHostPattern (MatchHost m) of Some e \<Rightarrow> [InvalidHost name e] | None \<Rightarrow> [])
          else []) @
         concat (map (\<lambda>(hdrName, pattern).
            if pattern = ''*'' then []
            else if \<not> re_compiles re (anchor pattern) then [InvalidHeaderRegex name hdrName]
            else []) (MatchHeaders m)))"

definition effectiveChain ::
  "ResolvedMiddleware list \<Rightarrow> RouteConfig \<Rightarrow> ResolvedMiddleware list \<Rightarrow> ResolvedMiddleware list" where
  "effectiveChain globals route routeResolved =
     filter (\<lambda>gm. rm_Name gm \<notin> set (SkipMiddlewares route)) globals @ routeResolved"

text \<open>The loop over the chain for CORS: position, count so far, errors; the count at the end.\<close>

fun corsErrors :: "string \<Rightarrow> nat \<Rightarrow> nat \<Rightarrow> ResolvedMiddleware list \<Rightarrow> config_error list" where
  "corsErrors name i count [] = (if 1 < count then [ManyCORS name count] else [])"
| "corsErrors name i count (m # ms) =
     (if rm_Type m = ''cors'' then
        (if i \<noteq> 0 \<and> count + 1 = 1 then [CORSNotFirst name (rm_Name m) i] else []) @
        corsErrors name (Suc i) (count + 1) ms
      else corsErrors name (Suc i) count ms)"

fun claimErrors :: "string \<Rightarrow> bool \<Rightarrow> ResolvedMiddleware list \<Rightarrow> config_error list" where
  "claimErrors name authSeen [] = []"
| "claimErrors name authSeen (m # ms) =
     (let authSeen' = (authSeen \<or> rm_Type m = ''auth'')
      in (if rm_Type m = ''rate_limit'' then
            (case rm_Config m of
               RateLimitCfg c \<Rightarrow>
                 if HasPrefix (KeySource c) ''claim:'' \<and> \<not> authSeen' then [ClaimWithoutAuth name (rm_Name m)] else []
             | _ \<Rightarrow> [])
          else []) @ claimErrors name authSeen' ms)"

definition routeErrors ::
  "yaml_lib \<Rightarrow> regexp \<Rightarrow> GatewayConfig \<Rightarrow> ResolvedMiddleware list \<Rightarrow> RouteConfig \<Rightarrow> config_error list" where
  "routeErrors lib re cfg globals route =
     matchErrors re route @
     concat (map (\<lambda>name. if name \<in> set (map mr_Ref (Middlewares cfg)) then [] else [SkipNotGlobal (RouteName route) name])
       (SkipMiddlewares route)) @
     (case ResolveMiddlewares lib (RouteMiddlewares route) (map_of (MiddlewareDefinitions cfg)) of
        Inl e \<Rightarrow> [RouteUnresolved (RouteName route) e]
      | Inr routeResolved \<Rightarrow>
          (let chain = effectiveChain globals route routeResolved
           in validateResolvedMiddlewares (Some (RouteName route)) routeResolved cfg @
              corsErrors (RouteName route) 0 0 chain @
              claimErrors (RouteName route) False chain))"

definition semanticErrors :: "yaml_lib \<Rightarrow> regexp \<Rightarrow> GatewayConfig \<Rightarrow> config_error list" where
  "semanticErrors lib re cfg =
     (let globalRes = ResolveMiddlewares lib (Middlewares cfg) (map_of (MiddlewareDefinitions cfg));
          globals = (case globalRes of Inl _ \<Rightarrow> [] | Inr ms \<Rightarrow> ms)
      in duplicateErrors (Routes cfg) {} @
         concat (map secretErrors (AuthProviders cfg)) @
         redisErrors (Redis (RateLimit cfg)) @
         (case globalRes of
            Inl e \<Rightarrow> [GlobalUnresolved e]
          | Inr ms \<Rightarrow> validateResolvedMiddlewares None ms cfg) @
         concat (map (routeErrors lib re cfg globals) (Routes cfg)))"

section \<open>What a valid configuration is\<close>

text \<open>The declarative reading: what the README asks of a configuration, with no order of checks
  and no accumulators.\<close>

definition key_source_ok :: "string \<Rightarrow> bool" where
  "key_source_ok ks \<longleftrightarrow>
     ks \<in> {[], ''ip''} \<or> (\<exists>name. name \<noteq> [] \<and> (ks = ''header:'' @ name \<or> ks = ''claim:'' @ name))"

definition rate_limit_ok :: "string \<Rightarrow> RateLimitConfig \<Rightarrow> bool" where
  "rate_limit_ok backend c \<longleftrightarrow>
     0 < Requests c \<and> 0 < Window c \<and>
     (AlgorithmName c = ''sliding_window'' \<or> AlgorithmName c = ''leaky_bucket'' \<and> backend = ''redis'') \<and>
     key_source_ok (KeySource c)"

definition providers_ok :: "(string \<Rightarrow> bool) \<Rightarrow> string list \<Rightarrow> bool" where
  "providers_ok isDefined ps \<longleftrightarrow>
     ps = [''none''] \<or>
     ps \<noteq> [] \<and> distinct ps \<and> (\<forall>p \<in> set ps. p \<noteq> [] \<and> p \<noteq> ''none'' \<and> isDefined p)"

definition middleware_ok :: "GatewayConfig \<Rightarrow> ResolvedMiddleware \<Rightarrow> bool" where
  "middleware_ok cfg m \<longleftrightarrow> (case rm_Config m of
       RateLimitCfg c \<Rightarrow> rate_limit_ok (Backend (RateLimit cfg)) c
     | AuthCfg c \<Rightarrow> providers_ok (\<lambda>p. map_of (AuthProviders cfg) p \<noteq> None) (Providers c)
     | CORSCfg c \<Rightarrow> AllowedOrigins c \<noteq> []
     | TransformCfg c \<Rightarrow> True)"

text \<open>CORS only at the head of the chain; a limit by claim only behind an authentication.\<close>

definition by_claim :: "ResolvedMiddleware \<Rightarrow> bool" where
  "by_claim m \<longleftrightarrow> (\<exists>c. rm_Config m = RateLimitCfg c \<and> HasPrefix (KeySource c) ''claim:'')"

definition claims_behind_auth :: "ResolvedMiddleware list \<Rightarrow> bool" where
  "claims_behind_auth chain \<longleftrightarrow>
     (\<forall>pre m post. chain = pre @ m # post \<longrightarrow> by_claim m \<longrightarrow> (\<exists>a \<in> set pre. rm_Type a = ''auth''))"

definition chain_ok :: "ResolvedMiddleware list \<Rightarrow> bool" where
  "chain_ok chain \<longleftrightarrow> (\<forall>m \<in> set (tl chain). rm_Type m \<noteq> ''cors'') \<and> claims_behind_auth chain"

definition host_ok :: "string \<Rightarrow> bool" where
  "host_ok host \<longleftrightarrow>
     (\<exists>base. [] \<notin> set (Split base (CHR ''.'')) \<and> CHR ''*'' \<notin> set base \<and>
        (host = base \<or> host = ''*.'' @ base \<and> CHR ''.'' \<in> set base))"

definition route_ok :: "yaml_lib \<Rightarrow> regexp \<Rightarrow> GatewayConfig \<Rightarrow> ResolvedMiddleware list \<Rightarrow> RouteConfig \<Rightarrow> bool" where
  "route_ok lib re cfg globals route \<longleftrightarrow>
     (PathRegex (Match route) = [] \<or> re_compiles re (PathRegex (Match route))) \<and>
     (MatchHost (Match route) = [] \<or> host_ok (MatchHost (Match route))) \<and>
     (\<forall>(n, p) \<in> set (MatchHeaders (Match route)). p = ''*'' \<or> re_compiles re (anchor p)) \<and>
     set (SkipMiddlewares route) \<subseteq> mr_Ref ` set (Middlewares cfg) \<and>
     (\<exists>rs. ResolveMiddlewares lib (RouteMiddlewares route) (map_of (MiddlewareDefinitions cfg)) = Inr rs \<and>
        (\<forall>m \<in> set rs. middleware_ok cfg m) \<and> chain_ok (effectiveChain globals route rs))"

definition secrets_resolved :: "GatewayConfig \<Rightarrow> bool" where
  "secrets_resolved cfg \<longleftrightarrow>
     (\<forall>(n, ap) \<in> set (AuthProviders cfg).
        (\<forall>j. ap_JWT ap = Some j \<longrightarrow> \<not> HasVar (Secret j)) \<and>
        (\<forall>k. ap_APIKey ap = Some k \<longrightarrow> (\<forall>e \<in> set (Keys k). \<not> HasVar (Key e))) \<and>
        (\<forall>c. ap_OIDC ap = Some c \<longrightarrow> \<not> HasVar (ClientSecret c))) \<and>
     (\<forall>c. Redis (RateLimit cfg) = Some c \<longrightarrow> \<not> HasVar (Addr c) \<and> \<not> HasVar (Password c))"

definition valid_config :: "yaml_lib \<Rightarrow> regexp \<Rightarrow> GatewayConfig \<Rightarrow> bool" where
  "valid_config lib re cfg \<longleftrightarrow>
     distinct (map RouteName (Routes cfg)) \<and> secrets_resolved cfg \<and>
     (\<exists>globals. ResolveMiddlewares lib (Middlewares cfg) (map_of (MiddlewareDefinitions cfg)) = Inr globals \<and>
        (\<forall>m \<in> set globals. middleware_ok cfg m) \<and> (\<forall>route \<in> set (Routes cfg). route_ok lib re cfg globals route))"

text \<open>For examples: decoders that ignore the node, and a configuration with one definition of each
  type, CORS for every route and authentication before a limit by claim on the only route.\<close>

definition demo_yaml :: yaml_lib where
  "demo_yaml = \<lparr>
     decodeCORS = (\<lambda>_. Inr (zeroCORS\<lparr>AllowedOrigins := [''*'']\<rparr>)),
     decodeRateLimit = (\<lambda>_. Inr (zeroRateLimit\<lparr>Requests := 5, Window := 60 * second_ns, KeySource := ''claim:sub''\<rparr>)),
     decodeAuth = (\<lambda>_. Inr \<lparr>Providers = [''keys'']\<rparr>),
     decodeTransform = (\<lambda>_. Inr zeroTransform),
     marshalNode = (\<lambda>n. Some (nValue n))\<rparr>"

definition demo_definition :: "string \<Rightarrow> MiddlewareDefinition" where
  "demo_definition t = \<lparr>md_Type = t, md_Config = Node MappingNode [] [] []\<rparr>"

definition demo_ref :: "string \<Rightarrow> MiddlewareRef" where
  "demo_ref name = \<lparr>mr_Ref = name, mr_Config = zeroNode\<rparr>"

definition demo_server :: ServerConfig where
  "demo_server = \<lparr>ServerHost = [], ServerPort = 0, ReadTimeout = 0, WriteTimeout = 0, IdleTimeout = 0,
     ShutdownTimeout = 0, TrustedProxies = [], MaxHeaderBytes = 0\<rparr>"

definition demo_gateway :: GatewayConfig where
  "demo_gateway = \<lparr>Server = demo_server, LoggingLevel = [], RateLimit = \<lparr>Backend = [], Redis = None\<rparr>,
     AuthProviders = [(''keys'', \<lparr>ap_Type = ''apikey'', ap_JWT = None,
        ap_APIKey = Some \<lparr>APIKeyHeader = [], Keys = [\<lparr>Key = ''k1'', KeyName = ''ann''\<rparr>]\<rparr>, ap_OIDC = None\<rparr>)],
     MiddlewareDefinitions = [(''web'', demo_definition ''cors''), (''login'', demo_definition ''auth''),
        (''slow'', demo_definition ''rate_limit''), (''shape'', demo_definition ''transform'')],
     Middlewares = [demo_ref ''web''],
     Routes = [(simpleRoute ''r1'' ''/a'' [])\<lparr>RouteMiddlewares := [demo_ref ''login'', demo_ref ''slow'', demo_ref ''shape'']\<rparr>]\<rparr>"

section \<open>Each check against its reading\<close>

named_theorems no_error

lemma prefix_and_rest: "HasPrefix s p \<and> TrimPrefix s p \<noteq> [] \<longleftrightarrow> (\<exists>name. name \<noteq> [] \<and> s = p @ name)"
proof (cases "HasPrefix s p")
  case True
  then obtain t where "s = p @ t" by (auto simp: HasPrefix_iff)
  then show ?thesis by auto
qed (auto simp: HasPrefix_iff)

lemma keySourceErrors_Nil [no_error]: "keySourceErrors ks = [] \<longleftrightarrow> key_source_ok ks"
proof -
  have excl: "\<not> (HasPrefix ks ''header:'' \<and> HasPrefix ks ''claim:'')" by (cases ks) simp_all
  have "keySourceErrors ks = [] \<longleftrightarrow> ks \<in> {[], ''ip''} \<or>
      HasPrefix ks ''header:'' \<and> TrimPrefix ks ''header:'' \<noteq> [] \<or>
      HasPrefix ks ''claim:'' \<and> TrimPrefix ks ''claim:'' \<noteq> []"
    using excl by (simp add: keySourceErrors_def del: HasPrefix_Cons_Cons) blast
  then show ?thesis unfolding prefix_and_rest key_source_ok_def by blast
qed

lemma rateLimitErrors_Nil [no_error]: "rateLimitErrors backend c = [] \<longleftrightarrow> rate_limit_ok backend c"
  by (auto simp: rateLimitErrors_def rate_limit_ok_def no_error)

lemma providerErrors_seen: "fst (providerErrors d ps seen) = [] \<Longrightarrow> snd (providerErrors d ps seen) = seen \<union> set ps"
  by (induction d ps seen rule: providerErrors.induct) (auto split: if_splits)

lemma providerErrors_Nil:
  "fst (providerErrors d ps seen) = [] \<longleftrightarrow>
     distinct ps \<and> set ps \<inter> seen = {} \<and> (\<forall>p \<in> set ps. p \<noteq> [] \<and> (p = ''none'' \<or> d p))"
  by (induction d ps seen rule: providerErrors.induct) auto

lemma distinct_singleton: "distinct ps \<Longrightarrow> p \<in> set ps \<Longrightarrow> length ps \<le> 1 \<Longrightarrow> ps = [p]"
  by (cases ps; cases "tl ps") auto

lemma authErrors_Nil [no_error]: "authErrors d c = [] \<longleftrightarrow> providers_ok d (Providers c)"
proof -
  obtain errs seen where e: "providerErrors d (Providers c) {} = (errs, seen)" by fastforce
  from providerErrors_Nil [of d "Providers c" "{}"] e
  have n: "errs = [] \<longleftrightarrow> distinct (Providers c) \<and> (\<forall>p \<in> set (Providers c). p \<noteq> [] \<and> (p = ''none'' \<or> d p))" by simp
  from providerErrors_seen [of d "Providers c" "{}"] e have s: "errs = [] \<Longrightarrow> seen = set (Providers c)" by simp
  have "authErrors d c = [] \<longleftrightarrow> Providers c \<noteq> [] \<and> errs = [] \<and> (''none'' \<in> seen \<longrightarrow> length (Providers c) \<le> 1)"
    by (auto simp: authErrors_def e not_less)
  also have "\<dots> \<longleftrightarrow> Providers c \<noteq> [] \<and> errs = [] \<and> (''none'' \<in> set (Providers c) \<longrightarrow> length (Providers c) \<le> 1)"
    using s by auto
  also have "\<dots> \<longleftrightarrow> providers_ok d (Providers c)"
    unfolding n providers_ok_def using distinct_singleton [of "Providers c" "''none''"] by auto
  finally show ?thesis .
qed

lemma middlewareErrors_Nil [no_error]:
  "well_typed m \<Longrightarrow> middlewareErrors cfg m = [] \<longleftrightarrow> middleware_ok cfg m"
  by (auto simp: middlewareErrors_def middleware_ok_def well_typed_def no_error split: TypedConfig.splits)

lemma validateResolvedMiddlewares_Nil [no_error]:
  "\<forall>m \<in> set ms. well_typed m \<Longrightarrow>
   validateResolvedMiddlewares context ms cfg = [] \<longleftrightarrow> (\<forall>m \<in> set ms. middleware_ok cfg m)"
  by (auto simp: validateResolvedMiddlewares_def no_error)

lemma duplicateErrors_Nil [no_error]:
  "duplicateErrors routes names = [] \<longleftrightarrow>
     distinct (map RouteName routes) \<and> RouteName ` set routes \<inter> names = {}"
  by (induction routes names rule: duplicateErrors.induct) auto

lemma apiKeyErrors_Nil [no_error]: "apiKeyErrors name i ks = [] \<longleftrightarrow> (\<forall>e \<in> set ks. \<not> HasVar (Key e))"
  by (induction name i ks rule: apiKeyErrors.induct) (auto simp: hasUnresolvedEnvVar_def)

lemma secrets_Nil [no_error]:
  "concat (map secretErrors (AuthProviders cfg)) @ redisErrors (Redis (RateLimit cfg)) = [] \<longleftrightarrow> secrets_resolved cfg"
proof -
  have "secretErrors na = [] \<longleftrightarrow> (case na of (n, ap) \<Rightarrow>
        (\<forall>j. ap_JWT ap = Some j \<longrightarrow> \<not> HasVar (Secret j)) \<and>
        (\<forall>k. ap_APIKey ap = Some k \<longrightarrow> (\<forall>e \<in> set (Keys k). \<not> HasVar (Key e))) \<and>
        (\<forall>c. ap_OIDC ap = Some c \<longrightarrow> \<not> HasVar (ClientSecret c)))" for na
    by (cases na) (simp add: secretErrors_def no_error hasUnresolvedEnvVar_def split: option.split)
  moreover have "redisErrors r = [] \<longleftrightarrow> (\<forall>c. r = Some c \<longrightarrow> \<not> HasVar (Addr c) \<and> \<not> HasVar (Password c))" for r
    by (cases r) (simp_all add: redisErrors_def hasUnresolvedEnvVar_def)
  ultimately show ?thesis by (simp add: secrets_resolved_def)
qed

lemma validateHostPattern_None [no_error]: "validateHostPattern host = None \<longleftrightarrow> host_ok host"
proof (cases "CHR ''*'' \<in> set host")
  case True
  show ?thesis
  proof (cases "HasPrefix host ''*.''")
    case p: True
    then obtain base where b: "host = ''*.'' @ base" by (auto simp: HasPrefix_iff)
    with p have "validateHostPattern host = None \<longleftrightarrow>
        base \<noteq> [] \<and> CHR ''*'' \<notin> set base \<and> CHR ''.'' \<in> set base \<and> [] \<notin> set (Split base (CHR ''.''))"
      by (simp add: validateHostPattern_def Let_def del: HasPrefix_Cons_Cons)
    also have "\<dots> \<longleftrightarrow> host_ok host" using b by (auto simp: host_ok_def)
    finally show ?thesis .
  next
    case False
    with True have "\<not> host_ok host" by (auto simp: host_ok_def HasPrefix_iff)
    with True False show ?thesis by (simp add: validateHostPattern_def)
  qed
next
  case False
  then show ?thesis by (auto simp: validateHostPattern_def host_ok_def)
qed

lemma matchErrors_Nil [no_error]:
  "matchErrors re route = [] \<longleftrightarrow>
     (PathRegex (Match route) = [] \<or> re_compiles re (PathRegex (Match route))) \<and>
     (MatchHost (Match route) = [] \<or> host_ok (MatchHost (Match route))) \<and>
     (\<forall>(n, p) \<in> set (MatchHeaders (Match route)). p = ''*'' \<or> re_compiles re (anchor p))"
proof -
  have "(if MatchHost m \<noteq> [] then
      (case validateHostPattern (MatchHost m) of Some e \<Rightarrow> [InvalidHost name e] | None \<Rightarrow> []) else []) = [] \<longleftrightarrow>
      MatchHost m = [] \<or> host_ok (MatchHost m)" for m :: MatchConfig and name
    using validateHostPattern_None [of "MatchHost m"] by (cases "validateHostPattern (MatchHost m)") auto
  moreover have "concat (map (\<lambda>(hdrName, pattern).
        if pattern = ''*'' then []
        else if \<not> re_compiles re (anchor pattern) then [InvalidHeaderRegex name hdrName]
        else []) hs) = [] \<longleftrightarrow> (\<forall>(n, p) \<in> set hs. p = ''*'' \<or> re_compiles re (anchor p))" for hs name
    by (induction hs) (auto split: if_splits)
  ultimately show ?thesis unfolding matchErrors_def Let_def append_is_Nil_conv by simp
qed

lemma corsErrors_many: "2 \<le> count \<Longrightarrow> corsErrors name i count ms \<noteq> []"
  by (induction name i count ms rule: corsErrors.induct) auto

lemma corsErrors_tail:
  "0 < i \<Longrightarrow> count \<le> 1 \<Longrightarrow> corsErrors name i count ms = [] \<longleftrightarrow> (\<forall>m \<in> set ms. rm_Type m \<noteq> ''cors'')"
proof (induction name i count ms rule: corsErrors.induct)
  case (2 name i count m ms)
  then show ?case
  proof (cases "rm_Type m = ''cors'' \<and> count = 1")
    case True
    then show ?thesis using corsErrors_many [of "Suc (Suc 0)" name "Suc i" ms] by simp
  qed (use 2 in auto)
qed simp

lemma corsErrors_Nil [no_error]: "corsErrors name 0 0 chain = [] \<longleftrightarrow> (\<forall>m \<in> set (tl chain). rm_Type m \<noteq> ''cors'')"
  by (cases chain) (simp_all add: corsErrors_tail)

lemma claims_behind_auth_Cons:
  "claims_behind_auth (m # ms) \<longleftrightarrow> \<not> by_claim m \<and> (rm_Type m = ''auth'' \<or> claims_behind_auth ms)"
proof (intro iffI conjI)
  assume c: "claims_behind_auth (m # ms)"
  then show "\<not> by_claim m" by (force simp: claims_behind_auth_def)
  show "rm_Type m = ''auth'' \<or> claims_behind_auth ms"
  proof (cases "rm_Type m = ''auth''")
    case False
    have "\<exists>a \<in> set pre. rm_Type a = ''auth''" if "ms = pre @ x # post" "by_claim x" for pre x post
      using c that False unfolding claims_behind_auth_def
      by (metis append_Cons set_ConsD)
    then show ?thesis by (auto simp: claims_behind_auth_def)
  qed simp
next
  assume *: "\<not> by_claim m \<and> (rm_Type m = ''auth'' \<or> claims_behind_auth ms)"
  show "claims_behind_auth (m # ms)" unfolding claims_behind_auth_def
  proof (intro allI impI)
    fix pre x post assume "m # ms = pre @ x # post" "by_claim x"
    with * obtain pre' where "pre = m # pre'" "ms = pre' @ x # post" by (cases pre) auto
    with * \<open>by_claim x\<close> show "\<exists>a \<in> set pre. rm_Type a = ''auth''"
      unfolding claims_behind_auth_def by auto
  qed
qed

lemma claimErrors_Nil:
  "\<forall>m \<in> set chain. well_typed m \<Longrightarrow>
   claimErrors name authSeen chain = [] \<longleftrightarrow> authSeen \<or> claims_behind_auth chain"
proof (induction name authSeen chain rule: claimErrors.induct)
  case (1 name authSeen)
  then show ?case by (simp add: claims_behind_auth_def)
next
  case (2 name authSeen m ms)
  then show ?case
    by (cases "rm_Config m")
      (auto simp: claims_behind_auth_Cons by_claim_def well_typed_def Let_def)
qed

lemma chain_Nil [no_error]:
  "\<forall>m \<in> set chain. well_typed m \<Longrightarrow>
   corsErrors name 0 0 chain @ claimErrors name False chain = [] \<longleftrightarrow> chain_ok chain"
  by (simp add: chain_ok_def corsErrors_Nil claimErrors_Nil)

lemma routeErrors_Nil [no_error]:
  assumes "\<forall>m \<in> set globals. well_typed m"
  shows "routeErrors lib re cfg globals route = [] \<longleftrightarrow> route_ok lib re cfg globals route"
proof -
  let ?skips = "concat (map (\<lambda>name. if name \<in> set (map mr_Ref (Middlewares cfg)) then []
      else [SkipNotGlobal (RouteName route) name]) (SkipMiddlewares route))"
  have skips: "?skips = [] \<longleftrightarrow> set (SkipMiddlewares route) \<subseteq> mr_Ref ` set (Middlewares cfg)" by auto
  show ?thesis
  proof (cases "ResolveMiddlewares lib (RouteMiddlewares route) (map_of (MiddlewareDefinitions cfg))")
    case (Inl e)
    then show ?thesis by (simp add: routeErrors_def route_ok_def)
  next
    case (Inr rs)
    let ?chain = "effectiveChain globals route rs"
    have typed: "\<forall>m \<in> set rs. well_typed m" using ResolveMiddlewares_ok [OF Inr] by (simp add: list_all_iff)
    with assms have "\<forall>m \<in> set ?chain. well_typed m" by (auto simp: effectiveChain_def)
    from chain_Nil [OF this, of "RouteName route"] validateResolvedMiddlewares_Nil [OF typed] matchErrors_Nil [of re route]
    show ?thesis
      unfolding routeErrors_def route_ok_def Inr sum.case Let_def append_is_Nil_conv skips by auto
  qed
qed

lemma semanticErrors_valid: "semanticErrors lib re cfg = [] \<longleftrightarrow> valid_config lib re cfg"
proof (cases "ResolveMiddlewares lib (Middlewares cfg) (map_of (MiddlewareDefinitions cfg))")
  case (Inl e)
  then show ?thesis by (simp add: semanticErrors_def valid_config_def)
next
  case (Inr globals)
  then have typed: "\<forall>m \<in> set globals. well_typed m"
    using ResolveMiddlewares_ok [OF Inr] by (simp add: list_all_iff)
  have "concat (map (routeErrors lib re cfg globals) (Routes cfg)) = [] \<longleftrightarrow>
      (\<forall>route \<in> set (Routes cfg). route_ok lib re cfg globals route)"
    using routeErrors_Nil [OF typed] by auto
  with Inr secrets_Nil [of cfg] validateResolvedMiddlewares_Nil [OF typed] duplicateErrors_Nil [of "Routes cfg" "{}"]
  show ?thesis by (auto simp: semanticErrors_def valid_config_def Let_def)
qed

lemma valid_config_compiles:
  assumes "valid_config lib re cfg" and "re_compiles re []"
  shows "router_New re (Routes cfg) handlers \<noteq> None"
proof -
  have "config_compiles re rc" if "rc \<in> set (Routes cfg)" for rc
    using assms that by (auto simp: valid_config_def route_ok_def config_compiles_def)
  then show ?thesis by (auto simp: router_New_None_iff)
qed

lemma orDefault_idem [simp]: "d \<noteq> 0 \<Longrightarrow> orDefault d (orDefault d x) = orDefault d x"
  and orDefault_nonzero [simp]: "d \<noteq> 0 \<Longrightarrow> orDefault d x \<noteq> 0"
  by (simp_all add: orDefault_def)

lemma rateLimitDefaults_idem: "rateLimitDefaults (rateLimitDefaults g) = rateLimitDefaults g"
  by (cases "Redis g") (simp_all add: rateLimitDefaults_def redisDefaults_def Let_def)

section \<open>Properties\<close>

text \<open>C11: The checks of \<open>semanticErrors\<close>, with their order, early \<open>continue\<close>s, counters and sets, accept
  exactly the valid configurations: distinct route names, no placeholder left in a secret, every
  reference resolvable, positive limits, known providers without duplicates and \<open>none\<close> only alone,
  CORS only at the head of each effective chain, limits by claim only behind authentication, and
  patterns that compile.\<close>

theorem semanticErrors_iff_valid: "semanticErrors lib re cfg = [] \<longleftrightarrow> valid_config lib re cfg"
  by (rule semanticErrors_valid)

text \<open>Defaults fill what is missing and nothing else: applying them again changes nothing, the
  timeouts, sizes and names that the server needs are no longer zero.\<close>

theorem applyDefaults_idempotent:
  "applyDefaults (applyDefaults cfg) = applyDefaults cfg \<and>
   ServerPort (Server (applyDefaults cfg)) \<noteq> 0 \<and> ReadTimeout (Server (applyDefaults cfg)) \<noteq> 0 \<and>
   MaxHeaderBytes (Server (applyDefaults cfg)) \<noteq> 0 \<and> Backend (RateLimit (applyDefaults cfg)) \<noteq> [] \<and>
   0 \<notin> (\<lambda>rc. UpstreamTimeout (Upstream rc)) ` set (Routes (applyDefaults cfg))"
proof -
  have "serverDefaults (serverDefaults s) = serverDefaults s" for s by (simp add: serverDefaults_def)
  moreover have "routeDefaults (routeDefaults rc) = routeDefaults rc" for rc by (simp add: routeDefaults_def)
  ultimately have "applyDefaults (applyDefaults cfg) = applyDefaults cfg"
    by (simp add: applyDefaults_def rateLimitDefaults_idem comp_def)
  moreover have "0 \<notin> (\<lambda>rc. UpstreamTimeout (Upstream rc)) ` set (Routes (applyDefaults cfg))"
    by (auto simp: applyDefaults_def routeDefaults_def orDefault_def split: if_splits)
  ultimately show ?thesis by (simp add: applyDefaults_def serverDefaults_def rateLimitDefaults_def Let_def)
qed

text \<open>The configuration of the examples is valid.\<close>

lemma demo_gateway_valid: "semanticErrors demo_yaml literal_regexp (applyDefaults demo_gateway) = []"
  by code_simp

end
