(* ===== verification/Float64.thy ===== *)
theory Float64
  imports Prelude
begin

text \<open>
  Go's \<open>float64\<close>: a value is a rational, and the result of an operation is the exact result
  rounded to 53 significant bits, to nearest with ties to even, as IEEE 754 prescribes.
  Overflow to infinity and the loss of precision below $2^{-1022}$ are not modelled: the
  limiter's values stay between $10^{-18}$ and $2^{63}$.
\<close>

section \<open>Rounding\<close>

definition round_half_even :: "rat \<Rightarrow> int" where
  "round_half_even y =
     (let f = \<lfloor>y\<rfloor>; d = y - of_int f
      in if d < 1 / 2 then f else if 1 / 2 < d then f + 1 else if even f then f else f + 1)"

fun nlog2 :: "nat \<Rightarrow> nat" where
  "nlog2 n = (if n \<le> 1 then 0 else Suc (nlog2 (n div 2)))"

declare nlog2.simps [simp del]

text \<open>The exponent of a positive rational: the largest \<open>e\<close> with \<open>2 powi e \<le> x\<close>.\<close>

definition ilog2 :: "rat \<Rightarrow> int" where
  "ilog2 x =
     (if 1 \<le> x then int (nlog2 (nat \<lfloor>x\<rfloor>))
      else (let k = nlog2 (nat \<lfloor>1 / x\<rfloor>)
            in if 1 / x = 2 ^ k then - int k else - int k - 1))"

definition ulp :: "rat \<Rightarrow> rat" where
  "ulp x = 2 powi (ilog2 x - 52)"

definition fl_pos :: "rat \<Rightarrow> rat" where
  "fl_pos x = ulp x * of_int (round_half_even (x / ulp x))"

definition fl :: "rat \<Rightarrow> rat" where
  "fl x = (if x = 0 then 0 else if x < 0 then - fl_pos (- x) else fl_pos x)"

text \<open>The non-negative values of the type.\<close>

definition representable :: "rat \<Rightarrow> bool" where
  "representable x \<longleftrightarrow> (\<exists>m e. 0 \<le> m \<and> m < 2 ^ 53 \<and> x = of_int m * 2 powi e)"

section \<open>Rounding to an integer\<close>

lemma round_half_even_bounds: "\<lfloor>y\<rfloor> \<le> round_half_even y \<and> round_half_even y \<le> \<lfloor>y\<rfloor> + 1"
  by (simp add: round_half_even_def Let_def)

lemma round_half_even_of_int [simp]: "round_half_even (of_int n) = n"
  by (simp add: round_half_even_def)

lemma round_half_even_mono: "x \<le> y \<Longrightarrow> round_half_even x \<le> round_half_even y"
proof -
  assume xy: "x \<le> y"
  show ?thesis
  proof (cases "\<lfloor>x\<rfloor> = \<lfloor>y\<rfloor>")
    case True
    with xy show ?thesis by (auto simp: round_half_even_def Let_def)
  next
    case False
    with floor_mono [OF xy] have "\<lfloor>x\<rfloor> + 1 \<le> \<lfloor>y\<rfloor>" by simp
    with round_half_even_bounds [of x] round_half_even_bounds [of y] show ?thesis by linarith
  qed
qed

section \<open>The exponent\<close>

lemma nlog2_bounds: "1 \<le> n \<Longrightarrow> 2 ^ nlog2 n \<le> n \<and> n < 2 ^ Suc (nlog2 n)"
proof (induction n rule: nlog2.induct)
  case (1 n)
  show ?case
  proof (cases "n \<le> 1")
    case True
    with 1 have "n = 1" by simp
    then show ?thesis using nlog2.simps [of 1] by simp
  next
    case False
    then have "1 \<le> n div 2" by auto
    with 1 False have "2 ^ nlog2 (n div 2) \<le> n div 2" "n div 2 < 2 ^ Suc (nlog2 (n div 2))"
      by auto
    with False show ?thesis by (auto simp: nlog2.simps [of n])
  qed
qed

lemma ilog2_ge1:
  fixes x :: rat
  assumes "1 \<le> x"
  shows "2 ^ nlog2 (nat \<lfloor>x\<rfloor>) \<le> x \<and> x < 2 ^ Suc (nlog2 (nat \<lfloor>x\<rfloor>))"
proof -
  let ?n = "nat \<lfloor>x\<rfloor>"
  have f: "1 \<le> \<lfloor>x\<rfloor>" using assms by (simp add: le_floor_iff)
  then have "of_nat ?n = rat_of_int \<lfloor>x\<rfloor>" by (simp add: of_nat_nat)
  then have n: "of_nat ?n \<le> x" "x < of_nat ?n + 1" by linarith+
  from f have n1: "1 \<le> ?n" by linarith
  from nlog2_bounds [OF n1] have "(2::nat) ^ nlog2 ?n \<le> ?n" "Suc ?n \<le> 2 ^ Suc (nlog2 ?n)" by auto
  then have "rat_of_nat (2 ^ nlog2 ?n) \<le> of_nat ?n" "rat_of_nat (Suc ?n) \<le> of_nat (2 ^ Suc (nlog2 ?n))"
    by (simp_all only: of_nat_le_iff)
  with n show ?thesis by (simp only: of_nat_power of_nat_Suc of_nat_numeral) linarith
qed

lemma ilog2_bounds:
  assumes "0 < x"
  shows "2 powi ilog2 x \<le> x" and "x < 2 powi (ilog2 x + 1)"
proof -
  have "2 powi ilog2 x \<le> x \<and> x < 2 powi (ilog2 x + 1)"
  proof (cases "1 \<le> x")
    case True
    with ilog2_ge1 [OF True] show ?thesis by (simp add: ilog2_def power_int_add)
  next
    case False
    let ?k = "nlog2 (nat \<lfloor>1 / x\<rfloor>)"
    have "1 \<le> 1 / x" using assms False by (simp add: field_simps)
    from ilog2_ge1 [OF this] have k: "2 ^ ?k \<le> 1 / x" "1 / x < 2 ^ Suc ?k" by auto
    show ?thesis
    proof (cases "1 / x = 2 ^ ?k")
      case eq: True
      then have "x = 1 / 2 ^ ?k" using assms by (simp add: field_simps)
      with False eq assms show ?thesis
        by (simp add: ilog2_def Let_def power_int_minus power_int_diff field_simps)
    next
      case neq: False
      with k(1) have "2 ^ ?k < 1 / x" by simp
      with k(2) assms have "1 / 2 ^ Suc ?k < x" "x < 1 / 2 ^ ?k" by (simp_all add: field_simps)
      with False neq show ?thesis
        by (simp add: ilog2_def Let_def power_int_minus power_int_add power_int_diff field_simps)
    qed
  qed
  then show "2 powi ilog2 x \<le> x" and "x < 2 powi (ilog2 x + 1)" by auto
qed

lemma powi2_pos [simp]: "0 < (2 :: rat) powi k"
  by (simp add: zero_less_power_int)

lemma powi2_less_imp: "(2 :: rat) powi i < 2 powi j \<Longrightarrow> i < j"
  using power_int_increasing [of j i "2 :: rat"] by force

lemma powi2_mono: "i \<le> j \<Longrightarrow> (2 :: rat) powi i \<le> 2 powi j"
  by (rule power_int_increasing) auto

lemma ilog2_mono:
  assumes "0 < x" and "x \<le> y"
  shows "ilog2 x \<le> ilog2 y"
proof -
  have "2 powi ilog2 x < (2 :: rat) powi (ilog2 y + 1)"
    using assms ilog2_bounds [of x] ilog2_bounds [of y] by linarith
  from powi2_less_imp [OF this] show ?thesis by simp
qed

section \<open>Rounding to 53 bits\<close>

lemma ulp_pos [simp]: "0 < ulp x"
  by (simp add: ulp_def)

lemma ulp_neq_0 [simp]: "ulp x \<noteq> 0"
  using ulp_pos [of x] by linarith

lemma powi2_split: "(2 :: rat) powi (e + int n) = 2 powi e * 2 ^ n"
  by (simp add: power_int_add)

lemma binade_ulp:
  "2 powi ilog2 x = ulp x * 2 ^ 52" "2 powi (ilog2 x + 1) = ulp x * 2 ^ 53"
  using powi2_split [of "ilog2 x - 52" 52] powi2_split [of "ilog2 x - 52" 53]
  by (simp_all add: ulp_def add.commute)

lemma scaled_bounds:
  assumes "0 < x"
  shows "2 ^ 52 \<le> x / ulp x" and "x / ulp x < 2 ^ 53"
proof -
  show "2 ^ 52 \<le> x / ulp x" "x / ulp x < 2 ^ 53"
    using ilog2_bounds [OF assms] by (simp_all add: binade_ulp pos_le_divide_eq pos_divide_less_eq mult.commute)
qed

text \<open>A positive value and its rounding lie between the same two powers of two.\<close>

lemma fl_pos_binade:
  assumes "0 < x"
  shows "2 powi ilog2 x \<le> fl_pos x" and "fl_pos x \<le> 2 powi (ilog2 x + 1)"
proof -
  let ?r = "round_half_even (x / ulp x)"
  have r: "2 ^ 52 \<le> ?r" "?r \<le> 2 ^ 53"
    using round_half_even_mono [of "of_int (2 ^ 52)" "x / ulp x"]
      round_half_even_mono [of "x / ulp x" "of_int (2 ^ 53)"] scaled_bounds [OF assms]
    by (simp_all only: round_half_even_of_int) simp_all
  from r have "(of_int (2 ^ 52) :: rat) \<le> of_int ?r" "(of_int ?r :: rat) \<le> of_int (2 ^ 53)"
    by (simp_all only: of_int_le_iff)
  then show "2 powi ilog2 x \<le> fl_pos x" "fl_pos x \<le> 2 powi (ilog2 x + 1)"
    by (simp_all add: fl_pos_def binade_ulp)
qed

lemma fl_pos_mono:
  assumes "0 < x" and "x \<le> y"
  shows "fl_pos x \<le> fl_pos y"
proof (cases "ilog2 x = ilog2 y")
  case True
  then have "ulp x = ulp y" by (simp add: ulp_def)
  moreover have "x / ulp y \<le> y / ulp y" using assms ulp_pos [of y] by (simp add: divide_right_mono less_imp_le)
  ultimately show ?thesis using round_half_even_mono by (simp add: fl_pos_def)
next
  case False
  with ilog2_mono [OF assms] have "ilog2 x + 1 \<le> ilog2 y" by simp
  from powi2_mono [OF this] fl_pos_binade [of x] fl_pos_binade [of y] assms show ?thesis by linarith
qed

lemma fl_pos_pos: "0 < x \<Longrightarrow> 0 < fl_pos x"
  using fl_pos_binade [of x] powi2_pos [of "ilog2 x"] by linarith

lemma fl_0 [simp]: "fl 0 = 0"
  by (simp add: fl_def)

lemma fl_nonneg [simp]: "0 \<le> x \<Longrightarrow> 0 \<le> fl x"
  using fl_pos_pos [of x] by (auto simp: fl_def)

lemma fl_gt_0 [simp]: "0 < x \<Longrightarrow> 0 < fl x"
  using fl_pos_pos [of x] by (auto simp: fl_def)

lemma fl_mono: "x \<le> y \<Longrightarrow> fl x \<le> fl y"
proof (cases "0 \<le> x \<or> y \<le> 0")
  case True
  assume "x \<le> y"
  with True show ?thesis
    using fl_pos_mono [of x y] fl_pos_mono [of "- y" "- x"] fl_pos_pos [of y] fl_pos_pos [of "- x"]
    by (auto simp: fl_def)
next
  case False
  then show ?thesis using fl_pos_pos [of y] fl_pos_pos [of "- x"] by (simp add: fl_def)
qed

section \<open>Representable values\<close>

lemma representableI: "0 \<le> m \<Longrightarrow> m < 2 ^ 53 \<Longrightarrow> x = of_int m * 2 powi e \<Longrightarrow> representable x"
  unfolding representable_def by blast

lemma fl_representable:
  assumes "representable x"
  shows "fl x = x"
proof -
  from assms obtain m e where m: "0 \<le> m" "m < 2 ^ 53" and x: "x = of_int m * 2 powi e"
    unfolding representable_def by blast
  show ?thesis
  proof (cases "m = 0")
    case True
    with x show ?thesis by simp
  next
    case False
    with m x have pos: "0 < x" by simp
    have "(of_int m :: rat) < of_int (2 ^ 53)" using m(2) by (simp only: of_int_less_iff)
    then have "x < 2 powi (e + int 53)" unfolding powi2_split by (simp add: x)
    with ilog2_bounds(1) [OF pos] have "ilog2 x < e + int 53"
      by (intro powi2_less_imp) linarith
    then obtain n where n: "e = ilog2 x - 52 + int n"
      using zle_iff_zadd [of "ilog2 x - 52" e] by auto
    then have "2 powi e = ulp x * 2 ^ n"
      using powi2_split [of "ilog2 x - 52" n] by (simp only: ulp_def)
    then have "of_int m * 2 powi e = of_int (m * 2 ^ n) * ulp x" by simp
    with x have "x = of_int (m * 2 ^ n) * ulp x" by (rule trans)
    then have "x / ulp x = of_int (m * 2 ^ n)" by (metis ulp_neq_0 nonzero_eq_divide_eq)
    then have "fl_pos x = ulp x * (x / ulp x)"
      unfolding fl_pos_def by (simp only: round_half_even_of_int)
    with pos show ?thesis by (simp add: fl_def)
  qed
qed

lemma representable_fl: "0 \<le> x \<Longrightarrow> representable (fl x)"
proof (cases "x = 0")
  case True
  then show ?thesis by (intro representableI [of 0 _ 0]) simp_all
next
  case False
  assume "0 \<le> x"
  with False have pos: "0 < x" by simp
  let ?r = "round_half_even (x / ulp x)"
  have r: "0 \<le> ?r" "?r \<le> 2 ^ 53"
    using round_half_even_mono [of "of_int 0" "x / ulp x"]
      round_half_even_mono [of "x / ulp x" "of_int (2 ^ 53)"] scaled_bounds [OF pos]
    by (simp_all only: round_half_even_of_int) simp_all
  have flx: "fl x = of_int ?r * 2 powi (ilog2 x - 52)"
    using pos by (simp add: fl_def fl_pos_def ulp_def mult.commute)
  show ?thesis
  proof (cases "?r = 2 ^ 53")
    case True
    with flx have "fl x = of_int 1 * 2 powi (ilog2 x + 1)"
      using binade_ulp(2) [of x] by (simp add: ulp_def)
    then show ?thesis by (rule representableI [rotated 2]) simp_all
  next
    case False
    with r have "?r < 2 ^ 53" by linarith
    from representableI [OF r(1) this flx] show ?thesis .
  qed
qed

lemma representable_int: "0 \<le> n \<Longrightarrow> n \<le> 2 ^ 53 \<Longrightarrow> representable (of_int n)"
proof (cases "n = 2 ^ 53")
  case True
  then have "of_int n = rat_of_int 1 * 2 powi (int 53)" by (simp only: power_int_of_nat) simp
  then show ?thesis by (rule representableI [rotated 2]) simp_all
next
  case False
  assume "0 \<le> n" "n \<le> 2 ^ 53"
  with False have "n < 2 ^ 53" by simp
  moreover have "of_int n = rat_of_int n * 2 powi 0" by simp
  ultimately show ?thesis using \<open>0 \<le> n\<close> by (intro representableI)
qed

lemma fl_int [simp]: "0 \<le> n \<Longrightarrow> n \<le> 2 ^ 53 \<Longrightarrow> fl (of_int n) = of_int n"
  by (rule fl_representable [OF representable_int])

lemma fl_fl: "0 \<le> x \<Longrightarrow> fl (fl x) = fl x"
  by (rule fl_representable [OF representable_fl])

text \<open>Taking one from a value of at least one is exact as long as the unit fits the mantissa.\<close>

lemma representable_dec:
  assumes "representable x" and "1 \<le> x" and "x \<le> 2 ^ 53"
  shows "representable (x - 1)"
proof -
  from assms(1) obtain m e where m: "0 \<le> m" "m < 2 ^ 53" and x: "x = of_int m * 2 powi e"
    unfolding representable_def by blast
  show ?thesis
  proof (cases "e \<le> 0")
    case True
    then obtain k where e: "e = - int k" by (metis nonneg_int_cases neg_0_le_iff_le minus_minus)
    have d: "x = of_int m / 2 ^ k" by (simp add: x e power_int_minus divide_simps)
    then have "of_int (2 ^ k) \<le> rat_of_int m"
      using assms(2) by (simp only: of_int_power of_int_numeral) (simp add: pos_le_divide_eq)
    then have "2 ^ k \<le> m" by (simp only: of_int_le_iff)
    moreover have "x - 1 = of_int (m - 2 ^ k) * 2 powi e"
      by (simp add: d e power_int_minus field_simps)
    moreover have "m - 2 ^ k < 2 ^ 53" using m(2) zero_less_power [of "2 :: int" k] by linarith
    ultimately show ?thesis by (intro representableI [of "m - 2 ^ k" _ e]) simp_all
  next
    case False
    then obtain k where e: "e = int k" by (metis nonneg_int_cases nle_le)
    have "x = of_int (m * 2 ^ k)" by (simp add: x e)
    then have "x - 1 = of_int (m * 2 ^ k - 1)" "(1::rat) \<le> of_int (m * 2 ^ k)"
      "rat_of_int (m * 2 ^ k) \<le> of_int (2 ^ 53)" using assms(2,3) by simp_all
    then show ?thesis using representable_int [of "m * 2 ^ k - 1"]
      by (simp only: of_int_le_iff of_int_1_le_iff)
  qed
qed

lemma fl_dec: "representable x \<Longrightarrow> 1 \<le> x \<Longrightarrow> x \<le> 2 ^ 53 \<Longrightarrow> fl (x - 1) = x - 1"
  by (rule fl_representable [OF representable_dec])

section \<open>The rounding error\<close>

lemma round_half_even_error: "\<bar>of_int (round_half_even y) - y\<bar> \<le> 1 / 2"
proof -
  have "of_int \<lfloor>y\<rfloor> \<le> y" "y < of_int \<lfloor>y\<rfloor> + 1" by linarith+
  then show ?thesis unfolding round_half_even_def Let_def abs_if by (auto split: if_splits simp: not_less) linarith+
qed

lemma fl_error:
  assumes "0 \<le> x"
  shows "\<bar>fl x - x\<bar> \<le> x / 2 ^ 53"
proof (cases "x = 0")
  case False
  with assms have pos: "0 < x" by simp
  let ?r = "round_half_even (x / ulp x)"
  have "fl x - x = ulp x * (of_int ?r - x / ulp x)"
    using pos ulp_pos [of x] by (simp add: fl_def fl_pos_def right_diff_distrib)
  then have "\<bar>fl x - x\<bar> = ulp x * \<bar>of_int ?r - x / ulp x\<bar>"
    by (simp only: abs_mult abs_of_pos [OF ulp_pos])
  also have "\<dots> \<le> ulp x * (1 / 2)"
    using ulp_pos [of x] by (intro mult_left_mono round_half_even_error less_imp_le)
  also have "\<dots> \<le> x / 2 ^ 53"
    using ilog2_bounds(1) [OF pos] binade_ulp(1) [of x] by simp
  finally show ?thesis .
qed simp

lemma fl_upper: "0 \<le> x \<Longrightarrow> fl x \<le> x * (1 + 1 / 2 ^ 53)"
  using fl_error [of x] by (simp add: abs_if field_simps split: if_splits)

lemma fl_lower: "0 \<le> x \<Longrightarrow> x * (1 - 1 / 2 ^ 53) \<le> fl x"
  using fl_error [of x] by (simp add: abs_if field_simps split: if_splits)

end
