(* ===== verification/Limiter.thy ===== *)
theory Limiter
  imports Prelude
begin

text \<open>
  The interface \<open>Limiter\<close> of \<open>internal/middleware/ratelimit/ratelimit.go\<close>. A call gets the
  clock reading, the key, the limit, the window, the algorithm and the store; it answers
  \<open>(allowed, remaining, resetAt)\<close> or, for the error result, \<open>None\<close>. What the middleware relies
  on is the locale \<open>limiter\<close>: a refusal leaves nothing, and the answer for a key is a function
  of what the store holds for that key, which calls for other keys do not change.
\<close>

type_synonym answer = "(bool \<times> int \<times> int) option"
type_synonym 's allow = "int \<Rightarrow> string \<Rightarrow> int \<Rightarrow> int \<Rightarrow> string \<Rightarrow> 's \<Rightarrow> answer \<times> 's"

record limiter_call =
  lc_now :: int
  lc_key :: string
  lc_limit :: int
  lc_window :: int
  lc_algorithm :: string

text \<open>The answers of a sequence of calls to the calls for one key.\<close>

fun answers :: "'s allow \<Rightarrow> string \<Rightarrow> limiter_call list \<Rightarrow> 's \<Rightarrow> answer list" where
  "answers allow key [] s = []"
| "answers allow key (c # cs) s =
     (case allow (lc_now c) (lc_key c) (lc_limit c) (lc_window c) (lc_algorithm c) s of
        (a, s') \<Rightarrow> (if lc_key c = key then [a] else []) @ answers allow key cs s')"

locale limiter =
  fixes allow :: "'s allow" and view :: "'s \<Rightarrow> string \<Rightarrow> 'v" and inv :: "'s \<Rightarrow> bool"
  assumes inv_allow: "inv s \<Longrightarrow> inv (snd (allow now k l w a s))"
    and refused: "allow now k l w a s = (Some (False, rest, reset), s') \<Longrightarrow> rest = 0"
    and frame: "inv s \<Longrightarrow> k \<noteq> k' \<Longrightarrow> view (snd (allow now k l w a s)) k' = view s k'"
    and local_answer: "inv s \<Longrightarrow> inv t \<Longrightarrow> view s k = view t k \<Longrightarrow>
      fst (allow now k l w a s) = fst (allow now k l w a t)"
    and local_view: "inv s \<Longrightarrow> inv t \<Longrightarrow> view s k = view t k \<Longrightarrow>
      view (snd (allow now k l w a s)) k = view (snd (allow now k l w a t)) k"
begin

lemma answers_isolated_from:
  "inv s \<Longrightarrow> inv t \<Longrightarrow> view s key = view t key \<Longrightarrow>
    answers allow key cs s = answers allow key (filter (\<lambda>c. lc_key c = key) cs) t"
proof (induction cs arbitrary: s t)
  case (Cons c cs)
  let ?a = "allow (lc_now c) (lc_key c) (lc_limit c) (lc_window c) (lc_algorithm c)"
  show ?case
  proof (cases "lc_key c = key")
    case True
    then have "fst (?a s) = fst (?a t)" "view (snd (?a s)) key = view (snd (?a t)) key"
      using local_answer [OF Cons.prems] local_view [OF Cons.prems] by (simp_all only:)
    with Cons.IH [OF inv_allow inv_allow, OF Cons.prems(1,2)] True show ?thesis
      by (simp add: case_prod_unfold)
  next
    case False
    then have "view (snd (?a s)) key = view t key"
      using frame [OF Cons.prems(1)] Cons.prems(3) by simp
    with Cons.IH [OF inv_allow, OF Cons.prems(1,2)] False show ?thesis
      by (simp add: case_prod_unfold)
  qed
qed simp

text \<open>The answers to one key are those of a limiter that only ever sees this key.\<close>

lemma answers_isolated:
  "inv s \<Longrightarrow> answers allow key cs s = answers allow key (filter (\<lambda>c. lc_key c = key) cs) s"
  by (rule answers_isolated_from) auto

end

end
