(* ===== verification/MemoryLimiter.thy ===== *)
theory MemoryLimiter
  imports Float64 Limiter
begin

text \<open>
  The in-memory token bucket limiter, \<open>internal/middleware/ratelimit/memory.go\<close>. The
  \<open>sync.Map\<close> of buckets is a map from keys to buckets, \<open>Allow\<close> and \<open>evictStale\<close> are functions
  of that map and of the clock reading, and the float64 arithmetic on tokens is rounded as in
  theory \<open>Float64\<close>. A run of the limiter is a sequence of calls and clean-up sweeps.
\<close>

section \<open>Buckets\<close>

record bucket =
  tokens :: rat
  maxTokens :: rat
  refillRate :: rat
  lastRefill :: int
  lastAccess :: int

type_synonym MemoryLimiter = "string \<rightharpoonup> bucket"

definition evictionTTL :: int where
  "evictionTTL = 5 * 60 * second_ns"

text \<open>\<open>Duration.Seconds\<close>: whole seconds plus the rest divided by $10^9$, in float64.\<close>

definition Seconds :: "int \<Rightarrow> rat" where
  "Seconds d = fl (fl (of_int (quot d second_ns)) + fl (fl (of_int (rem d second_ns)) / 10 ^ 9))"

definition LoadOrStore :: "string \<Rightarrow> bucket \<Rightarrow> MemoryLimiter \<Rightarrow> bucket \<times> MemoryLimiter" where
  "LoadOrStore key b m = (case m key of Some b' \<Rightarrow> (b', m) | None \<Rightarrow> (b, m(key \<mapsto> b)))"

definition newBucket :: "int \<Rightarrow> int \<Rightarrow> int \<Rightarrow> bucket" where
  "newBucket now limit window =
     \<lparr>tokens = fl (of_int limit), maxTokens = fl (of_int limit),
      refillRate = fl (fl (of_int limit) / Seconds window), lastRefill = now, lastAccess = now\<rparr>"

text \<open>The refill of \<open>Allow\<close>: nothing unless time has passed, and never above \<open>maxTokens\<close>.\<close>

definition refill :: "int \<Rightarrow> bucket \<Rightarrow> bucket" where
  "refill now b =
     (let elapsed = Seconds (Sub now (lastRefill b))
      in if 0 < elapsed then
           (let t = fl (tokens b + fl (elapsed * refillRate b))
            in b\<lparr>tokens := (if maxTokens b < t then maxTokens b else t), lastRefill := now\<rparr>)
         else b)"

definition memory_Allow ::
  "int \<Rightarrow> string \<Rightarrow> int \<Rightarrow> int \<Rightarrow> MemoryLimiter \<Rightarrow> (bool \<times> int \<times> int) \<times> MemoryLimiter" where
  "memory_Allow now key limit window m =
     (let (b0, m1) = LoadOrStore key (newBucket now limit window) m;
          b1 = b0\<lparr>maxTokens := fl (of_int limit),
                  refillRate := fl (fl (of_int limit) / Seconds window)\<rparr>;
          b2 = (refill now b1)\<lparr>lastAccess := now\<rparr>;
          resetAt = now + window
      in if 1 \<le> tokens b2
         then (let b3 = b2\<lparr>tokens := fl (tokens b2 - 1)\<rparr>
               in ((True, \<lfloor>tokens b3\<rfloor>, resetAt), m1(key \<mapsto> b3)))
         else ((False, 0, resetAt), m1(key \<mapsto> b2)))"

definition evictStale :: "int \<Rightarrow> MemoryLimiter \<Rightarrow> MemoryLimiter" where
  "evictStale now m k =
     (case m k of
        None \<Rightarrow> None
      | Some b \<Rightarrow> if evictionTTL < Sub now (lastAccess b) then None else Some b)"

text \<open>The method as an implementation of the \<open>Limiter\<close> interface: it ignores the algorithm and
  never reports an error.\<close>

definition memory_limiter :: "MemoryLimiter allow" where
  "memory_limiter now key limit window algorithm m =
     (case memory_Allow now key limit window m of (a, m') \<Rightarrow> (Some a, m'))"

section \<open>Runs\<close>


datatype ml_event =
    Call (ev_at: int) string int int
  | Sweep (ev_at: int)

text \<open>The requests of \<open>key\<close> that a run lets through, and the limiter it leaves.\<close>

fun ml_run :: "string \<Rightarrow> ml_event list \<Rightarrow> MemoryLimiter \<Rightarrow> nat \<times> MemoryLimiter" where
  "ml_run key [] m = (0, m)"
| "ml_run key (Call t k limit window # evs) m =
     (case memory_Allow t k limit window m of
        ((allowed, _, _), m') \<Rightarrow>
          (case ml_run key evs m' of
             (n, m'') \<Rightarrow> ((if allowed \<and> k = key then Suc n else n), m'')))"
| "ml_run key (Sweep t # evs) m = ml_run key evs (evictStale t m)"

text \<open>Events in time order, from a time on; calls for \<open>key\<close> all with the same configuration.\<close>

fun in_order :: "int \<Rightarrow> ml_event list \<Rightarrow> bool" where
  "in_order t0 [] = True"
| "in_order t0 (e # evs) = (t0 \<le> ev_at e \<and> in_order (ev_at e) evs)"

definition configured :: "string \<Rightarrow> int \<Rightarrow> int \<Rightarrow> ml_event list \<Rightarrow> bool" where
  "configured key limit window evs =
     list_all (\<lambda>e. case e of Call _ k l w \<Rightarrow> (k = key \<longrightarrow> l = limit \<and> w = window) | Sweep _ \<Rightarrow> True) evs"

fun calls_of :: "string \<Rightarrow> ml_event list \<Rightarrow> nat" where
  "calls_of key [] = 0"
| "calls_of key (Call _ k _ _ # evs) = (if k = key then 1 else 0) + calls_of key evs"
| "calls_of key (Sweep _ # evs) = calls_of key evs"

text \<open>The state of one key: float64 tokens between zero and the limit.\<close>

definition bucket_ok :: "int \<Rightarrow> bucket \<Rightarrow> bool" where
  "bucket_ok limit b \<longleftrightarrow> representable (tokens b) \<and> 0 \<le> tokens b \<and> tokens b \<le> of_int limit"

text \<open>One rounding changes a value by a factor between these two.\<close>

definition fl_down :: rat where
  "fl_down = 1 - 1 / 2 ^ 53"

definition fl_up :: rat where
  "fl_up = 1 + 1 / 2 ^ 53"

text \<open>The tokens a span of time earns, as the code computes them.\<close>

definition credit :: "int \<Rightarrow> int \<Rightarrow> int \<Rightarrow> rat" where
  "credit limit window d = fl (Seconds d * fl (fl (of_int limit) / Seconds window))"

text \<open>The tokens a call at time \<open>now\<close> finds: the whole limit for a new key, otherwise what was
  left plus the credit of the time since, capped by the limit.\<close>

definition avail :: "int \<Rightarrow> string \<Rightarrow> int \<Rightarrow> int \<Rightarrow> MemoryLimiter \<Rightarrow> rat" where
  "avail now key limit window m =
     (case m key of
        None \<Rightarrow> of_int limit
      | Some b \<Rightarrow> min (of_int limit) (fl (tokens b + credit limit window (now - lastRefill b))))"

definition bucketAt :: "int \<Rightarrow> int \<Rightarrow> int \<Rightarrow> rat \<Rightarrow> bucket" where
  "bucketAt now limit window t =
     \<lparr>tokens = t, maxTokens = of_int limit, refillRate = fl (of_int limit / Seconds window),
      lastRefill = now, lastAccess = now\<rparr>"

text \<open>The bucket of a key is in order and was last touched at most 292 years before \<open>now\<close>.\<close>

definition timely :: "string \<Rightarrow> int \<Rightarrow> int \<Rightarrow> MemoryLimiter \<Rightarrow> bool" where
  "timely key now limit m \<longleftrightarrow>
     (case m key of
        None \<Rightarrow> True
      | Some b \<Rightarrow> lastRefill b \<le> now \<and> now - lastRefill b \<le> maxInt64 \<and>
          lastAccess b = lastRefill b \<and> bucket_ok limit b)"

text \<open>The exact share of the limit that a span of time earns, with the tolerance of the float64
  computation, and the tokens a key can count on at a time.\<close>

definition earned :: "int \<Rightarrow> int \<Rightarrow> int \<Rightarrow> rat" where
  "earned limit window d = of_int limit * of_int d / of_int window * (1 + 1 / 2 ^ 50)"

definition pot :: "int \<Rightarrow> string \<Rightarrow> int \<Rightarrow> int \<Rightarrow> MemoryLimiter \<Rightarrow> rat" where
  "pot now key limit window m =
     (case m key of
        None \<Rightarrow> of_int limit
      | Some b \<Rightarrow> tokens b + earned limit window (now - lastRefill b))"

text \<open>The bucket of a key is in order and was last touched between \<open>start\<close> and \<open>now\<close>.\<close>

definition since :: "int \<Rightarrow> string \<Rightarrow> int \<Rightarrow> int \<Rightarrow> MemoryLimiter \<Rightarrow> bool" where
  "since start key now limit m \<longleftrightarrow>
     (case m key of
        None \<Rightarrow> True
      | Some b \<Rightarrow> start \<le> lastRefill b \<and> lastRefill b \<le> now \<and> lastAccess b = lastRefill b \<and> bucket_ok limit b)"

section \<open>Bounds on float64 durations and credits\<close>

lemma down_up [simp]: "0 < fl_down" "fl_down \<le> 1" "1 \<le> fl_up" "0 < fl_up" "0 \<le> fl_down" "0 \<le> fl_up"
  by (simp_all add: fl_down_def fl_up_def)

lemma fl_nonneg_bounds:
  assumes "0 \<le> x" and "lo \<le> x" and "x \<le> hi"
  shows "lo * fl_down \<le> fl x" and "fl x \<le> hi * fl_up"
proof -
  have "lo * fl_down \<le> x * fl_down" "x * fl_up \<le> hi * fl_up"
    using assms by (intro mult_right_mono; simp)+
  with fl_lower [OF assms(1)] fl_upper [OF assms(1)]
  show "lo * fl_down \<le> fl x" "fl x \<le> hi * fl_up"
    unfolding fl_down_def fl_up_def by (blast intro: order_trans)+
qed

lemma Seconds_split:
  assumes "0 \<le> d" and "d \<le> maxInt64"
  shows "Seconds d = fl (of_int (d div 10 ^ 9) + fl (of_int (d mod 10 ^ 9) / 10 ^ 9))"
proof -
  have q: "quot d second_ns = d div 10 ^ 9" "rem d second_ns = d mod 10 ^ 9"
    using assms by (auto simp: quot_def rem_def sgn_if minus_mult_div_eq_mod)
  have "0 \<le> d div 10 ^ 9" "d div 10 ^ 9 \<le> 2 ^ 53" "d mod 10 ^ 9 \<le> 2 ^ 53"
    using assms pos_mod_bound [of "10 ^ 9" d] zdiv_mono1 [OF assms(2), of "10 ^ 9"]
    unfolding maxInt64_def by (simp_all add: pos_imp_zdiv_nonneg_iff)
  then show ?thesis
    unfolding Seconds_def q by (simp only: fl_int pos_mod_sign zero_less_power zero_less_numeral)
qed

lemma add_scaled:
  fixes s n f :: rat
  assumes "0 \<le> s" and "n * fl_down \<le> f" and "f \<le> n * fl_up"
  shows "(s + n) * fl_down \<le> s + f" and "s + f \<le> (s + n) * fl_up"
proof -
  have "s * fl_down \<le> s * 1" "s * 1 \<le> s * fl_up" using assms(1) by (intro mult_left_mono; simp)+
  with assms show "(s + n) * fl_down \<le> s + f" "s + f \<le> (s + n) * fl_up"
    by (simp_all add: distrib_right)
qed

lemma Seconds_bounds:
  assumes "0 \<le> d" and "d \<le> maxInt64"
  shows "of_int d / 10 ^ 9 * fl_down ^ 2 \<le> Seconds d"
    and "Seconds d \<le> of_int d / 10 ^ 9 * fl_up ^ 2"
proof -
  let ?s = "rat_of_int (d div 10 ^ 9)" and ?n = "rat_of_int (d mod 10 ^ 9) / 10 ^ 9"
  have s: "0 \<le> ?s" "0 \<le> ?n" using assms by (simp_all add: pos_imp_zdiv_nonneg_iff)
  have "rat_of_int d = of_int (d div 10 ^ 9 * 10 ^ 9 + d mod 10 ^ 9)" by simp
  then have d: "of_int d / 10 ^ 9 = ?s + ?n" by (simp only: of_int_add of_int_mult) simp
  note n = fl_nonneg_bounds [OF s(2) order_refl order_refl]
  have "0 \<le> ?s + fl ?n" using s by simp
  note fl_nonneg_bounds [OF this add_scaled [OF s(1) n]]
  then show "of_int d / 10 ^ 9 * fl_down ^ 2 \<le> Seconds d" "Seconds d \<le> of_int d / 10 ^ 9 * fl_up ^ 2"
    unfolding Seconds_split [OF assms] d power2_eq_square by (simp_all only: mult.assoc)
qed

lemma Seconds_pos: "0 < d \<Longrightarrow> d \<le> maxInt64 \<Longrightarrow> 0 < Seconds d"
proof -
  assume "0 < d" "d \<le> maxInt64"
  moreover from this have "0 < of_int d / 10 ^ 9 * fl_down ^ 2"
    by (intro mult_pos_pos divide_pos_pos zero_less_power) simp_all
  ultimately show ?thesis using Seconds_bounds(1) [of d] by linarith
qed

lemma Seconds_0 [simp]: "Seconds 0 = 0"
  by (simp add: Seconds_def quot_def rem_def)

lemma Seconds_nonneg: "0 \<le> d \<Longrightarrow> d \<le> maxInt64 \<Longrightarrow> 0 \<le> Seconds d"
  using Seconds_pos [of d] by (cases "d = 0") auto

lemma fl_limit: "1 \<le> limit \<Longrightarrow> limit \<le> 2 ^ 53 \<Longrightarrow> fl (of_int limit) = of_int limit"
  by (rule fl_int) simp_all

lemma scale_cancel:
  fixes a b c d p q :: rat
  assumes "0 < c" and "0 < d" and "0 < q" and "0 < p"
  shows "(a / d * p ^ 2) * (b / (c / d * q ^ 2) * p) * p = b * a / c * (p ^ 4 / q ^ 2)"
  using assms by (simp add: field_simps power2_eq_square power4_eq_xxxx)

lemma credit_bounds:
  assumes L: "1 \<le> limit" "limit \<le> 2 ^ 53" and W: "0 < window" "window \<le> maxInt64"
    and D: "0 \<le> d" "d \<le> maxInt64"
  shows "of_int limit * of_int d / of_int window * (fl_down ^ 4 / fl_up ^ 2) \<le> credit limit window d"
    and "credit limit window d \<le> of_int limit * of_int d / of_int window * (fl_up ^ 4 / fl_down ^ 2)"
proof -
  let ?w = "rat_of_int window / 10 ^ 9" and ?d = "rat_of_int d / 10 ^ 9" and ?L = "rat_of_int limit"
  have L0: "0 < ?L" and w0: "0 < ?w" and d0: "0 \<le> ?d" using L W D by simp_all
  have sw: "0 < Seconds window" and sd: "0 \<le> Seconds d"
    using W D by (simp_all add: Seconds_pos Seconds_nonneg)
  have q: "0 < ?w * fl_down ^ 2" "0 < ?w * fl_up ^ 2" using w0 by (intro mult_pos_pos zero_less_power down_up; simp)+
  have "?L / (?w * fl_up ^ 2) \<le> ?L / Seconds window" "?L / Seconds window \<le> ?L / (?w * fl_down ^ 2)"
    using Seconds_bounds [OF less_imp_le [OF W(1)] W(2)] less_imp_le [OF L0] mult_pos_pos [OF sw q(1)]
      mult_pos_pos [OF q(2) sw] by (blast intro: divide_left_mono)+
  note r = fl_nonneg_bounds [OF _ this]
  have rate: "?L / (?w * fl_up ^ 2) * fl_down \<le> fl (?L / Seconds window)"
    "fl (?L / Seconds window) \<le> ?L / (?w * fl_down ^ 2) * fl_up"
    using r L0 sw by (simp_all add: less_imp_le)
  have lo0: "0 \<le> ?L / (?w * fl_up ^ 2) * fl_down" "0 \<le> ?d * fl_down ^ 2"
    using L0 W(1) D(1) by (intro mult_nonneg_nonneg divide_nonneg_nonneg zero_le_power; simp)+
  have rate0: "0 \<le> fl (?L / Seconds window)" using L0 sw by (simp add: less_imp_le)
  have "(?d * fl_down ^ 2) * (?L / (?w * fl_up ^ 2) * fl_down) \<le> Seconds d * fl (?L / Seconds window)"
    "Seconds d * fl (?L / Seconds window) \<le> (?d * fl_up ^ 2) * (?L / (?w * fl_down ^ 2) * fl_up)"
    using mult_mono [OF Seconds_bounds(1) [OF D] rate(1) sd lo0(1)]
      mult_mono [OF Seconds_bounds(2) [OF D] rate(2) order_trans [OF sd Seconds_bounds(2) [OF D]] rate0]
    by blast+
  from fl_nonneg_bounds [OF _ this] sd rate0
  have "(?d * fl_down ^ 2) * (?L / (?w * fl_up ^ 2) * fl_down) * fl_down \<le> credit limit window d"
    "credit limit window d \<le> (?d * fl_up ^ 2) * (?L / (?w * fl_down ^ 2) * fl_up) * fl_up"
    by (simp_all add: credit_def fl_limit [OF L])
  then show "?L * of_int d / of_int window * (fl_down ^ 4 / fl_up ^ 2) \<le> credit limit window d"
    "credit limit window d \<le> ?L * of_int d / of_int window * (fl_up ^ 4 / fl_down ^ 2)"
    using W(1) by (simp_all only: scale_cancel [OF _ _ down_up(4,1)] scale_cancel [OF _ _ down_up(1,4)]
        of_int_0_less_iff zero_less_power zero_less_numeral)
qed

lemma factor_bounds: "1 - 1 / 2 ^ 50 \<le> fl_down ^ 4 / fl_up ^ 2" "fl_up ^ 4 / fl_down ^ 2 \<le> 1 + 1 / 2 ^ 50"
  by (simp_all add: fl_down_def fl_up_def power_divide)

text \<open>The credit of a span is the exact share of the limit, up to a relative error of $2^{-50}$.\<close>

lemma credit_approx:
  assumes "1 \<le> limit" "limit \<le> 2 ^ 53" "0 < window" "window \<le> maxInt64" "0 \<le> d" "d \<le> maxInt64"
  shows "of_int limit * of_int d / of_int window * (1 - 1 / 2 ^ 50) \<le> credit limit window d"
    and "credit limit window d \<le> of_int limit * of_int d / of_int window * (1 + 1 / 2 ^ 50)"
proof -
  have "0 \<le> rat_of_int limit * of_int d / of_int window" using assms by simp
  from mult_left_mono [OF factor_bounds(1) this] mult_left_mono [OF factor_bounds(2) this]
    credit_bounds [OF assms]
  show "of_int limit * of_int d / of_int window * (1 - 1 / 2 ^ 50) \<le> credit limit window d"
    "credit limit window d \<le> of_int limit * of_int d / of_int window * (1 + 1 / 2 ^ 50)"
    by (blast intro: order_trans)+
qed

section \<open>One call\<close>

lemma Sub_eq: "u \<le> t \<Longrightarrow> t - u \<le> maxInt64 \<Longrightarrow> Sub t u = t - u"
  by (simp add: Sub_def minInt64_def)

lemma refill_eq:
  assumes "lastRefill b \<le> now" and "now - lastRefill b \<le> maxInt64" and "representable (tokens b)"
    and "tokens b \<le> maxTokens b"
  shows "refill now b = b\<lparr>tokens := min (maxTokens b)
     (fl (tokens b + fl (Seconds (now - lastRefill b) * refillRate b))), lastRefill := now\<rparr>"
proof (cases "now = lastRefill b")
  case True
  with assms(3,4) show ?thesis by (simp add: refill_def Sub_eq maxInt64_def fl_representable)
next
  case False
  with assms Seconds_pos [of "now - lastRefill b"] show ?thesis
    by (simp add: refill_def Sub_eq Let_def min_def not_less)
qed

lemma timelyD:
  assumes "timely key now limit m" and "m key = Some b"
  shows "lastRefill b \<le> now" "now - lastRefill b \<le> maxInt64" "lastAccess b = lastRefill b" "bucket_ok limit b"
  using assms by (auto simp: timely_def)

text \<open>A call takes a token exactly if one is available, and leaves the bucket of that instant.\<close>

lemma Allow_eq:
  assumes "timely key now limit m" and "1 \<le> limit" and "limit \<le> 2 ^ 53"
  shows "memory_Allow now key limit window m =
     (let t = avail now key limit window m
      in if 1 \<le> t
         then ((True, \<lfloor>fl (t - 1)\<rfloor>, now + window), m(key \<mapsto> bucketAt now limit window (fl (t - 1))))
         else ((False, 0, now + window), m(key \<mapsto> bucketAt now limit window t)))"
proof (cases "m key")
  case None
  have "refill now (newBucket now limit window) = newBucket now limit window"
    by (simp add: refill_def newBucket_def Sub_def minInt64_def maxInt64_def)
  moreover have "newBucket now limit window
      \<lparr>maxTokens := fl (of_int limit), refillRate := fl (fl (of_int limit) / Seconds window)\<rparr> =
      newBucket now limit window"
    by (simp add: newBucket_def)
  ultimately show ?thesis
    using None assms fl_limit [of limit]
    by (simp add: memory_Allow_def LoadOrStore_def avail_def newBucket_def bucketAt_def Let_def)
next
  case (Some b)
  note t = timelyD [OF assms(1) Some]
  let ?b1 = "b\<lparr>maxTokens := fl (of_int limit), refillRate := fl (fl (of_int limit) / Seconds window)\<rparr>"
  have "refill now ?b1 = bucketAt now limit window (avail now key limit window m)\<lparr>lastAccess := lastAccess b\<rparr>"
    using t refill_eq [of ?b1 now] fl_limit [OF assms(2,3)]
    by (simp add: bucket_ok_def avail_def Some credit_def bucketAt_def)
  with Some show ?thesis
    by (simp add: memory_Allow_def LoadOrStore_def Let_def bucketAt_def)
qed

lemma avail_range:
  assumes "timely key now limit m" and "1 \<le> limit" and "limit \<le> 2 ^ 53"
    and "0 < window" and "window \<le> maxInt64"
  shows "0 \<le> avail now key limit window m" "avail now key limit window m \<le> of_int limit"
    "representable (avail now key limit window m)"
proof -
  have c: "0 \<le> credit limit window d" if "0 \<le> d" "d \<le> maxInt64" for d
    using that assms Seconds_nonneg [of d] Seconds_pos [of window] by (simp add: credit_def)
  show "avail now key limit window m \<le> of_int limit" by (auto simp: avail_def split: option.splits)
  have "0 \<le> tokens b + credit limit window (now - lastRefill b)" if "m key = Some b" for b
    using timelyD [OF assms(1) that] c by (simp add: bucket_ok_def)
  then show "0 \<le> avail now key limit window m" "representable (avail now key limit window m)"
    using assms(2,3) representable_int [of limit]
    by (auto simp: avail_def min_def split: option.splits intro!: representable_fl)
qed

text \<open>What a call leaves behind is in order again.\<close>

lemma bucketAt_ok: "representable t \<Longrightarrow> 0 \<le> t \<Longrightarrow> t \<le> of_int limit \<Longrightarrow> bucket_ok limit (bucketAt now limit window t)"
  by (simp add: bucket_ok_def bucketAt_def)

lemma Allow_cases:
  assumes "timely key now limit m" and "1 \<le> limit" and "limit \<le> 2 ^ 53"
    and "0 < window" and "window \<le> maxInt64"
  obtains (admit) t where "1 \<le> avail now key limit window m" "t = avail now key limit window m - 1"
      "memory_Allow now key limit window m =
         ((True, \<lfloor>t\<rfloor>, now + window), m(key \<mapsto> bucketAt now limit window t))"
      "bucket_ok limit (bucketAt now limit window t)"
  | (reject) "avail now key limit window m < 1"
      "memory_Allow now key limit window m = ((False, 0, now + window),
         m(key \<mapsto> bucketAt now limit window (avail now key limit window m)))"
      "bucket_ok limit (bucketAt now limit window (avail now key limit window m))"
proof -
  let ?t = "avail now key limit window m"
  note r = avail_range [OF assms]
  show thesis
  proof (cases "1 \<le> ?t")
    case True
    have "rat_of_int limit \<le> of_int (2 ^ 53)" using assms(3) by (simp only: of_int_le_iff)
    with r(2) have "?t \<le> 2 ^ 53" by simp
    note rep = representable_dec [OF r(3) True this]
    have "bucket_ok limit (bucketAt now limit window (?t - 1))"
      using rep True r(2) by (intro bucketAt_ok) linarith+
    with True show thesis
      by (intro admit [of "?t - 1"]) (simp_all add: Allow_eq [OF assms(1-3)] fl_representable [OF rep] Let_def)
  next
    case False
    with r show thesis
      by (intro reject) (simp_all add: Allow_eq [OF assms(1-3)] bucketAt_ok)
  qed
qed

section \<open>Runs\<close>

lemma Allow_other: "k \<noteq> key \<Longrightarrow> memory_Allow now k limit window m = (res, m') \<Longrightarrow> m' key = m key"
  by (auto simp: memory_Allow_def LoadOrStore_def Let_def split: option.splits if_splits)

lemma fst_ml_run_Call:
  "memory_Allow t k limit window m = ((ok, rest, reset), m') \<Longrightarrow>
    fst (ml_run key (Call t k limit window # evs) m) =
      fst (ml_run key evs m') + (if ok \<and> k = key then 1 else 0)"
  by (simp split: prod.splits)

lemma snd_ml_run_Call:
  "memory_Allow t k limit window m = (res, m') \<Longrightarrow>
    snd (ml_run key (Call t k limit window # evs) m) = snd (ml_run key evs m')"
  by (simp split: prod.splits)

lemma earned_add:
  assumes "0 < window"
  shows "earned limit window (t - s) + earned limit window (u - t) = earned limit window (u - s)"
  using assms by (simp add: earned_def field_simps)

lemma earned_nonneg: "0 < window \<Longrightarrow> 0 \<le> limit \<Longrightarrow> 0 \<le> d \<Longrightarrow> 0 \<le> earned limit window d"
  by (simp add: earned_def)

text \<open>The tokens a call finds never exceed what the key had plus what the time since has earned,
  but for one rounding of a number below the limit.\<close>

lemma avail_le_pot:
  assumes "timely key now limit m" and "1 \<le> limit" and "limit \<le> 2 ^ 53"
    and "0 < window" and "window \<le> maxInt64"
  shows "avail now key limit window m \<le> pot now key limit window m + of_int limit / 2 ^ 53"
proof (cases "m key")
  case None
  with assms(2) show ?thesis by (simp add: avail_def pot_def)
next
  case (Some b)
  note t = timelyD [OF assms(1) Some]
  let ?x = "tokens b + credit limit window (now - lastRefill b)"
  have cr: "credit limit window (now - lastRefill b) \<le> earned limit window (now - lastRefill b)"
    using credit_approx(2) [OF assms(2-5), of "now - lastRefill b"] t by (simp add: earned_def)
  have x0: "0 \<le> ?x"
    using t assms Seconds_nonneg [of "now - lastRefill b"] Seconds_pos [of window]
    by (simp add: bucket_ok_def credit_def)
  have "min (of_int limit) (fl ?x) \<le> ?x + of_int limit / 2 ^ 53"
  proof (cases "?x \<le> of_int limit")
    case True
    then have "?x / 2 ^ 53 \<le> of_int limit / 2 ^ 53" by (rule divide_right_mono) simp
    moreover have "fl ?x \<le> ?x + ?x / 2 ^ 53" using fl_error [OF x0] by linarith
    ultimately show ?thesis by linarith
  next
    case False
    then have "min (of_int limit) (fl ?x) \<le> ?x" by simp
    moreover have "0 \<le> rat_of_int limit / 2 ^ 53" using assms(2) by simp
    ultimately show ?thesis by linarith
  qed
  with cr Some show ?thesis by (simp add: avail_def pot_def)
qed

lemma pot_time:
  assumes "0 < window"
  shows "pot u key limit window m + (if m key = None then earned limit window (u - t) else 0) =
    pot t key limit window m + earned limit window (u - t)"
  using earned_add [OF assms, of limit t _ u]
  by (auto simp: pot_def split: option.splits)

lemma pot_later:
  assumes "0 < window" "0 \<le> limit" "t \<le> u"
  shows "pot u key limit window m \<le> pot t key limit window m + earned limit window (u - t)"
  using pot_time [OF assms(1), of u key limit m t] earned_nonneg [OF assms(1,2), of "u - t"] assms(3)
  by (auto split: if_splits)

text \<open>Evicting an idle bucket gives the key nothing the idle time had not earned, as long as the
  window is not longer than the idle time.\<close>

lemma pot_evict:
  assumes "timely key now limit m" and "0 < window" and "window \<le> evictionTTL" and "0 \<le> limit"
  shows "pot now key limit window (evictStale now m) \<le> pot now key limit window m"
proof (cases "m key")
  case (Some b)
  note t = timelyD [OF assms(1) Some]
  show ?thesis
  proof (cases "evictionTTL < Sub now (lastAccess b)")
    case True
    with t have "window \<le> now - lastRefill b" using assms(3) by (simp add: Sub_eq)
    then have "1 \<le> rat_of_int (now - lastRefill b) / of_int window"
      using assms(2) by simp
    then have "of_int limit * 1 \<le> of_int limit * (rat_of_int (now - lastRefill b) / of_int window)"
      using assms(4) by (intro mult_left_mono) simp_all
    also have "\<dots> \<le> of_int limit * (rat_of_int (now - lastRefill b) / of_int window) * (1 + 1 / 2 ^ 50)"
      using assms(2,4) t(1) mult_left_mono [of 1 "1 + 1 / 2 ^ 50 :: rat"
          "of_int limit * (rat_of_int (now - lastRefill b) / of_int window)"] by simp
    finally show ?thesis
      using Some True t(4) by (simp add: pot_def evictStale_def earned_def bucket_ok_def)
  qed (simp add: pot_def evictStale_def Some)
qed (simp add: pot_def evictStale_def)

lemma since_timely: "since start key now limit m \<Longrightarrow> now - start \<le> maxInt64 \<Longrightarrow> timely key now limit m"
  by (auto simp: since_def timely_def split: option.splits)

lemma since_later: "since start key t limit m \<Longrightarrow> t \<le> u \<Longrightarrow> since start key u limit m"
  by (auto simp: since_def split: option.splits)

lemma since_evict: "since start key t limit m \<Longrightarrow> since start key t limit (evictStale u m)"
  by (auto simp: since_def evictStale_def split: option.splits)

lemma since_bucketAt:
  "start \<le> now \<Longrightarrow> bucket_ok limit (bucketAt now limit window t) \<Longrightarrow>
    since start key now limit (m(key \<mapsto> bucketAt now limit window t))"
  by (simp add: since_def bucketAt_def)

lemma pot_bucketAt [simp]: "pot now key limit w (m(key \<mapsto> bucketAt now limit window t)) = t"
  by (simp add: pot_def bucketAt_def earned_def)

lemma earned_shorter:
  assumes "0 < w" "w \<le> window" "0 \<le> limit" "0 \<le> d"
  shows "earned limit window d \<le> earned limit w d"
proof -
  have "rat_of_int (limit * d) / of_int window \<le> of_int (limit * d) / of_int w"
    using assms by (intro divide_left_mono) simp_all
  then show ?thesis unfolding earned_def by (intro mult_right_mono) simp_all
qed

lemma pot_shorter:
  assumes "timely key now limit m" "0 < w" "w \<le> window" "0 \<le> limit"
  shows "pot now key limit window m \<le> pot now key limit w m"
  using assms earned_shorter [OF assms(2-4)] by (auto simp: pot_def timely_def split: option.splits)

lemma pot_cong: "m' key = m key \<Longrightarrow> pot t key limit window m' = pot t key limit window m"
  by (simp add: pot_def)

lemma since_cong: "m' key = m key \<Longrightarrow> since start key t limit m' = since start key t limit m"
  by (simp add: since_def)

text \<open>One call of the key pays for the request it admits out of the key's tokens.\<close>

lemma Allow_pays:
  assumes "since start key now limit m" and "start \<le> now" and "now - start \<le> maxInt64"
    and "1 \<le> limit" and "limit \<le> 2 ^ 53" and "0 < window" and "window \<le> maxInt64"
    and "memory_Allow now key limit window m = ((ok, rest, reset), m')"
  shows "since start key now limit m' \<and> pot now key limit window m' + (if ok then 1 else 0) \<le>
    pot now key limit window m + of_int limit / 2 ^ 53"
proof -
  note t = since_timely [OF assms(1,3)]
  note le = avail_le_pot [OF t assms(4-7)]
  show ?thesis
    by (rule Allow_cases [OF t assms(4-7)]) (use assms(2,8) le in \<open>auto intro: since_bucketAt\<close>)
qed

text \<open>The same when time is credited over a shorter window \<open>w\<close>.\<close>

lemma Allow_pays_shorter:
  assumes "since start key now limit m" and "start \<le> now" and "now - start \<le> maxInt64"
    and "1 \<le> limit" and "limit \<le> 2 ^ 53" and "0 < window" and "window \<le> maxInt64"
    and "memory_Allow now key limit window m = ((ok, rest, reset), m')" and "0 < w" and "w \<le> window"
  shows "since start key now limit m' \<and> pot now key limit w m' + (if ok then 1 else 0) \<le>
    pot now key limit w m + of_int limit / 2 ^ 53"
proof -
  note t = since_timely [OF assms(1,3)]
  have "avail now key limit window m \<le> pot now key limit w m + of_int limit / 2 ^ 53"
    using avail_le_pot [OF t assms(4-7)] pot_shorter [OF t assms(9,10)] assms(4) by simp
  note le = this
  show ?thesis
    by (rule Allow_cases [OF t assms(4-7)]) (use assms(2,8) le in \<open>auto intro: since_bucketAt\<close>)
qed

text \<open>The admitted requests of a run are paid for by the tokens at its start and what the time
  until its end earns over \<open>w\<close>: the window, or with sweeps at most the eviction age.\<close>

lemma run_pays:
  assumes "1 \<le> limit" and "limit \<le> 2 ^ 53" and "0 < window" and "window \<le> maxInt64"
    and "0 < w" and "w \<le> window" and "tend - start \<le> maxInt64"
  shows "in_order t evs \<Longrightarrow> configured key limit window evs \<Longrightarrow> \<forall>e\<in>set evs. ev_at e \<le> tend \<Longrightarrow>
    w \<le> evictionTTL \<or> (\<forall>u. Sweep u \<notin> set evs) \<Longrightarrow>
    start \<le> t \<Longrightarrow> t \<le> tend \<Longrightarrow> since start key t limit m \<Longrightarrow>
    of_nat (fst (ml_run key evs m)) \<le> pot t key limit w m + earned limit w (tend - t)
      + of_nat (calls_of key evs) * (of_int limit / 2 ^ 53)"
proof (induction evs arbitrary: t m)
  case Nil
  have "0 \<le> earned limit w (tend - t)" using Nil assms by (intro earned_nonneg) simp_all
  moreover have "0 \<le> pot t key limit w m"
    using Nil assms(1,5) earned_nonneg [of w limit]
    by (auto simp: pot_def since_def bucket_ok_def split: option.splits)
  ultimately show ?case by simp
next
  case (Cons e evs)
  define u where "u = ev_at e"
  define c where "c = rat_of_int limit / 2 ^ 53"
  have u: "t \<le> u" "u \<le> tend" "start \<le> u" "u - start \<le> maxInt64"
    using Cons.prems assms(7) by (auto simp: u_def)
  have su: "since start key u limit m" using Cons.prems(7) u(1) by (rule since_later)
  have pot_u: "pot u key limit w m + earned limit w (tend - u) \<le>
      pot t key limit w m + earned limit w (tend - t)"
    using pot_later [OF assms(5) _ u(1), of limit key m] earned_add [OF assms(5), of limit u t tend] assms(1)
    by simp
  have IH: "of_nat (fst (ml_run key evs m')) \<le> pot u key limit w m' + earned limit w (tend - u)
      + of_nat (calls_of key evs) * c" if "since start key u limit m'" for m'
    using Cons.IH [of u m'] Cons.prems that u by (auto simp: u_def c_def configured_def)
  have "of_nat (fst (ml_run key (e # evs) m)) \<le> pot t key limit w m + earned limit w (tend - t)
      + of_nat (calls_of key (e # evs)) * c"
  proof (cases e)
    case (Sweep x)
    then have "w \<le> evictionTTL" using Cons.prems(4) by auto
    then have "pot u key limit w (evictStale u m) \<le> pot u key limit w m"
      using pot_evict since_timely [OF su u(4)] assms by simp
    with IH [OF since_evict [OF su], of u] pot_u show ?thesis by (simp add: Sweep u_def)
  next
    case (Call x k l w')
    obtain ok rest reset m' where r: "memory_Allow u k l w' m = ((ok, rest, reset), m')"
      by (metis prod_cases4 prod.collapse)
    show ?thesis
    proof (cases "k = key")
      case True
      with Cons.prems Call have lw: "l = limit" "w' = window" by (simp_all add: configured_def)
      have "since start key u limit m'" and p: "pot u key limit w m' + (if ok then 1 else 0) \<le>
          pot u key limit w m + c" unfolding c_def
        using Allow_pays_shorter [OF su u(3,4) assms(1-4) _ assms(5,6)] r lw True by simp_all
      with IH [of m'] pot_u lw True Call show ?thesis
        using fst_ml_run_Call [OF r, of key evs] by (cases ok) (simp_all del: ml_run.simps add: u_def distrib_right)
    next
      case False
      have "m' key = m key" using Allow_other [OF False r] .
      then have "pot u key limit w m' = pot u key limit w m" "since start key u limit m'"
        using su since_cong [of m' key m] pot_cong [of m' key m] by auto
      with IH [of m'] pot_u False Call show ?thesis
        using fst_ml_run_Call [OF r, of key evs] by (simp del: ml_run.simps add: u_def)
    qed
  qed
  then show ?case by (simp only: c_def)
qed

lemma Allow_local:
  assumes "m key = m' key"
  shows "fst (memory_Allow now key limit window m) = fst (memory_Allow now key limit window m')"
    and "snd (memory_Allow now key limit window m) key = snd (memory_Allow now key limit window m') key"
  using assms by (auto simp: memory_Allow_def LoadOrStore_def Let_def split: option.splits)

interpretation mem: limiter memory_limiter "\<lambda>m key. m key" "\<lambda>_. True"
proof unfold_locales
  show "memory_limiter now k l w a s = (Some (False, rest, reset), s') \<Longrightarrow> rest = 0"
    for now k l w a s rest reset s'
    by (auto simp: memory_limiter_def memory_Allow_def Let_def split: prod.splits if_splits)
  show "k \<noteq> k' \<Longrightarrow> snd (memory_limiter now k l w a s) k' = s k'" for k k' now l w a s
    using Allow_other [of k k' now l w s] by (simp add: memory_limiter_def split: prod.splits)
  show "s k = t k \<Longrightarrow> fst (memory_limiter now k l w a s) = fst (memory_limiter now k l w a t)"
    for s t :: MemoryLimiter and k now l w a
    using Allow_local(1) [of s k t now l w] by (simp add: memory_limiter_def case_prod_unfold)
  show "s k = t k \<Longrightarrow> snd (memory_limiter now k l w a s) k = snd (memory_limiter now k l w a t) k"
    for s t :: MemoryLimiter and k now l w a
    using Allow_local(2) [of s k t now l w] by (simp add: memory_limiter_def case_prod_unfold)
qed simp

text \<open>Calls at the instant of the bucket find exactly the tokens it holds.\<close>

lemma avail_same_instant:
  assumes "m key = Some (bucketAt now limit window t)" and "representable t" and "t \<le> of_int limit"
  shows "avail now key limit window m = t"
  using assms by (simp add: avail_def bucketAt_def credit_def fl_representable)

lemma burst_from:
  assumes "1 \<le> limit" and "limit \<le> 2 ^ 53" and "0 < window" and "window \<le> maxInt64"
  shows "j \<le> limit \<Longrightarrow> 0 \<le> j \<Longrightarrow> m key = Some (bucketAt now limit window (of_int j)) \<Longrightarrow>
    fst (ml_run key (replicate n (Call now key limit window)) m) = min n (nat j)"
proof (induction n arbitrary: j m)
  case (Suc n)
  have rep: "representable (of_int j)" using Suc.prems assms by (intro representable_int) simp_all
  have t: "timely key now limit m"
    using Suc.prems rep by (simp add: timely_def bucketAt_def maxInt64_def bucket_ok_def)
  have av: "avail now key limit window m = of_int j"
    using avail_same_instant [of m key now limit window] Suc.prems rep by simp
  show ?case
  proof (cases "1 \<le> j")
    case True
    have "fl (of_int j - 1) = rat_of_int (j - 1)" using fl_int [of "j - 1"] True Suc.prems assms by simp
    with True av have "memory_Allow now key limit window m =
        ((True, j - 1, now + window), m(key \<mapsto> bucketAt now limit window (of_int (j - 1))))"
      by (simp add: Allow_eq [OF t assms(1,2)])
    from fst_ml_run_Call [OF this] Suc.IH [of "j - 1"] True Suc.prems show ?thesis
      by (simp del: ml_run.simps add: nat_diff_distrib)
  next
    case False
    with Suc.prems have "j = 0" by simp
    with av have "memory_Allow now key limit window m =
        ((False, 0, now + window), m(key \<mapsto> bucketAt now limit window (of_int 0)))"
      by (simp add: Allow_eq [OF t assms(1,2)])
    from fst_ml_run_Call [OF this] Suc.IH [of 0] \<open>j = 0\<close> Suc.prems show ?thesis
      by (simp del: ml_run.simps)
  qed
qed simp

lemma burst_fresh:
  assumes "1 \<le> limit" and "limit \<le> 2 ^ 53" and "0 < window" and "window \<le> maxInt64" and "m key = None"
  shows "fst (ml_run key (replicate n (Call now key limit window)) m) = min n (nat limit)"
proof (cases n)
  case (Suc k)
  have t: "timely key now limit m" using assms(5) by (simp add: timely_def)
  have "fl (of_int limit - 1) = rat_of_int (limit - 1)" using fl_int [of "limit - 1"] assms by simp
  then have "memory_Allow now key limit window m =
      ((True, limit - 1, now + window), m(key \<mapsto> bucketAt now limit window (of_int (limit - 1))))"
    using assms by (simp add: Allow_eq [OF t assms(1,2)] avail_def)
  from fst_ml_run_Call [OF this] burst_from [OF assms(1-4), of "limit - 1" _ key now k] assms(1) Suc
  show ?thesis by (simp del: ml_run.simps)
qed simp

lemma ml_run_append:
  "ml_run key (xs @ ys) m =
    (fst (ml_run key xs m) + fst (ml_run key ys (snd (ml_run key xs m))), snd (ml_run key ys (snd (ml_run key xs m))))"
  by (induction key xs m rule: ml_run.induct) (simp_all split: prod.splits)

lemma Allow_access:
  "memory_Allow now key limit window m = (res, m') \<Longrightarrow> \<exists>b. m' key = Some b \<and> lastAccess b = now"
  by (auto simp: memory_Allow_def LoadOrStore_def Let_def split: option.splits if_splits)

lemma calls_access:
  "\<exists>b. m key = Some b \<and> lastAccess b = now \<Longrightarrow>
    \<exists>b. snd (ml_run key (replicate n (Call now key limit window)) m) key = Some b \<and> lastAccess b = now"
proof (induction n arbitrary: m)
  case (Suc n)
  obtain res m' where r: "memory_Allow now key limit window m = (res, m')" by fastforce
  from Suc.IH [of m', OF Allow_access [OF r]] show ?case
    by (simp only: replicate_Suc snd_ml_run_Call [OF r])
qed simp

section \<open>Properties\<close>

text \<open>C6: The token bucket bounds the rate. Over any run of calls and clean-up sweeps in time order, for
  any window, the requests of a key that pass are at most the limit plus the limit's share of the elapsed
  time, with a relative tolerance of $2^{-50}$ for the float64 credit and one rounding of the limit for each
  call. The share is taken over the window; when there are sweeps it is taken over the window or the
  eviction age of five minutes, whichever is shorter, because a sweep refunds a key that has been idle
  that long.\<close>

theorem memory_limiter_rate_bound:
  assumes "1 \<le> limit" and "limit \<le> 2 ^ 53" and "0 < window" and "window \<le> maxInt64"
    and "in_order t0 evs" and "configured key limit window evs"
    and "\<forall>e\<in>set evs. ev_at e \<le> tend" and "t0 \<le> tend" and "tend - t0 \<le> maxInt64"
    and "m key = None"
    and "w = (if \<exists>u. Sweep u \<in> set evs then min window evictionTTL else window)"
  shows "of_nat (fst (ml_run key evs m)) \<le>
    of_int limit + of_int limit * of_int (tend - t0) / of_int w * (1 + 1 / 2 ^ 50)
      + of_nat (calls_of key evs) * (of_int limit / 2 ^ 53 :: rat)"
proof -
  have w: "0 < w" "w \<le> window" "w \<le> evictionTTL \<or> (\<forall>u. Sweep u \<notin> set evs)"
    using assms(3,11) by (auto simp: evictionTTL_def min_def)
  show ?thesis
    using run_pays [OF assms(1-4) w(1,2) assms(9,5-7) w(3) _ assms(8), of m] assms(10)
    by (simp add: pot_def since_def earned_def)
qed

theorem memory_limiter_rate_bound_witness:
  "of_nat (fst (ml_run ''k'' [Call 0 ''k'' 2 1000000000, Sweep 5, Call 500000000 ''k'' 2 1000000000] Map.empty)) \<le>
    (2 + 2 * 500000000 / 1000000000 * (1 + 1 / 2 ^ 50) + 2 * (2 / 2 ^ 53) :: rat)"
  using memory_limiter_rate_bound [of 2 1000000000 0
      "[Call 0 ''k'' 2 1000000000, Sweep 5, Call 500000000 ''k'' 2 1000000000]" "''k''" 500000000 Map.empty 1000000000]
  by (simp add: evictionTTL_def maxInt64_def configured_def)

text \<open>A burst at one instant on a new key gets exactly the limit: as many requests pass as
  were made, up to the limit, and every further one is refused.\<close>

theorem memory_limiter_burst:
  assumes "1 \<le> limit" and "limit \<le> 2 ^ 53" and "0 < window" and "window \<le> maxInt64" and "m key = None"
  shows "fst (ml_run key (replicate n (Call now key limit window)) m) = min n (nat limit)"
  using assms by (rule burst_fresh)

theorem memory_limiter_burst_witness:
  "fst (ml_run ''k'' (replicate 5 (Call 7 ''k'' 3 1000000000)) Map.empty) = 3"
  using memory_limiter_burst [of 3 1000000000 Map.empty "''k''" 5 7] by (simp add: maxInt64_def)

text \<open>Keys do not interfere: the answers to one key within any sequence of calls are those of
  the same limiter when only the calls of that key are made.\<close>

theorem memory_limiter_isolates_keys:
  "answers memory_limiter key cs m =
    answers memory_limiter key (filter (\<lambda>c. lc_key c = key) cs) m"
  by (rule mem.answers_isolated) simp

text \<open>C35: A key is never locked out: once more than a whole window has passed since the bucket
  was last touched, by a $2^{50}$-th part of the window, the next request passes.\<close>

theorem memory_limiter_recovers:
  assumes "1 \<le> limit" and "limit \<le> 2 ^ 53" and "0 < window" and "window \<le> maxInt64"
    and "timely key now limit m" and "m key = Some b"
    and "2 ^ 50 * window \<le> (2 ^ 50 - 1) * (now - lastRefill b)"
  shows "\<exists>rest m'. memory_Allow now key limit window m = ((True, rest, now + window), m')"
proof -
  note t = timelyD [OF assms(5,6)]
  let ?d = "now - lastRefill b"
  have "rat_of_int (2 ^ 50 * window) \<le> of_int ((2 ^ 50 - 1) * ?d)" using assms(7) by (simp only: of_int_le_iff)
  then have "rat_of_int window \<le> of_int ?d * (1 - 1 / 2 ^ 50)" by simp
  then have "1 \<le> of_int ?d / of_int window * (1 - 1 / 2 ^ 50 :: rat)" using assms(3) by (simp add: field_simps)
  then have "of_int limit * 1 \<le> of_int limit * (of_int ?d / of_int window * (1 - 1 / 2 ^ 50 :: rat))"
    using assms(1) by (intro mult_left_mono) simp_all
  also have "\<dots> \<le> credit limit window ?d"
    using credit_approx(1) [OF assms(1-4) _ t(2)] t(1) by (simp add: mult.assoc)
  also have "\<dots> \<le> tokens b + credit limit window ?d" using t(4) by (simp add: bucket_ok_def)
  finally have "fl (of_int limit) \<le> fl (tokens b + credit limit window ?d)" by (intro fl_mono) simp
  then have "1 \<le> avail now key limit window m"
    using assms(1,2,6) by (simp add: avail_def fl_limit)
  then show ?thesis by (simp add: Allow_eq [OF assms(5,1,2)] Let_def)
qed

theorem memory_limiter_recovers_witness:
  "\<exists>rest m'. memory_Allow 1000000001 ''k'' 1 1000000000 [''k'' \<mapsto> bucketAt 0 1 1000000000 0] =
     ((True, rest, 2000000001), m')"
  using memory_limiter_recovers [of 1 1000000000 "''k''" 1000000001 "[''k'' \<mapsto> bucketAt 0 1 1000000000 0]"]
    representable_int [of 0]
  by (simp add: timely_def bucketAt_def bucket_ok_def maxInt64_def)

text \<open>The clean-up forgets the debt of an idle key. Whatever the configured window, a client that
  spends its whole limit at once and stays away for the eviction age may spend the whole limit
  again after the next sweep: twice the limit passes within five minutes and a nanosecond.\<close>

theorem eviction_refunds_long_windows:
  assumes "1 \<le> limit" and "limit \<le> 2 ^ 53" and "0 < window" and "window \<le> maxInt64"
  shows "fst (ml_run key
     (replicate (nat limit) (Call 0 key limit window) @ Sweep (evictionTTL + 1) #
      replicate (nat limit) (Call (evictionTTL + 1) key limit window)) Map.empty) = 2 * nat limit"
proof -
  define calls where "calls t = replicate (nat limit) (Call t key limit window)" for t
  let ?m = "snd (ml_run key (calls 0) Map.empty)"
  obtain n where n: "nat limit = Suc n" using assms(1) by (cases "nat limit") auto
  obtain res m' where r: "memory_Allow 0 key limit window Map.empty = (res, m')" by fastforce
  have "\<exists>b. ?m key = Some b \<and> lastAccess b = 0"
    using calls_access [where m = m' and key = key, OF Allow_access [OF r], of n limit window] by (simp only: calls_def n replicate_Suc snd_ml_run_Call [OF r])
  then have e: "evictStale (evictionTTL + 1) ?m key = None"
    by (auto simp: evictStale_def Sub_def evictionTTL_def minInt64_def maxInt64_def)
  have b: "fst (ml_run key (calls t) m) = nat limit" if "m key = None" for t m
    unfolding calls_def
    using burst_fresh [where key = key and m = m, OF assms that, of "nat limit" t] by simp
  have "ml_run key (Sweep (evictionTTL + 1) # calls (evictionTTL + 1)) ?m =
      ml_run key (calls (evictionTTL + 1)) (evictStale (evictionTTL + 1) ?m)" by simp
  then show ?thesis
    unfolding calls_def [symmetric] ml_run_append using b [of "evictStale (evictionTTL + 1) ?m", OF e] b [of Map.empty 0] by simp
qed

theorem eviction_refunds_long_windows_witness:
  "fst (ml_run ''k''
     (replicate 10 (Call 0 ''k'' 10 3600000000000) @ Sweep (evictionTTL + 1) #
      replicate 10 (Call (evictionTTL + 1) ''k'' 10 3600000000000)) Map.empty) = 20"
  using eviction_refunds_long_windows [of 10 3600000000000 "''k''"] by (simp add: maxInt64_def)

text \<open>A whole window is not always enough. With one request in 49 seconds, the request made
  exactly 49 seconds after the first, at the reset time the limiter announced, is refused: in
  float64 the product of 49 and the rounded rate 1/49 is below one.\<close>

theorem exact_window_can_be_refused:
  "fst (memory_Allow 0 ''k'' 1 49000000000 Map.empty) = (True, 0, 49000000000) \<and>
   fst (fst (memory_Allow 49000000000 ''k'' 1 49000000000
     (snd (memory_Allow 0 ''k'' 1 49000000000 Map.empty)))) = False"
  by code_simp

end
