(* ===== verification/Observability.thy ===== *)
theory Observability
  imports Validate MemoryLimiter
begin

text \<open>
  Metrics and health, \<open>internal/observability\<close>. A call of a Prometheus vector is a value of
  \<open>metric\<close>, given to the function \<open>observe\<close> that applies it to the world; the collector's eight
  vectors are the constructors, less \<open>UpstreamErrors\<close>, which no code of the repository touches.
  The route holder of a request is a cell of the world: \<open>ho_new\<close> makes it empty, the router fills it
  with \<open>ho_set\<close>, the middleware reads it with \<open>ho_get\<close>.
\<close>

section \<open>Metrics\<close>

datatype metric =
    IncRequests string string string
  | ObserveDuration string string rat
  | ObserveRequestSize string rat
  | ObserveResponseSize string rat
  | SetBreakerState string string int
  | IncRateLimitRejected string string
  | IncRateLimitErrors string string

record 'w holder_ops =
  ho_new :: "'w \<Rightarrow> 'w"
  ho_get :: "'w \<Rightarrow> MatchedRoute option"
  ho_set :: "MatchedRoute \<Rightarrow> 'w \<Rightarrow> 'w"

definition requestMetrics :: "string \<Rightarrow> request \<Rightarrow> int \<Rightarrow> writer \<Rightarrow> metric list" where
  "requestMetrics route r duration ww =
     [IncRequests route (Method r) (Itoa (StatusCode ww)), ObserveDuration route (Method r) (Seconds duration)] @
     (if 0 \<le> ContentLength r then [ObserveRequestSize route (fl (of_int (ContentLength r)))] else []) @
     [ObserveResponseSize route (fl (of_int (BytesWritten ww)))]"

definition Metrics_Middleware ::
  "('w \<Rightarrow> int) \<Rightarrow> (metric \<Rightarrow> 'w \<Rightarrow> 'w) \<Rightarrow> 'w holder_ops \<Rightarrow> 'w middleware" where
  "Metrics_Middleware now observe holder nxt r w s =
     (let start = now s;
          ww = WrapResponseWriter w;
          s1 = ho_new holder s
      in case nxt (r\<lparr>ctx_holder := True\<rparr>) ww s1 of
           (ww', Panicked p, s2) \<Rightarrow> (callerWriter w ww', Panicked p, s2)
         | (ww', Returned, s2) \<Rightarrow>
             (let route = (case ho_get holder s2 of
                    None \<Rightarrow> ''unknown'' | Some mr \<Rightarrow> RouteName (MatchedConfig mr))
              in (callerWriter w ww', Returned,
                  fold observe (requestMetrics route r (Sub (now s2) start) ww') s2)))"

section \<open>Health\<close>

definition jsonField :: "string \<Rightarrow> string \<Rightarrow> string" where
  "jsonField k v = jsonQuote k @ '':'' @ jsonQuote v"

definition healthBody :: "string \<Rightarrow> string \<Rightarrow> string option \<Rightarrow> string" where
  "healthBody status timestamp redisCheck =
     ''{'' @ jsonField ''status'' status @ '','' @ jsonField ''timestamp'' timestamp @
     (case redisCheck of
        None \<Rightarrow> []
      | Some c \<Rightarrow> '','' @ jsonQuote ''checks'' @ '':{'' @ jsonField ''redis'' c @ ''}'') @
     ''}'' @ [char_of (10::nat)]"

text \<open>A checker gives an error text or none. The timeout of two seconds is the checker's concern.\<close>

definition redisCheck ::
  "GatewayConfig \<Rightarrow> ('w \<Rightarrow> string option \<times> 'w) option \<Rightarrow> 'w \<Rightarrow> string option \<times> string \<times> 'w" where
  "redisCheck cfg checker s =
     (if Backend (RateLimit cfg) = ''redis'' then
        (case checker of
           None \<Rightarrow> (Some ''not_configured'', ''up'', s)
         | Some check \<Rightarrow>
             (case check s of
                (Some err, s') \<Rightarrow> (Some ''down'', ''degraded'', s')
              | (None, s') \<Rightarrow> (Some ''up'', ''up'', s')))
      else (None, ''up'', s))"

definition HealthHandler ::
  "('w \<Rightarrow> GatewayConfig) \<Rightarrow> ('w \<Rightarrow> string) \<Rightarrow> ('w \<Rightarrow> string option \<times> 'w) option \<Rightarrow> 'w handler" where
  "HealthHandler loadCfg timestamp checker r w s =
     (case redisCheck (loadCfg s) checker s of
        (checks, status, s') \<Rightarrow>
          (fst (Write (healthBody status (timestamp s) checks)
             (WriteHeader (if status = ''degraded'' then 503 else 200)
               (updHeader (Set ''Content-Type'' ''application/json'') w))), Returned, s'))"


section \<open>Lemmas\<close>

interpretation metrics: wellbehaved "Metrics_Middleware now observe holder"
proof
  fix nxt :: "'a handler"
  assume nx: "well_behaved nxt"
  show "well_behaved (Metrics_Middleware now observe holder nxt)"
    by (rule well_behavedI)
      (auto simp: Metrics_Middleware_def Let_def split: prod.splits outcome.splits
        dest!: well_behavedD [OF nx] intro: acts_callerWriter)
qed


section \<open>Properties\<close>



text \<open>The health endpoint answers 503 exactly when the configured backend is Redis and its check
  fails, else 200.\<close>

theorem health_degraded_iff:
  assumes "clean w" and "base_conn w = Some c0"
  shows "\<exists>u s' k. HealthHandler loadCfg ts checker r w s = (u, Returned, s') \<and> base_conn u = Some k \<and>
    conn_status k = Some (if Backend (RateLimit (loadCfg s)) = ''redis'' \<and>
       (\<exists>check err. checker = Some check \<and> fst (check s) = Some err) then 503 else 200)"
proof -
  obtain checks status s' where c: "redisCheck (loadCfg s) checker s = (checks, status, s')" by (metis prod_cases3)
  let ?code = "if status = ''degraded'' then 503 else 200 :: int"
  have code: "?code = (if Backend (RateLimit (loadCfg s)) = ''redis'' \<and>
       (\<exists>check err. checker = Some check \<and> fst (check s) = Some err) then 503 else 200)"
    using c by (auto simp: redisCheck_def split: if_splits option.splits prod.splits)
  have "\<not> informational ?code" "bodyAllowedForStatus ?code"
    by (simp_all add: informational_def bodyAllowedForStatus_def)
  moreover have "healthBody status (ts s) checks \<noteq> []" by (simp add: healthBody_def)
  ultimately obtain k where "base_conn (fst (Write (healthBody status (ts s) checks)
      (WriteHeader ?code (updHeader (Set ''Content-Type'' ''application/json'') w)))) = Some k" "conn_status k = Some ?code"
    using answer_clean [OF assms(1) _ _ assms(2)] by blast
  with code c show ?thesis by (auto simp: HealthHandler_def)
qed

theorem health_degraded_iff_witness:
  "\<exists>u s' k. HealthHandler (\<lambda>_. demo_gateway\<lparr>RateLimit := \<lparr>Backend = ''redis'', Redis = None\<rparr>\<rparr>) (\<lambda>_. ''now'')
       (Some (\<lambda>s. (Some ''timeout'', s))) (bareRequest ''GET'' ''/health'' Map.empty) (ServerResponse fresh_conn) () =
     (u, Returned, s') \<and> base_conn u = Some k \<and> conn_status k = Some 503"
proof -
  have "clean (ServerResponse fresh_conn)" "base_conn (ServerResponse fresh_conn) = Some fresh_conn"
    by (simp_all add: fresh_conn_def)
  from health_degraded_iff [OF this, of "\<lambda>_. demo_gateway\<lparr>RateLimit := \<lparr>Backend = ''redis'', Redis = None\<rparr>\<rparr>"
      "\<lambda>_. ''now''" "Some (\<lambda>s. (Some ''timeout'', s))" "bareRequest ''GET'' ''/health'' Map.empty" "()"]
  show ?thesis by simp
qed

end
