(* ===== verification/NetIP.thy ===== *)
theory NetIP
  imports Prelude
begin

text \<open>
  What the gateway uses of Go's package \<open>net\<close>: \<open>ParseIP\<close>, \<open>ParseCIDR\<close>, \<open>IP.To4\<close>,
  \<open>IP.String\<close>, \<open>IPNet.Contains\<close> and \<open>SplitHostPort\<close>. Addresses are the 16-byte slices the
  library returns; an IPv4 address is the IPv4-mapped one.
\<close>

unbundle bit_operations_syntax

type_synonym IP = "8 word list"

record IPNet =
  net_IP :: IP
  net_Mask :: "8 word list"

definition v4InV6Prefix :: "8 word list" where
  "v4InV6Prefix = replicate 10 0 @ [255, 255]"

definition To4 :: "IP \<Rightarrow> IP option" where
  "To4 ip = (if length ip = 4 then Some ip
             else if length ip = 16 \<and> take 12 ip = v4InV6Prefix then Some (drop 12 ip) else None)"

section \<open>Parsing addresses\<close>

definition isDigit :: "char \<Rightarrow> bool" where
  "isDigit c \<longleftrightarrow> 48 \<le> byte c \<and> byte c \<le> 57"

definition digitsVal :: "string \<Rightarrow> nat" where
  "digitsVal s = foldl (\<lambda>v c. v * 10 + (byte c - 48)) 0 s"

text \<open>One field of a dotted address: digits, no leading zero, at most 255.\<close>

definition parseOctet :: "string \<Rightarrow> 8 word option" where
  "parseOctet s =
     (if s = [] \<or> \<not> list_all isDigit s \<or> (1 < length s \<and> hd s = CHR ''0'') \<or> 255 < digitsVal s
      then None else Some (of_nat (digitsVal s)))"

definition parseIPv4Fields :: "string \<Rightarrow> 8 word list option" where
  "parseIPv4Fields s =
     (let ps = Split s (CHR ''.'') in if length ps = 4 then those (map parseOctet ps) else None)"

definition hexVal :: "char \<Rightarrow> nat option" where
  "hexVal c =
     (if isDigit c then Some (byte c - 48)
      else if 97 \<le> byte c \<and> byte c \<le> 102 then Some (byte c - 87)
      else if 65 \<le> byte c \<and> byte c \<le> 70 then Some (byte c - 55) else None)"

definition hexGroup :: "string \<Rightarrow> 8 word list" where
  "hexGroup d =
     (let v = foldl (\<lambda>v c. v * 16 + (case hexVal c of None \<Rightarrow> 0 | Some x \<Rightarrow> x)) 0 d
      in [of_nat (v div 256), of_nat (v mod 256)])"

text \<open>The loop over the groups of an IPv6 address: the text left, the bytes so far and where the
  ellipsis stood.\<close>

function v6loop :: "string \<Rightarrow> 8 word list \<Rightarrow> nat option \<Rightarrow> (string \<times> 8 word list \<times> nat option) option" where
  "v6loop s ip el =
     (if 16 \<le> length ip then Some (s, ip, el)
      else
        (let d = takeWhile (\<lambda>c. hexVal c \<noteq> None) s; rest = drop (length d) s; ip' = ip @ hexGroup d
         in if d = [] \<or> 4 < length d then None
            else if rest = [] then Some ([], ip', el)
            else if hd rest = CHR ''.'' then
              (if (el = None \<and> length ip \<noteq> 12) \<or> 12 < length ip then None
               else map_option (\<lambda>f. ([], ip @ f, el)) (parseIPv4Fields s))
            else if hd rest \<noteq> CHR '':'' \<or> tl rest = [] then None
            else if hd (tl rest) = CHR '':'' then
              (if el \<noteq> None then None
               else if tl (tl rest) = [] then Some ([], ip', Some (length ip'))
               else v6loop (tl (tl rest)) ip' (Some (length ip')))
            else v6loop (tl rest) ip' el))"
  by pat_completeness auto
termination
proof (relation "measure (\<lambda>(s, ip, el). 16 - length ip)", goal_cases)
  case (2 s ip el d rest ip')
  then show ?case by (simp add: hexGroup_def Let_def)
next
  case (3 s ip el d rest ip')
  then show ?case by (simp add: hexGroup_def Let_def)
qed simp

declare v6loop.simps [simp del]

definition v6finish :: "string \<times> 8 word list \<times> nat option \<Rightarrow> IP option" where
  "v6finish x = (case x of (s, ip, el) \<Rightarrow>
     if s \<noteq> [] then None
     else if length ip < 16 then
       (case el of
          None \<Rightarrow> None
        | Some e \<Rightarrow> Some (take e ip @ replicate (16 - length ip) 0 @ drop e ip))
     else if el \<noteq> None then None else Some ip)"

text \<open>An address with a zone is not an IP for \<open>ParseIP\<close> and \<open>ParseCIDR\<close>.\<close>

definition parseIPv6 :: "string \<Rightarrow> IP option" where
  "parseIPv6 s =
     (if CHR ''%'' \<in> set s then None
      else if HasPrefix s ''::'' then
        (if length s = 2 then Some (replicate 16 0)
         else Option.bind (v6loop (drop 2 s) [] (Some 0)) v6finish)
      else Option.bind (v6loop s [] None) v6finish)"

text \<open>\<open>netip.ParseAddr\<close>, decided by the first of the three punctuation bytes; the result comes
  with its bit length.\<close>

fun ParseAddr :: "string \<Rightarrow> string \<Rightarrow> (IP \<times> nat) option" where
  "ParseAddr whole [] = None"
| "ParseAddr whole (c # s) =
     (if c = CHR ''.'' then map_option (\<lambda>f. (v4InV6Prefix @ f, 32)) (parseIPv4Fields whole)
      else if c = CHR '':'' then map_option (\<lambda>ip. (ip, 128)) (parseIPv6 whole)
      else if c = CHR ''%'' then None
      else ParseAddr whole s)"

definition ParseIP :: "string \<Rightarrow> IP option" where
  "ParseIP s = map_option fst (ParseAddr s s)"

section \<open>Networks\<close>

definition maskByte :: "nat \<Rightarrow> 8 word" where
  "maskByte n = of_nat (256 - 2 ^ (8 - min 8 n))"

definition CIDRMask :: "nat \<Rightarrow> nat \<Rightarrow> 8 word list" where
  "CIDRMask ones bits = map (\<lambda>i. maskByte (ones - 8 * i)) [0..<bits div 8]"

definition maskBytes :: "8 word list \<Rightarrow> 8 word list \<Rightarrow> 8 word list" where
  "maskBytes ip m = map2 (\<lambda>a b. a AND b) ip m"

definition ParseCIDR :: "string \<Rightarrow> IPNet option" where
  "ParseCIDR s = (case Cut s (CHR ''/'') of
       (addr, bitsText, found) \<Rightarrow>
         if \<not> found then None
         else (case ParseAddr addr addr of
             None \<Rightarrow> None
           | Some (ip, bits) \<Rightarrow>
               if bitsText = [] \<or> \<not> list_all isDigit bitsText \<or> bits < digitsVal bitsText then None
               else (let m = CIDRMask (digitsVal bitsText) bits
                     in Some \<lparr>net_IP = maskBytes (if bits = 32 then drop 12 ip else ip) m, net_Mask = m\<rparr>)))"

definition IPNet_Contains :: "IPNet \<Rightarrow> IP \<Rightarrow> bool" where
  "IPNet_Contains n ip =
     (let nn = (case To4 (net_IP n) of Some b \<Rightarrow> b | None \<Rightarrow> net_IP n);
          m = (if length (net_Mask n) = 16 \<and> length nn = 4 then drop 12 (net_Mask n) else net_Mask n);
          x = (case To4 ip of Some b \<Rightarrow> b | None \<Rightarrow> ip)
      in length x = length nn \<and> maskBytes nn m = maskBytes x m)"

section \<open>Printing addresses\<close>

definition dotted :: "8 word list \<Rightarrow> string" where
  "dotted b = Join (map (\<lambda>w. natToString (unat w)) b) ''.''"

section \<open>Host and port\<close>

definition SplitHostPort :: "string \<Rightarrow> (string \<times> string) option" where
  "SplitHostPort hp = (case LastIndexByte hp (CHR '':'') of
       None \<Rightarrow> None
     | Some i \<Rightarrow>
         if hd hp = CHR ''['' then
           (let e = length (takeWhile (\<lambda>c. c \<noteq> CHR '']'') hp)
            in if e = length hp \<or> Suc e \<noteq> i then None
               else if CHR ''['' \<in> set (drop 1 hp) \<or> CHR '']'' \<in> set (drop (Suc e) hp) then None
               else Some (take (e - 1) (drop 1 hp), drop (Suc i) hp))
         else if CHR '':'' \<in> set (take i hp) \<or> CHR ''['' \<in> set hp \<or> CHR '']'' \<in> set hp then None
         else Some (take i hp, drop (Suc i) hp))"

section \<open>Lemmas\<close>

lemma parse_examples:
  "ParseIP ''10.0.0.7'' = Some (v4InV6Prefix @ [10, 0, 0, 7])"
  "ParseIP ''10.0.0.07'' = None"
  "ParseIP ''1.2.3'' = None"
  "ParseIP ''::1'' = Some (replicate 15 0 @ [1])"
  "ParseIP ''fe80::1%eth0'' = None"
  "SplitHostPort ''10.0.0.7:80'' = Some (''10.0.0.7'', ''80'')"
  "SplitHostPort ''[::1]:80'' = Some (''::1'', ''80'')"
  "SplitHostPort ''::1'' = None"
  by code_simp+

lemma cidr_examples:
  "map_option (\<lambda>n. IPNet_Contains n (v4InV6Prefix @ [10, 1, 2, 3])) (ParseCIDR ''10.0.0.0/8'') = Some True"
  "map_option (\<lambda>n. IPNet_Contains n (v4InV6Prefix @ [11, 1, 2, 3])) (ParseCIDR ''10.0.0.0/8'') = Some False"
  "map_option (\<lambda>n. IPNet_Contains n (replicate 15 0 @ [1])) (ParseCIDR ''::/0'') = Some True"
  "map_option (\<lambda>n. IPNet_Contains n (v4InV6Prefix @ [1, 2, 3, 4])) (ParseCIDR ''::/0'') = Some False"
  "ParseCIDR ''10.0.0.0/33'' = None"
  by code_simp+

section \<open>Printing and parsing dotted addresses\<close>

lemma byte_digit [simp]: "k < 10 \<Longrightarrow> byte (char_of (48 + k)) = 48 + k"
  by (simp add: byte_def)

lemma isDigit_digit: "k < 10 \<Longrightarrow> isDigit (char_of (48 + k :: nat))"
  unfolding isDigit_def using byte_digit [of k] by simp

lemma natToString_digits: "list_all isDigit (natToString n) \<and> natToString n \<noteq> []"
proof (induction n rule: natToString.induct)
  case (1 n)
  then show ?case
    using isDigit_digit [of n] isDigit_digit [of "n mod 10"] by (simp add: natToString.simps [of n])
qed

lemma digitsVal_snoc: "digitsVal (s @ [c]) = digitsVal s * 10 + (byte c - 48)"
  by (simp add: digitsVal_def)

lemma digitsVal_natToString: "digitsVal (natToString n) = n"
proof (induction n rule: natToString.induct)
  case (1 n)
  show ?case
  proof (cases "n < 10")
    case True
    then show ?thesis using byte_digit [of n] by (simp add: natToString.simps [of n] digitsVal_def)
  next
    case False
    then show ?thesis using 1 byte_digit [of "n mod 10"]
      by (simp add: natToString.simps [of n] digitsVal_snoc)
  qed
qed

lemma natToString_no_leading_zero: "1 \<le> n \<Longrightarrow> hd (natToString n) \<noteq> CHR ''0''"
proof (induction n rule: natToString.induct)
  case (1 n)
  show ?case
  proof (cases "n < 10")
    case True
    have "byte (CHR ''0'') = 48" by (simp add: byte_def)
    moreover have "byte (char_of (48 + n)) \<noteq> 48" using True 1 byte_digit [of n] by simp
    ultimately have "char_of (48 + n) \<noteq> CHR ''0''" by metis
    then show ?thesis using True by (simp add: natToString.simps [of n])
  next
    case False
    then show ?thesis using 1 natToString_digits [of "n div 10"]
      by (simp add: natToString.simps [of n])
  qed
qed

lemma octet_roundtrip:
  fixes w :: "8 word"
  shows "parseOctet (natToString (unat w)) = Some w" "list_all isDigit (natToString (unat w))"
    "natToString (unat w) \<noteq> []"
proof -
  have "unat w < 256" using unsigned_less [of w] by simp
  moreover have "hd (natToString (unat w)) \<noteq> CHR ''0''" if "1 < length (natToString (unat w))"
    using that natToString_no_leading_zero [of "unat w"]
    by (cases "unat w = 0") (auto simp: natToString.simps [of 0])
  ultimately show "parseOctet (natToString (unat w)) = Some w"
    using natToString_digits [of "unat w"]
    by (auto simp: parseOctet_def digitsVal_natToString)
qed (simp_all add: natToString_digits)

lemma Split_no_sep: "sep \<notin> set s \<Longrightarrow> Split s sep = [s]"
  by (induction s) auto

lemma Split_Join:
  "ps \<noteq> [] \<Longrightarrow> \<forall>p\<in>set ps. sep \<notin> set p \<Longrightarrow> Split (Join ps [sep]) sep = ps"
proof (induction ps rule: induct_list012)
  case (3 x y zs)
  have "Split (x @ sep # t) sep = x # Split t sep" if "sep \<notin> set x" for x t
    using that by (induction x) auto
  with 3 show ?case by simp
qed (auto simp: Split_no_sep)

lemma digits_no_punct:
  "list_all isDigit s \<Longrightarrow> CHR ''.'' \<notin> set s \<and> CHR ''/'' \<notin> set s \<and> CHR '':'' \<notin> set s \<and> CHR ''%'' \<notin> set s"
  by (auto simp: list_all_iff isDigit_def byte_def)

lemma ParseAddr_skip:
  "list_all isDigit s \<Longrightarrow> ParseAddr whole (s @ CHR ''.'' # t) =
    map_option (\<lambda>f. (v4InV6Prefix @ f, 32)) (parseIPv4Fields whole)"
  using digits_no_punct [of s] by (induction s) (auto simp: list_all_iff)

lemma parse_dotted:
  assumes "length b = 4"
  shows "ParseAddr (dotted b) (dotted b) = Some (v4InV6Prefix @ b, 32)" and "CHR ''/'' \<notin> set (dotted b)"
proof -
  obtain w x y z where b: "b = [w, x, y, z]"
    using assms by (auto simp: numeral_eq_Suc length_Suc_conv)
  let ?n = "\<lambda>v :: 8 word. natToString (unat v)"
  have d: "dotted b = ?n w @ CHR ''.'' # Join [?n x, ?n y, ?n z] ''.''" by (simp add: dotted_def b)
  have np: "\<forall>p\<in>set (map ?n b). CHR ''.'' \<notin> set p" using digits_no_punct octet_roundtrip(2) by auto
  have "parseIPv4Fields (dotted b) = Some b"
    using Split_Join [of "map ?n b" "CHR ''.''"] np
    by (simp add: parseIPv4Fields_def dotted_def b octet_roundtrip(1))
  then show "ParseAddr (dotted b) (dotted b) = Some (v4InV6Prefix @ b, 32)"
    using ParseAddr_skip [OF octet_roundtrip(2)] unfolding d by simp
  show "CHR ''/'' \<notin> set (dotted b)"
    using digits_no_punct [OF octet_roundtrip(2)] by (simp add: dotted_def b)
qed

lemma Cut_append: "sep \<notin> set a \<Longrightarrow> Cut (a @ sep # b) sep = (a, b, True)"
  by (induction a) auto

lemma mask_full: "length x = 4 \<Longrightarrow> maskBytes x (CIDRMask 32 32) = x"
proof -
  assume "length x = 4"
  then obtain a b c d where "x = [a, b, c, d]" by (auto simp: numeral_eq_Suc length_Suc_conv)
  moreover have "CIDRMask 32 32 = [- 1, - 1, - 1, - 1]" by code_simp
  ultimately show ?thesis by (simp add: maskBytes_def)
qed

lemma single_address_network:
  assumes "length b = 4"
  shows "\<exists>n. ParseCIDR (dotted b @ ''/32'') = Some n \<and>
    (\<forall>ip. length ip = 16 \<longrightarrow> IPNet_Contains n ip = (ip = v4InV6Prefix @ b))"
proof -
  have dv: "digitsVal ''32'' = 32" "list_all isDigit ''32''" by code_simp+
  have len: "length v4InV6Prefix = 12" by (simp add: v4InV6Prefix_def)
  let ?n = "\<lparr>net_IP = b, net_Mask = CIDRMask 32 32\<rparr>"
  have m: "length (CIDRMask 32 32) = 4" by (simp add: CIDRMask_def)
  have "ParseCIDR (dotted b @ ''/32'') = Some ?n"
    using Cut_append [OF parse_dotted(2) [OF assms], of "''32''"] assms dv len
    by (simp add: ParseCIDR_def parse_dotted(1) mask_full Let_def)
  moreover have "IPNet_Contains ?n ip = (ip = v4InV6Prefix @ b)" if "length ip = 16" for ip
  proof (cases "take 12 ip = v4InV6Prefix")
    case True
    then have "ip = v4InV6Prefix @ drop 12 ip" by (metis append_take_drop_id)
    with True that assms m show ?thesis
      by (auto simp: IPNet_Contains_def To4_def Let_def mask_full)
  next
    case False
    with that assms len show ?thesis by (auto simp: IPNet_Contains_def To4_def Let_def)
  qed
  ultimately show ?thesis by blast
qed

end
