(* ===== verification/Proxy.thy ===== *)
theory Proxy
  imports Router NetIP
begin

text \<open>
  The proxy handler of \<open>internal/proxy/proxy.go\<close> over \<open>httputil.ReverseProxy\<close>. The transport (the
  round trip to the upstream) and \<open>url.Parse\<close> are fields of a record of functions; so is the order
  in which Go visits the map of path parameters, of which only that it lists the map is relied on.
  Of \<open>ReverseProxy\<close> the model has what a plain exchange uses: the director, the removal of
  hop-by-hop headers on both ways, the X-Forwarded-For entry, the error handler, the copy of the
  response and the panic when copying the body fails. Protocol upgrades and trailers are left out.
\<close>

section \<open>Data\<close>

record outbound =
  ob_scheme :: string
  ob_urlHost :: string
  ob_request :: request

record response =
  rs_status :: int
  rs_header :: header
  rs_body :: string

record 'w proxy_env =
  pe_parseURL :: "string \<Rightarrow> (string \<times> string) option"
  pe_visit :: "(string \<rightharpoonup> string) \<Rightarrow> (string \<times> string) list"
  pe_roundTrip :: "int option \<Rightarrow> outbound \<Rightarrow> 'w \<Rightarrow> (string + response) \<times> 'w"

section \<open>httputil.ReverseProxy\<close>

definition hopHeaders :: "string list" where
  "hopHeaders = [''Connection'', ''Proxy-Connection'', ''Keep-Alive'', ''Proxy-Authenticate'',
     ''Proxy-Authorization'', ''Te'', ''Trailer'', ''Transfer-Encoding'', ''Upgrade'']"

definition connectionTokens :: "header \<Rightarrow> string list" where
  "connectionTokens h =
     filter (\<lambda>t. t \<noteq> []) (map TrimSpace (concat (map (\<lambda>v. Split v (CHR '','')) (Values h ''Connection''))))"

definition removeHopByHopHeaders :: "header \<Rightarrow> header" where
  "removeHopByHopHeaders h = fold Del hopHeaders (fold Del (connectionTokens h) h)"

definition forwardedFor :: "request \<Rightarrow> header \<Rightarrow> header" where
  "forwardedFor r h = (case SplitHostPort (RemoteAddr r) of
       None \<Rightarrow> h
     | Some (ip, _) \<Rightarrow>
         (let prior = Values h ''X-Forwarded-For''
          in Set ''X-Forwarded-For'' (if prior \<noteq> [] then Join prior '', '' @ '', '' @ ip else ip) h))"

definition outgoing :: "(request \<Rightarrow> outbound) \<Rightarrow> request \<Rightarrow> outbound" where
  "outgoing director r =
     (let ob = director (if ContentLength r = 0 then r\<lparr>Body := None\<rparr> else r);
          req = ob_request ob;
          h = forwardedFor r (removeHopByHopHeaders (Header req));
          h' = (if h ''User-Agent'' = None then Set ''User-Agent'' [] h else h)
      in ob\<lparr>ob_request := req\<lparr>Header := h'\<rparr>\<rparr>)"

definition copyResponse :: "response \<Rightarrow> writer \<Rightarrow> writer \<times> outcome" where
  "copyResponse res w =
     (let w1 = WriteHeader (rs_status res) (updHeader (addHeaders (removeHopByHopHeaders (rs_header res))) w)
      in if rs_body res = [] then (w1, Returned)
         else (case Write (rs_body res) w1 of
             (w2, _, err) \<Rightarrow> (w2, if err then Panicked ''net/http: abort Handler'' else Returned)))"

definition ReverseProxy ::
  "(request \<Rightarrow> outbound) \<Rightarrow> (outbound \<Rightarrow> 'w \<Rightarrow> (string + response) \<times> 'w) \<Rightarrow> (writer \<Rightarrow> writer) \<Rightarrow> 'w handler" where
  "ReverseProxy director roundTrip errorHandler r w s =
     (case roundTrip (outgoing director r) s of
        (Inl e, s') \<Rightarrow> (errorHandler w, Returned, s')
      | (Inr res, s') \<Rightarrow> (case copyResponse res w of (w', out) \<Rightarrow> (w', out, s')))"

section \<open>NewProxyHandler\<close>

fun rewritePath :: "(string \<times> string) list \<Rightarrow> string \<Rightarrow> string" where
  "rewritePath [] rewritten = rewritten"
| "rewritePath ((key, val) # ps) rewritten = rewritePath ps (ReplaceAll rewritten (''{'' @ key @ ''}'') val)"

definition Director :: "'w proxy_env \<Rightarrow> RouteConfig \<Rightarrow> string \<times> string \<Rightarrow> request \<Rightarrow> outbound" where
  "Director env routeCfg upstream req =
     (let path = (case RouteFromContext req of
            Some matched \<Rightarrow>
              if PathRewrite (Upstream routeCfg) \<noteq> [] then
                rewritePath (pe_visit env (PathParams matched)) (PathRewrite (Upstream routeCfg))
              else URLPath req
          | None \<Rightarrow> URLPath req)
      in \<lparr>ob_scheme = fst upstream, ob_urlHost = snd upstream,
          ob_request = req\<lparr>Host := snd upstream, URLPath := path\<rparr>\<rparr>)"

definition badGateway :: "writer \<Rightarrow> writer" where
  "badGateway w = writeErrorJSON 502 ''bad_gateway'' ''Upstream service unavailable'' w"

definition NewProxyHandler :: "'w proxy_env \<Rightarrow> RouteConfig \<Rightarrow> 'w handler" where
  "NewProxyHandler env routeCfg r w s =
     (case pe_parseURL env (UpstreamURL (Upstream routeCfg)) of
        None \<Rightarrow> (badGateway w, Returned, s)
      | Some upstream \<Rightarrow>
          (let timeout = UpstreamTimeout (Upstream routeCfg)
           in ReverseProxy (Director env routeCfg upstream)
                (pe_roundTrip env (if 0 < timeout then Some timeout else None)) badGateway r w s))"

section \<open>What a path template means\<close>

text \<open>A template is literal text and parameters in braces; names have no braces, literals no
  opening brace.\<close>

datatype segment = Lit string | Param string

fun render :: "segment list \<Rightarrow> string" where
  "render [] = []"
| "render (Lit t # segs) = t @ render segs"
| "render (Param k # segs) = ''{'' @ k @ ''}'' @ render segs"

definition plain_name :: "string \<Rightarrow> bool" where
  "plain_name k \<longleftrightarrow> CHR ''{'' \<notin> set k \<and> CHR ''}'' \<notin> set k"

fun template :: "segment list \<Rightarrow> bool" where
  "template [] = True"
| "template (Lit t # segs) = (CHR ''{'' \<notin> set t \<and> template segs)"
| "template (Param k # segs) = (plain_name k \<and> template segs)"

fun fill :: "(string \<rightharpoonup> string) \<Rightarrow> segment list \<Rightarrow> segment list" where
  "fill params [] = []"
| "fill params (Lit t # segs) = Lit t # fill params segs"
| "fill params (Param k # segs) = (case params k of None \<Rightarrow> Param k | Some v \<Rightarrow> Lit v) # fill params segs"

text \<open>A visit lists the map, each key once.\<close>

definition visits :: "(string \<rightharpoonup> string) \<Rightarrow> (string \<times> string) list \<Rightarrow> bool" where
  "visits m ps \<longleftrightarrow> distinct (map fst ps) \<and> map_of ps = m"

section \<open>Lemmas\<close>

lemma canon_proxy [simp]:
  "CanonicalHeaderKey ''User-Agent'' = ''User-Agent''"
  "CanonicalHeaderKey ''Connection'' = ''Connection''"
  by code_simp+

lemma acts_badGateway [intro, simp]: "acts w (badGateway w)"
  by (simp add: badGateway_def)

lemma copyResponse_acts: "copyResponse res w = (w', out) \<Longrightarrow> acts w w'"
  unfolding copyResponse_def Let_def
  by (auto split: if_splits prod.splits intro: acts_trans [OF acts_updHeader acts_WriteHeader]
      acts_trans [OF acts_trans [OF acts_updHeader acts_WriteHeader] acts_Write_eq])

lemma proxy_well_behaved: "well_behaved (NewProxyHandler env routeCfg)"
  by (rule well_behavedI)
    (auto simp: NewProxyHandler_def ReverseProxy_def Let_def dest: copyResponse_acts
      split: option.splits prod.splits sum.splits)

lemma ReplaceAll_Nil [simp]: "ReplaceAll [] old new = []"
  by (simp add: ReplaceAll.simps [of "[]"])

lemma ReplaceAll_match: "old \<noteq> [] \<Longrightarrow> ReplaceAll (old @ s) old new = new @ ReplaceAll s old new"
  by (subst ReplaceAll.simps) simp

lemma ReplaceAll_skip:
  "c \<notin> set t \<Longrightarrow> ReplaceAll (t @ s) (c # old) new = t @ ReplaceAll s (c # old) new"
  by (induction t) (auto simp: ReplaceAll.simps [of "_ # _ @ _"])

lemma brace_mismatch:
  assumes "plain_name k" and "plain_name k'" and "k \<noteq> k'"
  shows "\<not> HasPrefix (''{'' @ k' @ ''}'' @ s) (''{'' @ k @ ''}'')"
proof
  assume "HasPrefix (''{'' @ k' @ ''}'' @ s) (''{'' @ k @ ''}'')"
  then obtain t where t: "k' @ ''}'' @ s = k @ ''}'' @ t" by (auto simp: HasPrefix_iff)
  have "takeWhile (\<lambda>c. c \<noteq> CHR ''}'') (k' @ ''}'' @ s) = k'" "takeWhile (\<lambda>c. c \<noteq> CHR ''}'') (k @ ''}'' @ t) = k"
    using assms(1,2) by (auto simp: plain_name_def takeWhile_tail)
  with t assms(3) show False by simp
qed

lemma ReplaceAll_other:
  assumes "plain_name k" and "plain_name k'" and "k \<noteq> k'"
  shows "ReplaceAll (''{'' @ k' @ ''}'' @ s) (''{'' @ k @ ''}'') v =
    ''{'' @ k' @ ''}'' @ ReplaceAll s (''{'' @ k @ ''}'') v"
proof -
  have "ReplaceAll ((k' @ ''}'') @ s) (CHR ''{'' # (k @ ''}'')) v = (k' @ ''}'') @ ReplaceAll s (CHR ''{'' # (k @ ''}'')) v"
    using assms(2) by (intro ReplaceAll_skip) (simp add: plain_name_def)
  with brace_mismatch [OF assms, of s] show ?thesis by (subst ReplaceAll.simps) simp
qed

lemma ReplaceAll_render:
  assumes "template segs" and "plain_name k"
  shows "ReplaceAll (render segs) (''{'' @ k @ ''}'') v = render (fill [k \<mapsto> v] segs)"
  using assms
proof (induction segs rule: template.induct)
  case (2 t segs)
  then show ?case using ReplaceAll_skip [of "CHR ''{''" t "render segs" "k @ ''}''" v] by simp
next
  case (3 k' segs)
  show ?case
  proof (cases "k = k'")
    case True
    with 3 ReplaceAll_match [of "''{'' @ k @ ''}''" "render segs" v] show ?thesis by simp
  next
    case False
    with 3 ReplaceAll_other [of k k' "render segs" v] show ?thesis by simp
  qed
qed simp

lemma template_fill: "template segs \<Longrightarrow> \<forall>v \<in> ran params. CHR ''{'' \<notin> set v \<Longrightarrow> template (fill params segs)"
  by (induction params segs rule: fill.induct) (auto split: option.splits simp: ranI)

lemma fill_fill: "fill q (fill p segs) = fill (q ++ p) segs"
  by (induction p segs rule: fill.induct) (auto split: option.splits simp: map_add_def)

lemma rewritePath_render:
  assumes "template segs" and "distinct (map fst ps)"
    and "\<forall>(k, v) \<in> set ps. plain_name k \<and> CHR ''{'' \<notin> set v"
  shows "rewritePath ps (render segs) = render (fill (map_of ps) segs)"
  using assms
proof (induction ps arbitrary: segs)
  case Nil
  have "fill Map.empty segs = segs" for segs by (induction "Map.empty :: string \<rightharpoonup> string" segs rule: fill.induct) simp_all
  then show ?case by simp
next
  case (Cons p ps)
  obtain k v where p: "p = (k, v)" by fastforce
  with Cons.prems have kv: "plain_name k" "CHR ''{'' \<notin> set v" by auto
  have "template (fill [k \<mapsto> v] segs)" using Cons.prems(1) kv(2) by (intro template_fill) auto
  then have "rewritePath ps (render (fill [k \<mapsto> v] segs)) = render (fill (map_of ps ++ [k \<mapsto> v]) segs)"
    using Cons.IH Cons.prems by (simp add: fill_fill)
  moreover have "map_of ps ++ [k \<mapsto> v] = map_of (p # ps)" using p by (auto simp: map_add_def fun_eq_iff)
  ultimately show ?case using p ReplaceAll_render [OF Cons.prems(1) kv(1), of v] by (simp add: fun_upd_def)
qed

section \<open>Properties\<close>

text \<open>C27: When no parameter value contains an opening brace (and no parameter name a brace), path rewriting fills the template: every parameter in
  braces becomes its value, the other placeholders stay, and the order in which Go visits the parameters
  does not matter. With an opening brace in a value the order does matter, see \<open>rewrite_depends_on_order\<close>.\<close>

theorem path_rewrite_fills_template:
  assumes "template segs" and "PathRewrite (Upstream cfg) = render segs" and "render segs \<noteq> []"
    and "RouteFromContext r = Some m" and "visits (PathParams m) (pe_visit env (PathParams m))"
    and "\<forall>(k, v) \<in> set (pe_visit env (PathParams m)). plain_name k \<and> CHR ''{'' \<notin> set v"
  shows "URLPath (ob_request (Director env cfg up r)) = render (fill (PathParams m) segs)"
  using assms rewritePath_render [OF assms(1), of "pe_visit env (PathParams m)"]
  by (simp add: Director_def visits_def Let_def)

theorem path_rewrite_fills_template_witness:
  "URLPath (ob_request (Director \<lparr>pe_parseURL = (\<lambda>_. None), pe_visit = (\<lambda>_. [(''id'', ''7''), (''rest'', ''/x'')]),
       pe_roundTrip = (\<lambda>_ _ s. (Inl [], s :: unit))\<rparr>
     ((simpleRoute ''r'' [] [])\<lparr>Upstream := \<lparr>UpstreamURL = [], PathRewrite = ''/v2/{id}{rest}{tail}'', UpstreamTimeout = 0\<rparr>\<rparr>)
     (''http'', ''up'')
     ((bareRequest ''GET'' ''/users/7/x'' Map.empty)\<lparr>ctx_route := Some \<lparr>MatchedConfig = simpleRoute ''r'' [] [],
        PathParams = [''id'' \<mapsto> ''7'', ''rest'' \<mapsto> ''/x'']\<rparr>\<rparr>))) = ''/v2/7/x{tail}''"
proof -
  let ?env = "\<lparr>pe_parseURL = (\<lambda>_. None), pe_visit = (\<lambda>_. [(''id'', ''7''), (''rest'', ''/x'')]),
       pe_roundTrip = (\<lambda>_ _ s. (Inl [], s :: unit))\<rparr>"
  let ?cfg = "(simpleRoute ''r'' [] [])\<lparr>Upstream := \<lparr>UpstreamURL = [], PathRewrite = ''/v2/{id}{rest}{tail}'', UpstreamTimeout = 0\<rparr>\<rparr>"
  let ?m = "\<lparr>MatchedConfig = simpleRoute ''r'' [] [], PathParams = [''id'' \<mapsto> ''7'', ''rest'' \<mapsto> ''/x'']\<rparr>"
  let ?r = "(bareRequest ''GET'' ''/users/7/x'' Map.empty)\<lparr>ctx_route := Some ?m\<rparr>"
  let ?segs = "[Lit ''/v2/'', Param ''id'', Param ''rest'', Param ''tail'']"
  have "template ?segs" "PathRewrite (Upstream ?cfg) = render ?segs" "render ?segs \<noteq> []"
    "RouteFromContext ?r = Some ?m" "visits (PathParams ?m) (pe_visit ?env (PathParams ?m))"
    "\<forall>(k, v) \<in> set (pe_visit ?env (PathParams ?m)). plain_name k \<and> CHR ''{'' \<notin> set v"
    by (auto simp: plain_name_def visits_def fun_eq_iff)
  from path_rewrite_fills_template [OF this] show ?thesis by simp
qed

text \<open>A value with braces, which a client can put into the path, is substituted again or not
  depending on the order of the visit.\<close>

theorem rewrite_depends_on_order:
  "rewritePath [(''a'', ''{b}''), (''b'', ''x'')] ''/{a}/{b}'' = ''/x/x'' \<and>
   rewritePath [(''b'', ''x''), (''a'', ''{b}'')] ''/{a}/{b}'' = ''/{b}/x''"
  by code_simp

text \<open>A failed round trip, or an upstream URL that does not parse, is a JSON 502.\<close>

theorem proxy_failure_is_502:
  assumes "pe_parseURL env (UpstreamURL (Upstream cfg)) = None \<or>
      (\<exists>up e. pe_parseURL env (UpstreamURL (Upstream cfg)) = Some up \<and>
         fst (pe_roundTrip env (if 0 < UpstreamTimeout (Upstream cfg) then Some (UpstreamTimeout (Upstream cfg)) else None)
           (outgoing (Director env cfg up) r) s) = Inl e)"
    and "clean w" and "base_conn w = Some c0"
  shows "\<exists>s' k. NewProxyHandler env cfg r w s = (badGateway w, Returned, s') \<and> base_conn (badGateway w) = Some k \<and>
    conn_status k = Some 502 \<and> conn_body k = conn_body c0 @ errorBody ''bad_gateway'' ''Upstream service unavailable''"
proof -
  have "\<exists>s'. NewProxyHandler env cfg r w s = (badGateway w, Returned, s')"
    using assms(1)
  proof
    assume "pe_parseURL env (UpstreamURL (Upstream cfg)) = None"
    then show ?thesis by (simp add: NewProxyHandler_def)
  next
    assume "\<exists>up e. pe_parseURL env (UpstreamURL (Upstream cfg)) = Some up \<and>
         fst (pe_roundTrip env (if 0 < UpstreamTimeout (Upstream cfg) then Some (UpstreamTimeout (Upstream cfg)) else None)
           (outgoing (Director env cfg up) r) s) = Inl e"
    then show ?thesis
      by (auto simp: NewProxyHandler_def ReverseProxy_def Let_def split: prod.splits sum.splits)
  qed
  moreover obtain k where "base_conn (badGateway w) = Some k" "conn_status k = Some 502"
    "conn_body k = conn_body c0 @ errorBody ''bad_gateway'' ''Upstream service unavailable''"
    unfolding badGateway_def
    using writeErrorJSON_clean [OF assms(2) _ _ assms(3), of 502 "''bad_gateway''" "''Upstream service unavailable''"]
    by (auto simp: informational_def bodyAllowedForStatus_def)
  ultimately show ?thesis by blast
qed

theorem proxy_failure_is_502_witness:
  "\<exists>s' k. NewProxyHandler \<lparr>pe_parseURL = (\<lambda>_. Some (''http'', ''up'')), pe_visit = (\<lambda>_. []),
       pe_roundTrip = (\<lambda>_ _ s. (Inl ''connection refused'', s :: unit))\<rparr> (simpleRoute ''r'' [] [])
       (bareRequest ''GET'' ''/'' Map.empty) (ServerResponse fresh_conn) () =
     (badGateway (ServerResponse fresh_conn), Returned, s') \<and>
     base_conn (badGateway (ServerResponse fresh_conn)) = Some k \<and> conn_status k = Some 502"
proof -
  let ?env = "\<lparr>pe_parseURL = (\<lambda>_. Some (''http'', ''up'')), pe_visit = (\<lambda>_. []),
       pe_roundTrip = (\<lambda>_ _ s. (Inl ''connection refused'', s :: unit))\<rparr>"
  have "clean (ServerResponse fresh_conn)" "base_conn (ServerResponse fresh_conn) = Some fresh_conn"
    by (simp_all add: fresh_conn_def)
  from proxy_failure_is_502 [OF _ this, of ?env "simpleRoute ''r'' [] []" "bareRequest ''GET'' ''/'' Map.empty" "()"]
  show ?thesis by (simp add: simpleRoute_def) blast
qed

end
