(* ===== verification/RateLimit.thy ===== *)
theory RateLimit
  imports Middleware NetIP Limiter
begin

text \<open>
  The rate limit middleware, \<open>internal/middleware/ratelimit/ratelimit.go\<close>: the key of a request
  (client address behind trusted proxies, header or claim), and the handler that asks the limiter.
  The limiter is an argument, see locale \<open>limiter\<close>. SHA-256, the formatting of a float and the
  JSON encoder for claims that are objects are fields of a record of library functions.
\<close>

section \<open>Trusted proxies\<close>

datatype proxy_error = InvalidProxyIP string | InvalidProxyCIDR string

text \<open>\<open>v6String\<close> stands for \<open>IP.String\<close> on an IPv6 address.\<close>

fun ParseTrustedProxies :: "(IP \<Rightarrow> string) \<Rightarrow> string list \<Rightarrow> proxy_error + IPNet list" where
  "ParseTrustedProxies v6String [] = Inr []"
| "ParseTrustedProxies v6String (entry # rest) =
     (case (if \<not> Contains entry ''/'' then
              (case ParseIP entry of
                 None \<Rightarrow> Inl (InvalidProxyIP entry)
               | Some ip \<Rightarrow> Inr (case To4 ip of
                     Some b \<Rightarrow> dotted b @ ''/32''
                   | None \<Rightarrow> v6String ip @ ''/128''))
            else Inr entry) of
        Inl e \<Rightarrow> Inl e
      | Inr cidr \<Rightarrow>
          (case ParseCIDR cidr of
             None \<Rightarrow> Inl (InvalidProxyCIDR cidr)
           | Some n \<Rightarrow>
               (case ParseTrustedProxies v6String rest of
                  Inl e \<Rightarrow> Inl e
                | Inr ns \<Rightarrow> Inr (n # ns))))"

fun isTrusted :: "IP \<Rightarrow> IPNet list \<Rightarrow> bool" where
  "isTrusted ip [] = False"
| "isTrusted ip (n # ns) = (if IPNet_Contains n ip then True else isTrusted ip ns)"

section \<open>The client address\<close>

definition remoteAddrIP :: "request \<Rightarrow> string" where
  "remoteAddrIP r = (case SplitHostPort (RemoteAddr r) of None \<Rightarrow> RemoteAddr r | Some (host, _) \<Rightarrow> host)"

text \<open>The loop over the entries of X-Forwarded-For, last entry first.\<close>

fun firstUntrusted :: "IPNet list \<Rightarrow> string list \<Rightarrow> string option" where
  "firstUntrusted nets [] = None"
| "firstUntrusted nets (p # ps) =
     (let candidate = TrimSpace p
      in case ParseIP candidate of
           None \<Rightarrow> firstUntrusted nets ps
         | Some ip \<Rightarrow> if \<not> isTrusted ip nets then Some candidate else firstUntrusted nets ps)"

definition extractIP :: "request \<Rightarrow> IPNet list \<Rightarrow> string" where
  "extractIP r trustedProxies =
     (let addr = remoteAddrIP r
      in if trustedProxies = [] then addr
         else (case ParseIP addr of
             None \<Rightarrow> addr
           | Some remoteIP \<Rightarrow>
               if \<not> isTrusted remoteIP trustedProxies then addr
               else (let xff = Get (Header r) ''X-Forwarded-For''
                     in if xff = [] then addr
                        else (case firstUntrusted trustedProxies (rev (Split xff (CHR '',''))) of
                            Some c \<Rightarrow> c
                          | None \<Rightarrow> addr))))"

section \<open>Keys\<close>

record rl_lib =
  sha256 :: "string \<Rightarrow> 8 word list"
  FormatFloat :: "rat \<Rightarrow> string"
  Marshal :: "json \<Rightarrow> string option"

definition truncateKey :: "rl_lib \<Rightarrow> string \<Rightarrow> string" where
  "truncateKey lib val = (if 256 < length val then hexBytes (take 16 (sha256 lib val)) else val)"

definition claimString :: "rl_lib \<Rightarrow> json \<Rightarrow> string option" where
  "claimString lib v = (case v of
       JNull \<Rightarrow> None
     | JStr s \<Rightarrow> Some s
     | JNum q \<Rightarrow> Some (FormatFloat lib q)
     | JBool b \<Rightarrow> Some (if b then ''true'' else ''false'')
     | _ \<Rightarrow> Marshal lib v)"

definition extractKey :: "rl_lib \<Rightarrow> request \<Rightarrow> string \<Rightarrow> IPNet list \<Rightarrow> string" where
  "extractKey lib r keySource trustedProxies =
     (if keySource = [] \<or> keySource = ''ip'' then extractIP r trustedProxies
      else if HasPrefix keySource ''header:'' then
        (let val = Get (Header r) (TrimPrefix keySource ''header:'')
         in if val = [] then extractIP r trustedProxies else truncateKey lib val)
      else if HasPrefix keySource ''claim:'' then
        (case Option.bind (ResultFromContext r) (\<lambda>ar. Claims ar) of
           None \<Rightarrow> extractIP r trustedProxies
         | Some claims \<Rightarrow>
             (case Option.bind (claims (TrimPrefix keySource ''claim:'')) (claimString lib) of
                None \<Rightarrow> extractIP r trustedProxies
              | Some s \<Rightarrow> truncateKey lib s))
      else extractIP r trustedProxies)"

definition compositeKey :: "string \<Rightarrow> string \<Rightarrow> string \<Rightarrow> string \<Rightarrow> string" where
  "compositeKey algorithm route mwName extracted =
     ''rl:'' @ algorithm @ '':'' @ route @ '':'' @ mwName @ '':'' @ extracted"

section \<open>The middleware\<close>

definition tooManyBody :: "int \<Rightarrow> string" where
  "tooManyBody retryAfter =
     ''{'' @ jsonQuote ''error'' @ '':'' @ jsonQuote ''rate_limit_exceeded'' @ '','' @
     jsonQuote ''message'' @ '':'' @
     jsonQuote (''Rate limit exceeded. Try again in '' @ Itoa retryAfter @ '' seconds.'') @ '','' @
     jsonQuote ''retry_after'' @ '':'' @ Itoa retryAfter @ ''}'' @ [char_of (10::nat)]"

definition rateHeaders :: "int \<Rightarrow> int \<Rightarrow> int \<Rightarrow> header \<Rightarrow> header" where
  "rateHeaders limit remaining resetAt h =
     Set ''X-RateLimit-Reset'' (Itoa (Unix resetAt))
       (Set ''X-RateLimit-Remaining'' (Itoa remaining)
         (Set ''X-RateLimit-Limit'' (Itoa limit) h))"

definition tooMany :: "int \<Rightarrow> int \<Rightarrow> writer \<Rightarrow> writer" where
  "tooMany now resetAt w =
     (let retryAfter = max (Unix resetAt - Unix now) 1
      in fst (Write (tooManyBody retryAfter)
           (WriteHeader 429
             (updHeader (\<lambda>h. Set ''Content-Type'' ''application/json''
                (Set ''Retry-After'' (Itoa retryAfter) h)) w))))"

text \<open>The functions of the world: the limiter, the clock and the two counters of the metrics
  collector (the identity where the collector is nil).\<close>

record 'w rl_env =
  rl_allow :: "string \<Rightarrow> int \<Rightarrow> int \<Rightarrow> string \<Rightarrow> 'w \<Rightarrow> answer \<times> 'w"
  rl_now :: "'w \<Rightarrow> int"
  incErrors :: "string \<Rightarrow> string \<Rightarrow> 'w \<Rightarrow> 'w"
  incRejected :: "string \<Rightarrow> string \<Rightarrow> 'w \<Rightarrow> 'w"

definition NewRateLimitMiddleware ::
  "rl_lib \<Rightarrow> 'w rl_env \<Rightarrow> RateLimitConfig option \<Rightarrow> string \<Rightarrow> string \<Rightarrow> IPNet list \<Rightarrow> 'w middleware" where
  "NewRateLimitMiddleware lib env cfg route mwName trustedProxies nxt r w s =
     (case cfg of
        None \<Rightarrow> nxt r w s
      | Some c \<Rightarrow>
          (let key = compositeKey (AlgorithmName c) route mwName
                       (extractKey lib r (KeySource c) trustedProxies)
           in case rl_allow env key (Requests c) (Window c) (AlgorithmName c) s of
                (None, s1) \<Rightarrow> nxt r w (incErrors env route mwName s1)
              | (Some (allowed, remaining, resetAt), s1) \<Rightarrow>
                  (let w1 = updHeader (rateHeaders (Requests c) remaining resetAt) w
                   in if \<not> allowed
                      then (tooMany (rl_now env s1) resetAt w1, Returned,
                            incRejected env route mwName s1)
                      else nxt r w1 s1)))"

section \<open>Examples\<close>

text \<open>A request that came over a connection from \<open>addr\<close> with the given X-Forwarded-For lines,
  and the network 10.0.0.0/8.\<close>

definition proxied :: "string \<Rightarrow> string list \<Rightarrow> request" where
  "proxied addr xff = (bareRequest ''GET'' ''/'' (\<lambda>k. if k = ''X-Forwarded-For'' \<and> xff \<noteq> [] then Some xff else None))
     \<lparr>RemoteAddr := addr\<rparr>"

definition net10 :: IPNet where
  "net10 = \<lparr>net_IP = [10, 0, 0, 0], net_Mask = [255, 0, 0, 0]\<rparr>"

section \<open>Lemmas\<close>

lemma canon_ratelimit [simp]:
  "CanonicalHeaderKey ''Retry-After'' = ''Retry-After''"
  "CanonicalHeaderKey ''X-RateLimit-Limit'' = ''X-Ratelimit-Limit''"
  "CanonicalHeaderKey ''X-RateLimit-Remaining'' = ''X-Ratelimit-Remaining''"
  "CanonicalHeaderKey ''X-RateLimit-Reset'' = ''X-Ratelimit-Reset''"
  "CanonicalHeaderKey ''X-Forwarded-For'' = ''X-Forwarded-For''"
  by code_simp+

lemma acts_tooMany [intro, simp]: "acts w (tooMany now resetAt w)"
  unfolding tooMany_def Let_def by (meson acts_Write acts_WriteHeader acts_trans acts_updHeader)

interpretation rateLimit: wellbehaved "NewRateLimitMiddleware lib env cfg route mwName nets"
proof
  fix nxt :: "'a handler"
  assume nx: "well_behaved nxt"
  show "well_behaved (NewRateLimitMiddleware lib env cfg route mwName nets nxt)"
    by (rule well_behavedI)
      (auto simp: NewRateLimitMiddleware_def Let_def split: prod.splits option.splits if_splits
        dest!: well_behavedD [OF nx] intro: acts_trans [OF acts_updHeader])
qed

lemma Split_append: "Split (s @ sep # t) sep = Split s sep @ Split t sep"
  by (induction s) (auto split: list.splits)

lemma firstUntrusted_append:
  "firstUntrusted nets (ps @ qs) =
    (case firstUntrusted nets ps of Some c \<Rightarrow> Some c | None \<Rightarrow> firstUntrusted nets qs)"
  by (induction ps) (auto simp: Let_def split: option.splits)

lemma firstUntrusted_skip:
  "\<forall>x \<in> set ps. \<forall>ip. ParseIP (TrimSpace x) = Some ip \<longrightarrow> isTrusted ip nets \<Longrightarrow> firstUntrusted nets ps = None"
  by (induction ps) (auto simp: Let_def split: option.splits)

lemma tooMany_clean:
  assumes "clean w" and "base_conn w = Some c0"
  shows "\<exists>c. base_conn (tooMany now resetAt w) = Some c \<and> conn_status c = Some 429 \<and>
    conn_sent c = Set ''Content-Type'' ''application/json''
      (Set ''Retry-After'' (Itoa (max (Unix resetAt - Unix now) 1)) (headers w)) \<and>
    conn_body c = conn_body c0 @ tooManyBody (max (Unix resetAt - Unix now) 1)"
  unfolding tooMany_def Let_def
  by (rule answer_clean [OF assms(1) _ _ assms(2)])
    (simp_all add: informational_def bodyAllowedForStatus_def tooManyBody_def)

lemma append_sep_eq:
  "c \<notin> set a \<Longrightarrow> c \<notin> set b \<Longrightarrow> a @ c # x = b @ c # y \<longleftrightarrow> a = b \<and> x = y"
proof (induction a arbitrary: b)
  case Nil
  then show ?case by (cases b) auto
next
  case (Cons d a)
  then show ?case by (cases b) auto
qed

section \<open>Properties\<close>

text \<open>C23: What the limiter answers decides what becomes of the request. When it errs, the request passes
  unchanged and the error is counted. When it admits, the request passes with the rate headers set. When
  it refuses, the request goes no further: the handler below is not called (the answer is the same for
  every handler), the client gets a 429 with the rate headers, with \<open>Retry-After\<close> the whole seconds until
  the reset time and at least one, and the rejection is counted.\<close>

theorem rate_limit_decides:
  assumes "rl_allow env (compositeKey (AlgorithmName c) route mwName (extractKey lib r (KeySource c) nets))
      (Requests c) (Window c) (AlgorithmName c) s = (answer, s1)"
    and "clean w" and "base_conn w = Some c0"
  shows "case answer of
      None \<Rightarrow> \<forall>nxt. NewRateLimitMiddleware lib env (Some c) route mwName nets nxt r w s = nxt r w (incErrors env route mwName s1)
    | Some (True, remaining, resetAt) \<Rightarrow>
        \<exists>w1. (\<forall>nxt. NewRateLimitMiddleware lib env (Some c) route mwName nets nxt r w s = nxt r w1 s1) \<and>
          Get (headers w1) ''X-RateLimit-Limit'' = Itoa (Requests c) \<and>
          Get (headers w1) ''X-RateLimit-Remaining'' = Itoa remaining \<and>
          Get (headers w1) ''X-RateLimit-Reset'' = Itoa (Unix resetAt)
    | Some (False, remaining, resetAt) \<Rightarrow>
        \<exists>u k. (\<forall>nxt. NewRateLimitMiddleware lib env (Some c) route mwName nets nxt r w s =
            (u, Returned, incRejected env route mwName s1)) \<and>
          base_conn u = Some k \<and> conn_status k = Some 429 \<and>
          Get (conn_sent k) ''Retry-After'' = Itoa (max (Unix resetAt - Unix (rl_now env s1)) 1) \<and>
          Get (conn_sent k) ''X-RateLimit-Limit'' = Itoa (Requests c) \<and>
          Get (conn_sent k) ''X-RateLimit-Remaining'' = Itoa remaining \<and>
          Get (conn_sent k) ''X-RateLimit-Reset'' = Itoa (Unix resetAt) \<and>
          conn_body k = conn_body c0 @ tooManyBody (max (Unix resetAt - Unix (rl_now env s1)) 1)"
proof (cases answer)
  case None
  with assms(1) show ?thesis by (simp add: NewRateLimitMiddleware_def Let_def)
next
  case (Some x)
  obtain ok remaining resetAt where x: "answer = Some (ok, remaining, resetAt)"
    using Some by (cases x) auto
  let ?w = "updHeader (rateHeaders (Requests c) remaining resetAt) w"
  show ?thesis
  proof (cases ok)
    case True
    have "NewRateLimitMiddleware lib env (Some c) route mwName nets nxt r w s = nxt r ?w s1" for nxt
      using assms(1) x True by (simp add: NewRateLimitMiddleware_def Let_def)
    with x True show ?thesis
      by (auto simp: rateHeaders_def intro!: exI [of _ ?w])
  next
    case False
    let ?u = "tooMany (rl_now env s1) resetAt ?w"
    obtain c1 where c1: "base_conn ?w = Some c1" "conn_body c1 = conn_body c0"
      using assms(2,3) by (induction w) auto
    from tooMany_clean [OF _ c1(1), of "rl_now env s1" resetAt] assms(2) c1(2)
    obtain k where k: "base_conn ?u = Some k" "conn_status k = Some 429"
      "conn_sent k = Set ''Content-Type'' ''application/json''
        (Set ''Retry-After'' (Itoa (max (Unix resetAt - Unix (rl_now env s1)) 1)) (headers ?w))"
      "conn_body k = conn_body c0 @ tooManyBody (max (Unix resetAt - Unix (rl_now env s1)) 1)" by auto
    have "NewRateLimitMiddleware lib env (Some c) route mwName nets nxt r w s =
        (?u, Returned, incRejected env route mwName s1)" for nxt
      using assms(1) x False by (simp add: NewRateLimitMiddleware_def Let_def)
    with k have "\<exists>u k. (\<forall>nxt. NewRateLimitMiddleware lib env (Some c) route mwName nets nxt r w s =
            (u, Returned, incRejected env route mwName s1)) \<and>
          base_conn u = Some k \<and> conn_status k = Some 429 \<and>
          Get (conn_sent k) ''Retry-After'' = Itoa (max (Unix resetAt - Unix (rl_now env s1)) 1) \<and>
          Get (conn_sent k) ''X-RateLimit-Limit'' = Itoa (Requests c) \<and>
          Get (conn_sent k) ''X-RateLimit-Remaining'' = Itoa remaining \<and>
          Get (conn_sent k) ''X-RateLimit-Reset'' = Itoa (Unix resetAt) \<and>
          conn_body k = conn_body c0 @ tooManyBody (max (Unix resetAt - Unix (rl_now env s1)) 1)"
      by (intro exI [of _ ?u] exI [of _ k]) (simp add: rateHeaders_def)
    with x False show ?thesis by simp
  qed
qed

theorem rate_limit_decides_witness:
  "\<exists>u k. NewRateLimitMiddleware \<lparr>sha256 = (\<lambda>_. []), FormatFloat = (\<lambda>_. []), Marshal = (\<lambda>_. None)\<rparr>
      \<lparr>rl_allow = (\<lambda>_ _ _ _ n. (Some (False, 0, 90000000000), n)), rl_now = (\<lambda>_. 30000000000),
        incErrors = (\<lambda>_ _ n. n), incRejected = (\<lambda>_ _ n. n + 1)\<rparr>
      (Some \<lparr>Requests = 5, Window = 60000000000, KeySource = [], AlgorithmName = ''sliding_window''\<rparr>)
      ''api'' ''rl'' [] (\<lambda>r w s. (w, Panicked [], s)) (proxied ''9.9.9.9:1'' [])
      (ServerResponse fresh_conn) (0 :: nat) = (u, Returned, 1) \<and>
    base_conn u = Some k \<and> conn_status k = Some 429 \<and> Get (conn_sent k) ''Retry-After'' = ''60''"
proof -
  let ?lib = "\<lparr>sha256 = (\<lambda>_. []), FormatFloat = (\<lambda>_. []), Marshal = (\<lambda>_. None)\<rparr>"
  let ?env = "\<lparr>rl_allow = (\<lambda>_ _ _ _ n. (Some (False, 0, 90000000000), n)), rl_now = (\<lambda>_. 30000000000),
        incErrors = (\<lambda>_ _ n. n), incRejected = (\<lambda>_ _ n. n + 1)\<rparr> :: nat rl_env"
  have i: "Itoa (max (Unix 90000000000 - Unix 30000000000) 1) = ''60''" by code_simp
  have a: "clean (ServerResponse fresh_conn)" "base_conn (ServerResponse fresh_conn) = Some fresh_conn"
    by (simp_all add: fresh_conn_def)
  from rate_limit_decides [where env = ?env and lib = ?lib and nets = "[]" and route = "''api''"
      and mwName = "''rl''" and r = "proxied ''9.9.9.9:1'' []" and s = 0 and ?s1.0 = 0
      and c = "\<lparr>Requests = 5, Window = 60000000000, KeySource = [], AlgorithmName = ''sliding_window''\<rparr>"
      and answer = "Some (False, 0, 90000000000)", OF _ a] i
  show ?thesis by auto
qed

text \<open>C24: The client address cannot be forged through the part of X-Forwarded-For that the client wrote on
  the line the proxies continue. When the connection comes from a trusted proxy and, on the first
  X-Forwarded-For line, the entries appended after the client's text hold an untrusted address, the key is
  the last such entry, whatever text comes before. (Further lines are not read, see
  \<open>second_forwarded_line_ignored\<close>.)\<close>

theorem extractIP_ignores_client_prefix:
  assumes "Get (Header r) ''X-Forwarded-For'' = forged @ CHR '','' # appended"
    and "ParseIP (remoteAddrIP r) = Some remote" and "isTrusted remote nets"
    and "Split appended (CHR '','') = before @ entry # after"
    and "ParseIP (TrimSpace entry) = Some ip" and "\<not> isTrusted ip nets"
    and "\<forall>x \<in> set after. \<forall>ip. ParseIP (TrimSpace x) = Some ip \<longrightarrow> isTrusted ip nets"
  shows "extractIP r nets = TrimSpace entry"
proof -
  have "nets \<noteq> []" using assms(3) by auto
  with assms(1-6) firstUntrusted_skip [of "rev after" nets] assms(7) show ?thesis
    by (simp add: extractIP_def Let_def Split_append firstUntrusted_append)
qed

theorem extractIP_ignores_client_prefix_witness:
  "extractIP (proxied ''10.0.0.1:443'' [''1.2.3.4, 8.8.8.8, 10.0.0.9'']) [net10] = ''8.8.8.8''"
proof -
  let ?r = "proxied ''10.0.0.1:443'' [''1.2.3.4, 8.8.8.8, 10.0.0.9'']"
  have h: "Get (Header ?r) ''X-Forwarded-For'' = ''1.2.3.4'' @ CHR '','' # '' 8.8.8.8, 10.0.0.9''"
    "ParseIP (remoteAddrIP ?r) = Some (v4InV6Prefix @ [10, 0, 0, 1])"
    "isTrusted (v4InV6Prefix @ [10, 0, 0, 1]) [net10]"
    "Split '' 8.8.8.8, 10.0.0.9'' (CHR '','') = [] @ '' 8.8.8.8'' # ['' 10.0.0.9'']"
    "ParseIP (TrimSpace '' 8.8.8.8'') = Some (v4InV6Prefix @ [8, 8, 8, 8])"
    "\<not> isTrusted (v4InV6Prefix @ [8, 8, 8, 8]) [net10]"
    "TrimSpace '' 8.8.8.8'' = ''8.8.8.8''"
    "ParseIP (TrimSpace '' 10.0.0.9'') = Some (v4InV6Prefix @ [10, 0, 0, 9])"
    "isTrusted (v4InV6Prefix @ [10, 0, 0, 9]) [net10]"
    by code_simp+
  have after: "\<forall>x \<in> set ['' 10.0.0.9'']. \<forall>ip. ParseIP (TrimSpace x) = Some ip \<longrightarrow> isTrusted ip [net10]"
    using h(8,9) by auto
  from extractIP_ignores_client_prefix [OF h(1-6) after] h(7) show ?thesis by simp
qed

text \<open>A client that is not a trusted proxy cannot influence its key at all: whatever headers it
  sends, the key is the address of its connection. And behind proxies the key is never the
  address of a trusted proxy from the header.\<close>

theorem extractIP_untrusted_peer:
  assumes "\<forall>ip. ParseIP (remoteAddrIP r) = Some ip \<longrightarrow> \<not> isTrusted ip nets"
  shows "extractIP (r\<lparr>Header := h\<rparr>) nets = remoteAddrIP r"
proof -
  have "remoteAddrIP (r\<lparr>Header := h\<rparr>) = remoteAddrIP r"
    by (simp add: remoteAddrIP_def split: option.split)
  with assms show ?thesis by (auto simp: extractIP_def Let_def split: option.splits)
qed

theorem extractIP_untrusted_peer_witness:
  "extractIP ((proxied ''9.9.9.9:443'' [])\<lparr>Header := [''X-Forwarded-For'' \<mapsto> [''1.2.3.4'']]\<rparr>) [net10] =
    ''9.9.9.9''"
proof -
  let ?r = "proxied ''9.9.9.9:443'' []"
  have r: "remoteAddrIP ?r = ''9.9.9.9''" by code_simp
  have p: "ParseIP ''9.9.9.9'' = Some (v4InV6Prefix @ [9, 9, 9, 9])"
    "\<not> isTrusted (v4InV6Prefix @ [9, 9, 9, 9]) [net10]" by code_simp+
  have "\<forall>ip. ParseIP (remoteAddrIP ?r) = Some ip \<longrightarrow> \<not> isTrusted ip [net10]" using r p by simp
  from extractIP_untrusted_peer [OF this] r show ?thesis by simp
qed

text \<open>C25: A trusted proxy given as a bare IPv4 address trusts that address and no other: its text
  is read back, widened to a /32 network and contains exactly the one address.\<close>

theorem bare_proxy_trusts_one_address:
  assumes "length b = 4"
  shows "\<exists>n. ParseTrustedProxies v6String [dotted b] = Inr [n] \<and>
    (\<forall>ip. length ip = 16 \<longrightarrow> isTrusted ip [n] = (ip = v4InV6Prefix @ b))"
proof -
  obtain n where n: "ParseCIDR (dotted b @ ''/32'') = Some n"
    "\<forall>ip. length ip = 16 \<longrightarrow> IPNet_Contains n ip = (ip = v4InV6Prefix @ b)"
    using single_address_network [OF assms] by blast
  have "ParseIP (dotted b) = Some (v4InV6Prefix @ b)" "\<not> Contains (dotted b) ''/''"
    using parse_dotted [OF assms] by (simp_all add: ParseIP_def)
  moreover have "To4 (v4InV6Prefix @ b) = Some b"
    using assms by (simp add: To4_def v4InV6Prefix_def)
  ultimately show ?thesis using n by (intro exI [of _ n]) simp
qed

theorem bare_proxy_trusts_one_address_witness:
  "\<exists>n. ParseTrustedProxies (\<lambda>_. []) [dotted [10, 0, 0, 1]] = Inr [n] \<and>
    isTrusted (v4InV6Prefix @ [10, 0, 0, 1]) [n] \<and> \<not> isTrusted (v4InV6Prefix @ [10, 0, 0, 2]) [n]"
proof -
  have len: "length (v4InV6Prefix @ [10, 0, 0, 1]) = 16" "length (v4InV6Prefix @ [10, 0, 0, 2]) = 16"
    by (simp_all add: v4InV6Prefix_def)
  obtain n where n: "ParseTrustedProxies (\<lambda>_. []) [dotted [10, 0, 0, 1]] = Inr [n]"
    "\<forall>ip. length ip = 16 \<longrightarrow> isTrusted ip [n] = (ip = v4InV6Prefix @ [10, 0, 0, 1])"
    using bare_proxy_trusts_one_address [of "[10, 0, 0, 1]" "\<lambda>_. []"] by auto
  have "v4InV6Prefix @ [10, 0, 0, 2] \<noteq> v4InV6Prefix @ [10, 0, 0, 1]" by simp
  with n len show ?thesis by blast
qed

text \<open>Only the first X-Forwarded-For line counts. A trusted proxy that appends its own line
  instead of extending the client's leaves the client in control: the address of the client's
  line becomes the key, not the one the proxy reported.\<close>

theorem second_forwarded_line_ignored:
  "extractIP (proxied ''10.0.0.1:443'' [''6.6.6.6'', ''8.8.8.8'']) [net10] = ''6.6.6.6'' \<and>
   extractIP (proxied ''10.0.0.1:443'' [''6.6.6.6, 8.8.8.8'']) [net10] = ''8.8.8.8''"
  by code_simp

text \<open>Two limits share a counter only if they are the same limit: with algorithm, route and
  middleware names free of colons, equal composite keys mean equal algorithm, route, middleware
  and client.\<close>

theorem compositeKey_injective:
  assumes "CHR '':'' \<notin> set a" "CHR '':'' \<notin> set route" "CHR '':'' \<notin> set mw"
    and "CHR '':'' \<notin> set a'" "CHR '':'' \<notin> set route'" "CHR '':'' \<notin> set mw'"
  shows "compositeKey a route mw k = compositeKey a' route' mw' k' \<longleftrightarrow>
    a = a' \<and> route = route' \<and> mw = mw' \<and> k = k'"
  using assms by (simp add: compositeKey_def append_sep_eq)

theorem compositeKey_injective_witness:
  "compositeKey ''leaky_bucket'' ''api'' ''rl'' ''1::2'' \<noteq> compositeKey ''leaky_bucket'' ''api'' ''rl'' ''1::3''"
  using compositeKey_injective [of "''leaky_bucket''" "''api''" "''rl''" "''leaky_bucket''" "''api''" "''rl''"
      "''1::2''" "''1::3''"] by simp

text \<open>A colon in a name lets two different limits share one counter.\<close>

theorem compositeKey_collision:
  "compositeKey ''leaky_bucket'' ''api:v1'' ''rl'' k = compositeKey ''leaky_bucket'' ''api'' ''v1:rl'' k"
  by (simp add: compositeKey_def)

end
