(* ===== verification/Retry.thy ===== *)
theory Retry
  imports Middleware Float64
begin

text \<open>
  The resilience handlers of \<open>internal/middleware/retry/retry.go\<close>: \<open>Retry\<close> (attempts with backoff,
  optionally through the circuit breaker) and \<open>WithCircuitBreaker\<close>. Every attempt is served into a
  fresh recorder; the variable \<open>rec\<close> that the closure passed to \<open>Execute\<close> assigns is a component
  of the world \<open>Execute\<close> runs in. What the handler needs of its surroundings (the context's
  \<open>Done\<close>, \<open>sleep\<close>, random numbers, \<open>math.Pow\<close>, whether reading the body fails) is a record of
  functions. Header maps are read at canonical keys, as every handler here writes them.
\<close>

section \<open>Surroundings\<close>

record 'w breaker_ops =
  bo_now :: "'w \<Rightarrow> int"
  bo_get :: "'w \<Rightarrow> CircuitBreaker"
  bo_put :: "CircuitBreaker \<Rightarrow> 'w \<Rightarrow> 'w"
  bo_onChange :: "State \<Rightarrow> State \<Rightarrow> 'w \<Rightarrow> 'w"

record 'w retry_env =
  rt_done :: "'w \<Rightarrow> bool"
  rt_sleep :: "int \<Rightarrow> 'w \<Rightarrow> 'w"
  rt_rand :: "'w \<Rightarrow> rat \<times> 'w"
  rt_pow :: "rat \<Rightarrow> rat \<Rightarrow> rat"
  rt_readFails :: "request \<Rightarrow> bool"
  rt_detect :: "string \<Rightarrow> string"

definition maxRetryBodySize :: nat where
  "maxRetryBodySize = 10 * 2 ^ 20"

section \<open>Recorded responses\<close>

text \<open>The recorder behind a writer; a handler leaves a recorder where it was given one.\<close>

definition recorder :: "writer \<Rightarrow> recorder_fields" where
  "recorder w = (case w of ResponseRecorder f \<Rightarrow> f | _ \<Rightarrow> NewRecorder (\<lambda>_. []))"

abbreviation freshRecorder :: "(string \<Rightarrow> string) \<Rightarrow> writer" where
  "freshRecorder detect \<equiv> ResponseRecorder (NewRecorder detect)"

abbreviation rec_code :: "writer \<Rightarrow> int" where
  "rec_code rec \<equiv> rec_Code (recorder rec)"

definition copyRecorderToWriter :: "writer \<Rightarrow> writer \<Rightarrow> writer" where
  "copyRecorderToWriter rec w =
     fst (Write (rec_Body (recorder rec))
       (WriteHeader (rec_code rec) (updHeader (addHeaders (rec_HeaderMap (recorder rec))) w)))"

definition upstreamError :: "int \<Rightarrow> string" where
  "upstreamError code = ''upstream returned '' @ Itoa code"

section \<open>One attempt\<close>

text \<open>The function given to \<open>Execute\<close>: the world is paired with the variable \<open>rec\<close>.\<close>

definition attemptFn ::
  "(string \<Rightarrow> string) \<Rightarrow> 'w handler \<Rightarrow> request \<Rightarrow> 'w \<times> writer \<Rightarrow> (string, string) fn_result \<times> 'w \<times> writer" where
  "attemptFn detect proxy clone sr =
     (case proxy clone (freshRecorder detect) (fst sr) of
        (rec, Panicked p, s') \<Rightarrow> (FnPanic p, s', rec)
      | (rec, Returned, s') \<Rightarrow>
          if 500 \<le> rec_code rec then (FnErr (upstreamError (rec_code rec)), s', rec)
          else (FnNil, s', rec))"

definition executeWith ::
  "'w breaker_ops \<Rightarrow> ('w \<times> writer \<Rightarrow> (string, string) fn_result \<times> 'w \<times> writer) \<Rightarrow> 'w \<times> writer \<Rightarrow>
   (string, string) exec_result \<times> 'w \<times> writer" where
  "executeWith ops fn sr =
     Execute (\<lambda>x. bo_now ops (fst x)) (\<lambda>x. bo_get ops (fst x)) (\<lambda>cb x. (bo_put ops cb (fst x), snd x))
       (\<lambda>a b x. (bo_onChange ops a b (fst x), snd x)) fn sr"

text \<open>An attempt of \<open>retryHandler\<close>: through the breaker if there is one.\<close>

definition attempt ::
  "(string \<Rightarrow> string) \<Rightarrow> 'w breaker_ops option \<Rightarrow> 'w handler \<Rightarrow> request \<Rightarrow> 'w \<Rightarrow>
   (string, string) exec_result \<times> 'w \<times> writer" where
  "attempt detect cb proxy clone s =
     (case cb of
        Some ops \<Rightarrow> executeWith ops (attemptFn detect proxy clone) (s, freshRecorder detect)
      | None \<Rightarrow>
          (case proxy clone (freshRecorder detect) s of
             (rec, Panicked p, s') \<Rightarrow> (ExecPanic p, s', rec)
           | (rec, Returned, s') \<Rightarrow> (ExecNil, s', rec)))"

section \<open>cbOnlyHandler\<close>

definition cbOnly_ServeHTTP :: "(string \<Rightarrow> string) \<Rightarrow> 'w breaker_ops \<Rightarrow> 'w handler \<Rightarrow> 'w handler" where
  "cbOnly_ServeHTTP detect ops proxy r w s =
     (case executeWith ops (attemptFn detect proxy r) (s, freshRecorder detect) of
        (ErrCircuitOpen, s', rec) \<Rightarrow>
          (writeErrorJSON 503 ''service_unavailable'' ''circuit breaker is open'' w, Returned, s')
      | (ExecPanic p, s', rec) \<Rightarrow> (w, Panicked p, s')
      | (_, s', rec) \<Rightarrow> (copyRecorderToWriter rec w, Returned, s'))"

section \<open>retryHandler\<close>

text \<open>The conversion of a float64 to \<open>time.Duration\<close>; out of range amd64 gives the least int64.\<close>

definition toDuration :: "rat \<Rightarrow> int" where
  "toDuration x =
     (if of_int minInt64 \<le> x \<and> x < 2 ^ 63 then (if 0 \<le> x then \<lfloor>x\<rfloor> else \<lceil>x\<rceil>) else minInt64)"

definition backoffDelay :: "(rat \<Rightarrow> rat \<Rightarrow> rat) \<Rightarrow> RetryConfig \<Rightarrow> int \<Rightarrow> rat" where
  "backoffDelay pow cfg n =
     fl (fl (of_int (InitialDelay cfg)) * pow (Multiplier cfg) (fl (of_int (n - 1))))"

definition backoff :: "'w retry_env \<Rightarrow> RetryConfig \<Rightarrow> int \<Rightarrow> 'w \<Rightarrow> int \<times> 'w" where
  "backoff env cfg n s =
     (case rt_rand env s of
        (x, s') \<Rightarrow> (toDuration (fl (backoffDelay (rt_pow env) cfg n * fl (1 / 2 + x))), s'))"

definition cloneRequest :: "request \<Rightarrow> string option \<Rightarrow> request" where
  "cloneRequest r bodyBytes = (case bodyBytes of
       None \<Rightarrow> r
     | Some b \<Rightarrow> r\<lparr>Body := Some b, ContentLength := int (length b)\<rparr>)"

text \<open>The pause before a retry: \<open>None\<close> when the client is gone.\<close>

definition pause :: "'w retry_env \<Rightarrow> RetryConfig \<Rightarrow> int \<Rightarrow> 'w \<Rightarrow> bool \<times> 'w" where
  "pause env cfg n s =
     (case backoff env cfg n s of
        (delay, s1) \<Rightarrow>
          if rt_done env s1 then (False, s1)
          else (let s2 = rt_sleep env delay s1 in (\<not> rt_done env s2, s2)))"

text \<open>The map that the constructor fills from the configured codes.\<close>

definition retryable :: "RetryConfig \<Rightarrow> int \<Rightarrow> bool" where
  "retryable cfg = foldl (\<lambda>m code. m(code := True)) (\<lambda>_. False) (RetryableStatusCodes cfg)"

fun retryLoop ::
  "'w retry_env \<Rightarrow> RetryConfig \<Rightarrow> 'w breaker_ops option \<Rightarrow> 'w handler \<Rightarrow> request \<Rightarrow> string option \<Rightarrow>
   nat \<Rightarrow> int \<Rightarrow> string option \<Rightarrow> writer \<Rightarrow> 'w \<Rightarrow> writer \<times> outcome \<times> 'w" where
  "retryLoop env cfg cb proxy r bodyBytes 0 n lastErr w s =
     (writeErrorJSON 502 ''bad_gateway''
        (''upstream failed after '' @ Itoa (MaxRetries cfg + 1) @ '' attempts'' @
         (case lastErr of None \<Rightarrow> [] | Some e \<Rightarrow> '': '' @ e)) w, Returned, s)"
| "retryLoop env cfg cb proxy r bodyBytes (Suc left) n lastErr w s =
     (case (if 0 < n then pause env cfg n s else (True, s)) of
        (False, s1) \<Rightarrow>
          (writeErrorJSON 499 ''client_closed'' ''client disconnected during retry'' w, Returned, s1)
      | (True, s1) \<Rightarrow>
          (case attempt (rt_detect env) cb proxy (cloneRequest r bodyBytes) s1 of
             (ErrCircuitOpen, s2, rec) \<Rightarrow>
               (writeErrorJSON 503 ''service_unavailable'' ''circuit breaker is open'' w, Returned, s2)
           | (ExecPanic p, s2, rec) \<Rightarrow> (w, Panicked p, s2)
           | (ExecErr e, s2, rec) \<Rightarrow>
               retryLoop env cfg cb proxy r bodyBytes left (n + 1) (Some e) w s2
           | (ExecNil, s2, rec) \<Rightarrow>
               if retryable cfg (rec_code rec) then
                 retryLoop env cfg cb proxy r bodyBytes left (n + 1)
                   (Some (upstreamError (rec_code rec))) w s2
               else (copyRecorderToWriter rec w, Returned, s2)))"

definition retry_ServeHTTP ::
  "'w retry_env \<Rightarrow> RetryConfig \<Rightarrow> 'w breaker_ops option \<Rightarrow> 'w handler \<Rightarrow> 'w handler" where
  "retry_ServeHTTP env cfg cb proxy r w s =
     (let go = (\<lambda>bodyBytes. retryLoop env cfg cb proxy r bodyBytes (nat (MaxRetries cfg + 1)) 0 None w s)
      in case Body r of
           None \<Rightarrow> go None
         | Some b \<Rightarrow>
             if rt_readFails env r then
               (writeErrorJSON 502 ''bad_gateway'' ''failed to read request body'' w, Returned, s)
             else if maxRetryBodySize < length b then
               (writeErrorJSON 413 ''request_too_large''
                  ''request body exceeds 10MB retry buffer limit'' w, Returned, s)
             else go (Some b))"

section \<open>Observing the upstream\<close>

text \<open>\<open>sent\<close> lists the requests a world has seen go upstream: the proxy adds its request, and
  nothing else does.\<close>

definition upstream_log ::
  "('w \<Rightarrow> request list) \<Rightarrow> 'w retry_env \<Rightarrow> 'w breaker_ops option \<Rightarrow> 'w handler \<Rightarrow> bool" where
  "upstream_log sent env cb proxy \<longleftrightarrow>
     (\<forall>q rec s. sent (snd (snd (proxy q rec s))) = sent s @ [q]) \<and>
     (\<forall>d s. sent (rt_sleep env d s) = sent s) \<and>
     (\<forall>s. sent (snd (rt_rand env s)) = sent s) \<and>
     (case cb of
        None \<Rightarrow> True
      | Some ops \<Rightarrow> (\<forall>c s. sent (bo_put ops c s) = sent s) \<and>
          (\<forall>a b s. sent (bo_onChange ops a b s) = sent s))"

text \<open>A world for examples: a breaker and the requests sent; the upstream always answers \<open>code\<close>.\<close>

record demo =
  dm_breaker :: CircuitBreaker
  dm_sent :: "request list"

definition demo_ops :: "demo breaker_ops" where
  "demo_ops = \<lparr>bo_now = (\<lambda>_. 0), bo_get = dm_breaker, bo_put = (\<lambda>cb s. s\<lparr>dm_breaker := cb\<rparr>),
     bo_onChange = (\<lambda>_ _ s. s)\<rparr>"

definition demo_env :: "demo retry_env" where
  "demo_env = \<lparr>rt_done = (\<lambda>_. False), rt_sleep = (\<lambda>_ s. s), rt_rand = (\<lambda>s. (0, s)), rt_pow = (\<lambda>_ _. 1),
     rt_readFails = (\<lambda>_. False), rt_detect = (\<lambda>_. ''text/plain'')\<rparr>"

definition demo_proxy :: "int \<Rightarrow> demo handler" where
  "demo_proxy code q w s = (WriteHeader code w, Returned, s\<lparr>dm_sent := dm_sent s @ [q]\<rparr>)"

definition demo_cfg :: "int \<Rightarrow> int list \<Rightarrow> RetryConfig" where
  "demo_cfg n codes = \<lparr>MaxRetries = n, InitialDelay = 100000000, Multiplier = 2, RetryableStatusCodes = codes\<rparr>"

definition demo_world :: "State \<Rightarrow> demo" where
  "demo_world st = \<lparr>dm_breaker = (cb_New \<lparr>FailureThreshold = 5, SuccessThreshold = 1, CBTimeout = 30\<rparr> ''r'')
     \<lparr>state := st, openedAt := 0\<rparr>, dm_sent = []\<rparr>"

section \<open>Lemmas\<close>

lemma retryable_iff [simp]: "retryable cfg code \<longleftrightarrow> code \<in> set (RetryableStatusCodes cfg)"
proof -
  have "foldl (\<lambda>m code. m(code := True)) m codes c \<longleftrightarrow> m c \<or> c \<in> set codes" for m codes and c :: int
    by (induction codes arbitrary: m) auto
  then show ?thesis
    by (simp add: retryable_def)
qed

lemma acts_copyRecorder [intro, simp]: "acts w (copyRecorderToWriter rec w)"
  unfolding copyRecorderToWriter_def by (meson acts_Write acts_WriteHeader acts_trans acts_updHeader)

lemma retryLoop_acts: "retryLoop env cfg cb proxy r b left n e w s = (w', out, s') \<Longrightarrow> acts w w'"
  by (induction left arbitrary: n e s) (auto split: prod.splits bool.splits exec_result.splits if_splits)

lemma retry_well_behaved: "well_behaved (retry_ServeHTTP env cfg cb proxy)"
  by (rule well_behavedI)
    (auto simp: retry_ServeHTTP_def Let_def split: option.splits if_splits dest: retryLoop_acts)

lemma cbOnly_well_behaved: "well_behaved (cbOnly_ServeHTTP detect ops proxy)"
  by (rule well_behavedI) (auto simp: cbOnly_ServeHTTP_def split: prod.splits exec_result.splits)

text \<open>What a finished attempt says about the proxy: it was called once, for the request, and its
  recorder came back.\<close>

lemma executeWith_cases:
  assumes "executeWith ops (attemptFn detect proxy q) (s, rec0) = (res, s', rec)"
  obtains (rejected) cb where "res = ErrCircuitOpen" "execute_pre (bo_now ops s) (bo_get ops s) = (cb, Rejected)"
      "s' = bo_put ops cb s"
  | (called) cb isProbe ch s1 s2 out where
      "execute_pre (bo_now ops s) (bo_get ops s) = (cb, Admitted isProbe ch)"
      "s1 = fire (bo_onChange ops) ch (bo_put ops cb s)"
      "proxy q (freshRecorder detect) s1 = (rec, out, s2)"
      "case out of Panicked p \<Rightarrow> res = ExecPanic p \<and> s' = s2
       | Returned \<Rightarrow> res = (if 500 \<le> rec_code rec then ExecErr (upstreamError (rec_code rec)) else ExecNil) \<and>
           (case execute_post (bo_now ops s2) isProbe (500 \<le> rec_code rec) (bo_get ops s2) of
              (cb', ch') \<Rightarrow> s' = fire (bo_onChange ops) ch' (bo_put ops cb' s2))"
proof -
  have fire: "fire (\<lambda>a b x. (bo_onChange ops a b (fst x), snd x)) ch (t, rc) = (fire (bo_onChange ops) ch t, rc)"
    for ch t rc by (auto simp: fire_def split: option.splits)
  show thesis
    using assms
    by (auto simp: executeWith_def Execute_def attemptFn_def fire
        split: prod.splits admission.splits outcome.splits if_splits
        intro: rejected called)
qed

lemma retryLoop_Suc:
  assumes "(if 0 < n then pause env cfg n s else (True, s)) = (go, s1)"
    and "attempt (rt_detect env) cb proxy (cloneRequest r b) s1 = (res, s2, rec)"
  shows "retryLoop env cfg cb proxy r b (Suc left) n e w s =
    (if \<not> go then (writeErrorJSON 499 ''client_closed'' ''client disconnected during retry'' w, Returned, s1)
     else case res of
         ErrCircuitOpen \<Rightarrow> (writeErrorJSON 503 ''service_unavailable'' ''circuit breaker is open'' w, Returned, s2)
       | ExecPanic p \<Rightarrow> (w, Panicked p, s2)
       | ExecErr e' \<Rightarrow> retryLoop env cfg cb proxy r b left (n + 1) (Some e') w s2
       | ExecNil \<Rightarrow>
           if rec_code rec \<in> set (RetryableStatusCodes cfg)
           then retryLoop env cfg cb proxy r b left (n + 1) (Some (upstreamError (rec_code rec))) w s2
           else (copyRecorderToWriter rec w, Returned, s2))"
  unfolding retryLoop.simps assms(1) by (simp add: assms(2) split: bool.split exec_result.split)

lemma attempt_sent:
  assumes "upstream_log sent env cb proxy" and "attempt detect cb proxy q s = (res, s', rec)"
  shows "sent s' = sent s \<or> sent s' = sent s @ [q]"
proof (cases cb)
  case None
  obtain rc out t where pr: "proxy q (freshRecorder detect) s = (rc, out, t)" by (metis prod_cases3)
  from assms(1) have "sent (snd (snd (proxy q (freshRecorder detect) s))) = sent s @ [q]"
    by (simp add: upstream_log_def)
  with assms(2) None pr show ?thesis by (cases out) (simp_all add: attempt_def)
next
  case (Some ops)
  have q: "sent (bo_put ops c t) = sent t" "sent (fire (bo_onChange ops) ch t) = sent t" for c ch t
    using assms(1) Some by (auto simp: upstream_log_def fire_def split: option.splits)
  from assms(2) Some have "executeWith ops (attemptFn detect proxy q) (s, freshRecorder detect) = (res, s', rec)"
    by (simp add: attempt_def)
  then show ?thesis
  proof (cases rule: executeWith_cases)
    case rejected
    then show ?thesis by (simp add: q)
  next
    case (called cb isProbe ch s1 s2 out)
    from assms(1) have "sent (snd (snd (proxy q (freshRecorder detect) s1))) = sent s1 @ [q]"
      by (simp add: upstream_log_def)
    with called have "sent s2 = sent s @ [q]" by (simp add: q)
    with called(4) show ?thesis by (auto simp: q split: outcome.splits prod.splits)
  qed
qed

lemma pause_sent: "upstream_log sent env cb proxy \<Longrightarrow> pause env cfg n s = (go, s') \<Longrightarrow> sent s' = sent s"
  unfolding upstream_log_def
  by (auto simp: pause_def backoff_def Let_def split: prod.splits if_splits) (metis snd_conv)+

lemma retryLoop_sent:
  assumes "upstream_log sent env cb proxy"
  shows "retryLoop env cfg cb proxy r b left n e w s = (w', out, s') \<Longrightarrow>
    \<exists>k\<le>left. sent s' = sent s @ replicate k (cloneRequest r b)"
proof (induction left arbitrary: n e s)
  case 0
  then show ?case by simp
next
  case (Suc left)
  obtain go s1 where p: "(if 0 < n then pause env cfg n s else (True, s)) = (go, s1)" by fastforce
  then have s1: "sent s1 = sent s" using pause_sent [OF assms] by (auto split: if_splits)
  show ?case
  proof (cases go)
    case False
    with p s1 Suc.prems show ?thesis by (intro exI [of _ 0]) simp
  next
    case True
    obtain res s2 rec where a: "attempt (rt_detect env) cb proxy (cloneRequest r b) s1 = (res, s2, rec)"
      by (metis prod_cases3)
    obtain j where j: "j \<le> 1" "sent s2 = sent s @ replicate j (cloneRequest r b)"
      using attempt_sent [OF assms a] s1 by (metis append_Nil2 le_numeral_extra(4) replicate_0
          replicate_Suc zero_le_one One_nat_def)
    have step: "\<exists>k\<le>Suc left. sent s' = sent s @ replicate k (cloneRequest r b)"
      if L: "retryLoop env cfg cb proxy r b left (n + 1) e' w s2 = (w', out, s')" for e'
    proof -
      obtain k where "k \<le> left" "sent s' = sent s2 @ replicate k (cloneRequest r b)"
        using Suc.IH [OF L] by blast
      with j show ?thesis by (intro exI [of _ "j + k"]) (simp add: replicate_add)
    qed
    show ?thesis
      using Suc.prems [unfolded retryLoop_Suc [OF p a]] True j step
      by (cases res) (auto split: if_splits intro: exI [of _ j])
  qed
qed

text \<open>What the client can get: one of the gateway's own errors, or the answer of an attempt that
  was not to be retried.\<close>

lemma attempt_success:
  assumes "attempt detect cb proxy q s = (ExecNil, s', rec)"
  shows "\<exists>s1 s2. proxy q (freshRecorder detect) s1 = (rec, Returned, s2) \<and> (cb \<noteq> None \<longrightarrow> rec_code rec < 500)"
proof (cases cb)
  case None
  with assms show ?thesis by (auto simp: attempt_def split: prod.splits outcome.splits)
next
  case (Some ops)
  with assms have "executeWith ops (attemptFn detect proxy q) (s, freshRecorder detect) = (ExecNil, s', rec)"
    by (simp add: attempt_def)
  then show ?thesis
  proof (cases rule: executeWith_cases)
    case (called cb isProbe ch s1 s2 out)
    then show ?thesis by (cases out) (auto split: if_splits)
  qed simp
qed

lemma retryLoop_response:
  assumes "retryLoop env cfg cb proxy r b left n e w s = (w', Returned, s')"
  shows "(\<exists>status code msg. status \<in> {499, 502, 503} \<and> w' = writeErrorJSON status code msg w) \<or>
    (\<exists>rec s1 s2. proxy (cloneRequest r b) (freshRecorder (rt_detect env)) s1 = (rec, Returned, s2) \<and>
       w' = copyRecorderToWriter rec w \<and> rec_code rec \<notin> set (RetryableStatusCodes cfg) \<and>
       (cb \<noteq> None \<longrightarrow> rec_code rec < 500))"
  using assms
proof (induction left arbitrary: n e s)
  case 0
  then show ?case by auto
next
  case (Suc left)
  obtain go s1 where p: "(if 0 < n then pause env cfg n s else (True, s)) = (go, s1)" by fastforce
  obtain res s2 rec where a: "attempt (rt_detect env) cb proxy (cloneRequest r b) s1 = (res, s2, rec)"
    by (metis prod_cases3)
  show ?case
  proof (cases "go \<and> res = ExecNil \<and> rec_code rec \<notin> set (RetryableStatusCodes cfg)")
    case True
    with Suc.prems [unfolded retryLoop_Suc [OF p a]] have "w' = copyRecorderToWriter rec w" by simp
    with True attempt_success [of "rt_detect env" cb proxy "cloneRequest r b" s1 s2 rec] a show ?thesis by blast
  next
    case False
    show ?thesis
    proof (cases "\<exists>e'. retryLoop env cfg cb proxy r b left (n + 1) e' w s2 = (w', Returned, s')")
      case True
      then obtain e' where "retryLoop env cfg cb proxy r b left (n + 1) e' w s2 = (w', Returned, s')" ..
      then show ?thesis by (rule Suc.IH)
    next
      case nrec: False
      have "w' = writeErrorJSON 499 ''client_closed'' ''client disconnected during retry'' w \<or>
          w' = writeErrorJSON 503 ''service_unavailable'' ''circuit breaker is open'' w"
        using Suc.prems [unfolded retryLoop_Suc [OF p a]] False nrec
        by (cases go; cases res) (simp_all split: if_split_asm)
      then show ?thesis by auto
    qed
  qed
qed

text \<open>A recorded answer copied to a writer that has not sent a status yet.\<close>

lemma copy_clean:
  assumes "clean w" and "\<not> informational (rec_code rec)" and "bodyAllowedForStatus (rec_code rec)"
    and "base_conn w = Some c0" and "rec_Body (recorder rec) \<noteq> []"
  shows "\<exists>c. base_conn (copyRecorderToWriter rec w) = Some c \<and> conn_status c = Some (rec_code rec) \<and>
    conn_sent c = addHeaders (rec_HeaderMap (recorder rec)) (headers w) \<and>
    conn_body c = conn_body c0 @ rec_Body (recorder rec)"
  unfolding copyRecorderToWriter_def by (rule answer_clean [OF assms])

lemma jitter_bounds: "0 \<le> x \<Longrightarrow> x < 1 \<Longrightarrow> 1 / 2 \<le> fl (1 / 2 + x) \<and> fl (1 / 2 + x) \<le> 3 / 2"
proof -
  assume "0 \<le> x" "x < 1"
  moreover have "representable (1 / 2)" by (rule representableI [of 1 _ "- 1"]) (simp_all add: power_int_minus)
  moreover have "representable (3 / 2)" by (rule representableI [of 3 _ "- 1"]) (simp_all add: power_int_minus)
  ultimately show ?thesis using fl_mono [of "1 / 2" "1 / 2 + x"] fl_mono [of "1 / 2 + x" "3 / 2"]
    by (simp add: fl_representable)
qed

lemma cloneRequest_same:
  "cloneRequest r (Body r) = r\<lparr>ContentLength := (case Body r of None \<Rightarrow> ContentLength r | Some b \<Rightarrow> int (length b))\<rparr>"
  by (cases r) (simp add: cloneRequest_def split: option.splits)

section \<open>Properties\<close>

text \<open>C14: A request is sent upstream at most \<open>max_retries + 1\<close> times, and every attempt sends the
  same method, path, host, header and whole body, with the length of that body, whatever statuses,
  breaker states, pauses and disconnections happen in between.\<close>

theorem retry_replays_bounded:
  assumes "upstream_log sent env cb proxy" and "retry_ServeHTTP env cfg cb proxy r w s = (w', out, s')"
  shows "\<exists>k \<le> nat (MaxRetries cfg + 1). sent s' = sent s @ replicate k
    (r\<lparr>ContentLength := (case Body r of None \<Rightarrow> ContentLength r | Some b \<Rightarrow> int (length b))\<rparr>)"
proof (cases "retryLoop env cfg cb proxy r (Body r) (nat (MaxRetries cfg + 1)) 0 None w s = (w', out, s')")
  case True
  from retryLoop_sent [OF assms(1) True] show ?thesis unfolding cloneRequest_same .
next
  case False
  with assms(2) have "s' = s"
    by (auto simp: retry_ServeHTTP_def Let_def split: option.splits if_splits)
  then show ?thesis by auto
qed

theorem retry_replays_bounded_witness:
  "\<exists>k \<le> nat (2 + 1). dm_sent (snd (snd (retry_ServeHTTP demo_env (demo_cfg 2 [503]) (Some demo_ops)
      (demo_proxy 503) (bareRequest ''POST'' ''/'' Map.empty) (ServerResponse fresh_conn) (demo_world StateClosed)))) =
    replicate k (bareRequest ''POST'' ''/'' Map.empty)"
proof -
  let ?x = "retry_ServeHTTP demo_env (demo_cfg 2 [503]) (Some demo_ops) (demo_proxy 503)
      (bareRequest ''POST'' ''/'' Map.empty) (ServerResponse fresh_conn) (demo_world StateClosed)"
  have "upstream_log dm_sent demo_env (Some demo_ops) (demo_proxy 503)"
    by (simp add: upstream_log_def demo_env_def demo_ops_def demo_proxy_def)
  from retry_replays_bounded [OF this, of "demo_cfg 2 [503]" "bareRequest ''POST'' ''/'' Map.empty"
      "ServerResponse fresh_conn" "demo_world StateClosed" "fst ?x" "fst (snd ?x)" "snd (snd ?x)"]
  show ?thesis by (simp add: demo_cfg_def demo_world_def bareRequest_def)
qed

text \<open>C33: The client gets either an error of the gateway (413, 499, 502 or 503) or the recorded
  answer of an attempt whose status is not in the list of statuses to retry and, when a circuit
  breaker is configured, is below 500.\<close>

theorem retry_never_forwards_retryable:
  assumes "retry_ServeHTTP env cfg cb proxy r w s = (w', Returned, s')"
  shows "(\<exists>status code msg. status \<in> {413, 499, 502, 503} \<and> w' = writeErrorJSON status code msg w) \<or>
    (\<exists>rec s1 s2. proxy (cloneRequest r (Body r)) (freshRecorder (rt_detect env)) s1 = (rec, Returned, s2) \<and>
       w' = copyRecorderToWriter rec w \<and> rec_code rec \<notin> set (RetryableStatusCodes cfg) \<and>
       (cb \<noteq> None \<longrightarrow> rec_code rec < 500))"
proof (cases "retryLoop env cfg cb proxy r (Body r) (nat (MaxRetries cfg + 1)) 0 None w s = (w', Returned, s')")
  case True
  from retryLoop_response [OF True] show ?thesis by auto
next
  case False
  with assms have "(\<exists>msg. w' = writeErrorJSON 502 ''bad_gateway'' msg w) \<or>
      (\<exists>msg. w' = writeErrorJSON 413 ''request_too_large'' msg w)"
    by (auto simp: retry_ServeHTTP_def Let_def split: option.splits if_splits)
  then show ?thesis by auto
qed

theorem retry_never_forwards_retryable_witness:
  "\<exists>w' s'. retry_ServeHTTP demo_env (demo_cfg 0 [503]) None (demo_proxy 503)
      (bareRequest ''GET'' ''/'' Map.empty) (ServerResponse fresh_conn) (demo_world StateClosed) = (w', Returned, s') \<and>
    (\<exists>status code msg. status \<in> {413, 499, 502, 503} \<and> w' = writeErrorJSON status code msg (ServerResponse fresh_conn))"
proof -
  let ?h = "retry_ServeHTTP demo_env (demo_cfg 0 [503]) None (demo_proxy 503)
      (bareRequest ''GET'' ''/'' Map.empty) (ServerResponse fresh_conn) (demo_world StateClosed)"
  obtain w' s' where h: "?h = (w', Returned, s')"
    by (simp add: retry_ServeHTTP_def demo_cfg_def attempt_def demo_proxy_def recorder_def NewRecorder_def
        rec_WriteHeader_def)
  have "rec_code rec = 503" if "demo_proxy 503 q (freshRecorder d) s1 = (rec, Returned, s2)" for rec q d s1 s2
    using that by (auto simp: demo_proxy_def recorder_def NewRecorder_def rec_WriteHeader_def)
  with retry_never_forwards_retryable [OF h] h show ?thesis by (auto simp: demo_cfg_def)
qed

text \<open>An attempt that succeeds at once is forwarded as it is: the client gets the recorded
  status and body, and the recorded headers added to those already set.\<close>

theorem retry_forwards_success:
  assumes "proxy (cloneRequest r (Body r)) (freshRecorder (rt_detect env)) s = (rec, Returned, s')"
    and "rec_code rec \<notin> set (RetryableStatusCodes cfg)" and "0 \<le> MaxRetries cfg"
    and "\<forall>b. Body r = Some b \<longrightarrow> \<not> rt_readFails env r \<and> length b \<le> maxRetryBodySize"
    and "clean w" and "base_conn w = Some c0" and "\<not> informational (rec_code rec)"
    and "bodyAllowedForStatus (rec_code rec)" and "rec_Body (recorder rec) \<noteq> []"
  shows "\<exists>u c. retry_ServeHTTP env cfg None proxy r w s = (u, Returned, s') \<and> base_conn u = Some c \<and>
    conn_status c = Some (rec_code rec) \<and> conn_body c = conn_body c0 @ rec_Body (recorder rec) \<and>
    conn_sent c = addHeaders (rec_HeaderMap (recorder rec)) (headers w)"
proof -
  have n: "nat (MaxRetries cfg + 1) = Suc (nat (MaxRetries cfg))" using assms(3) by simp
  have a: "attempt (rt_detect env) None proxy (cloneRequest r (Body r)) s = (ExecNil, s', rec)"
    using assms(1) by (simp add: attempt_def)
  have "retryLoop env cfg None proxy r (Body r) (nat (MaxRetries cfg + 1)) 0 None w s =
      (copyRecorderToWriter rec w, Returned, s')"
    unfolding n using retryLoop_Suc [where n = 0 and e = None, OF _ a] assms(2) by simp
  then have "retry_ServeHTTP env cfg None proxy r w s = (copyRecorderToWriter rec w, Returned, s')"
    using assms(4) by (cases "Body r") (auto simp: retry_ServeHTTP_def)
  with copy_clean [OF assms(5,7,8,6,9)] show ?thesis by auto
qed

theorem retry_forwards_success_witness:
  "\<exists>u c. retry_ServeHTTP demo_env (demo_cfg 3 [503]) None
      (\<lambda>q w s. (fst (Write ''ok'' (WriteHeader 404 w)), Returned, s))
      (bareRequest ''GET'' ''/'' Map.empty) (ServerResponse fresh_conn) (demo_world StateClosed) =
      (u, Returned, demo_world StateClosed) \<and>
    base_conn u = Some c \<and> conn_status c = Some 404 \<and> conn_body c = ''ok''"
proof -
  let ?p = "\<lambda>q w s. (fst (Write ''ok'' (WriteHeader 404 w)), Returned, s)"
  let ?r = "bareRequest ''GET'' ''/'' Map.empty"
  let ?rec = "ResponseRecorder ((NewRecorder (rt_detect demo_env))\<lparr>rec_Code := 404, rec_wroteHeader := True, rec_Body := ''ok''\<rparr>)"
  have "?p (cloneRequest ?r (Body ?r)) (freshRecorder (rt_detect demo_env)) (demo_world StateClosed) =
      (?rec, Returned, demo_world StateClosed)"
    by (simp add: rec_Write_def rec_WriteHeader_def NewRecorder_def Let_def)
  moreover have "rec_code ?rec = 404" "rec_Body (recorder ?rec) = ''ok''" by (simp_all add: recorder_def)
  ultimately show ?thesis
    using retry_forwards_success [of ?p ?r demo_env "demo_world StateClosed" ?rec "demo_world StateClosed"
        "demo_cfg 3 [503]" "ServerResponse fresh_conn" fresh_conn]
    by (auto simp: demo_cfg_def fresh_conn_def informational_def bodyAllowedForStatus_def)
qed



text \<open>The list of statuses to retry is not the whole story: with a circuit breaker every status
  of 500 or more is retried, listed or not. The same route and upstream answer 500 after one call
  without a breaker, and 502 after two calls with one.\<close>

theorem breaker_retries_unlisted_statuses:
  "(case retry_ServeHTTP demo_env (demo_cfg 1 [503]) None (demo_proxy 500)
        (bareRequest ''POST'' ''/'' Map.empty) (ServerResponse fresh_conn) (demo_world StateClosed) of
      (w, _, s) \<Rightarrow> map_option conn_status (base_conn w) = Some (Some 500) \<and> length (dm_sent s) = 1) \<and>
   (case retry_ServeHTTP demo_env (demo_cfg 1 [503]) (Some demo_ops) (demo_proxy 500)
        (bareRequest ''POST'' ''/'' Map.empty) (ServerResponse fresh_conn) (demo_world StateClosed) of
      (w, _, s) \<Rightarrow> map_option conn_status (base_conn w) = Some (Some 502) \<and> length (dm_sent s) = 2)"
proof -
  have n: "nat (MaxRetries (demo_cfg 1 [503]) + 1) = Suc (Suc 0)" by (simp add: demo_cfg_def)
  have p: "pause demo_env (demo_cfg 1 [503]) 1 s = (True, s)" for s
    by (simp add: pause_def backoff_def demo_env_def)
  note sim = retry_ServeHTTP_def n p attempt_def demo_proxy_def recorder_def NewRecorder_def rec_WriteHeader_def
    copyRecorderToWriter_def writeErrorJSON_def conn_WriteHeader_def fresh_conn_def informational_def
    conn_Write_def errorBody_def bodyAllowedForStatus_def
  have "case retry_ServeHTTP demo_env (demo_cfg 1 [503]) None (demo_proxy 500)
        (bareRequest ''POST'' ''/'' Map.empty) (ServerResponse fresh_conn) (demo_world StateClosed) of
      (w, _, s) \<Rightarrow> map_option conn_status (base_conn w) = Some (Some 500) \<and> length (dm_sent s) = 1"
    by (simp add: sim demo_world_def) (simp add: demo_cfg_def)
  moreover have "case retry_ServeHTTP demo_env (demo_cfg 1 [503]) (Some demo_ops) (demo_proxy 500)
        (bareRequest ''POST'' ''/'' Map.empty) (ServerResponse fresh_conn) (demo_world StateClosed) of
      (w, _, s) \<Rightarrow> map_option conn_status (base_conn w) = Some (Some 502) \<and> length (dm_sent s) = 2"
    by (simp add: sim executeWith_def Execute_def attemptFn_def execute_pre_def execute_post_def fire_def
        demo_ops_def demo_world_def cb_New_def Let_def)
  ultimately show ?thesis by blast
qed

text \<open>The pause before a retry lies between half and one and a half times the nominal delay
  of the attempt, rounding included, as long as the delay stays in the range of a duration.\<close>

theorem backoff_within_jitter:
  assumes "rt_rand env s = (x, s')" and "0 \<le> x" and "x < 1"
    and "0 \<le> backoffDelay (rt_pow env) cfg n"
    and "fl (backoffDelay (rt_pow env) cfg n * (3 / 2)) < 2 ^ 63"
  shows "\<exists>d. backoff env cfg n s = (d, s') \<and> \<lfloor>fl (backoffDelay (rt_pow env) cfg n * (1 / 2))\<rfloor> \<le> d \<and>
    d \<le> \<lfloor>fl (backoffDelay (rt_pow env) cfg n * (3 / 2))\<rfloor>"
proof -
  let ?d = "backoffDelay (rt_pow env) cfg n" and ?j = "fl (1 / 2 + x)"
  have "?d * (1 / 2) \<le> ?d * ?j" "?d * ?j \<le> ?d * (3 / 2)"
    using jitter_bounds [OF assms(2,3)] assms(4) by (intro mult_left_mono; simp)+
  from this [THEN fl_mono]
  have le: "fl (?d * (1 / 2)) \<le> fl (?d * ?j)" "fl (?d * ?j) \<le> fl (?d * (3 / 2))" .
  have "0 \<le> fl (?d * (1 / 2))" using assms(4) by (intro fl_nonneg) simp
  with le assms(5) have "toDuration (fl (?d * ?j)) = \<lfloor>fl (?d * ?j)\<rfloor>"
    by (simp add: toDuration_def minInt64_def)
  with le show ?thesis by (simp add: backoff_def assms(1) floor_mono)
qed

theorem backoff_within_jitter_witness:
  "\<exists>d. backoff demo_env (demo_cfg 3 []) 1 (demo_world StateClosed) = (d, demo_world StateClosed) \<and>
    50000000 \<le> d \<and> d \<le> 150000000"
proof -
  have fl: "fl (of_int n) = of_int n" if "0 \<le> n" "n \<le> 150000000" for n using that by (intro fl_int) simp_all
  have d: "backoffDelay (rt_pow demo_env) (demo_cfg 3 []) 1 = 100000000"
    using fl [of 100000000] by (simp add: backoffDelay_def demo_env_def demo_cfg_def)
  have r: "rt_rand demo_env (demo_world StateClosed) = (0, demo_world StateClosed)"
    by (simp add: demo_env_def)
  from backoff_within_jitter [OF r, of "demo_cfg 3 []" 1] d fl [of 50000000] fl [of 150000000]
  show ?thesis by simp
qed

end
