(* ===== verification/Auth.thy ===== *)
theory Auth
  imports Middleware
begin

text \<open>
  Authentication, \<open>internal/middleware/auth\<close>: the API key, JWT and OIDC authenticators, their
  construction from a provider configuration, and the middleware that tries the providers of a
  route in order. An authenticator is a function of the request and the world; it answers an
  error text (\<open>Inl\<close>) or a result (\<open>Inr\<close>). The packages \<open>golang-jwt\<close> and \<open>go-oidc\<close>, the PEM and
  X.509 parsers, files and the introspection endpoint are fields of the record \<open>auth_lib\<close>; what is
  relied on of them is the predicate \<open>jwt_documented\<close>.
\<close>

section \<open>Library functions\<close>

datatype pubkey = RSAPublicKey string | ECDSAPublicKey string | OtherPublicKey

datatype signing_key = HMACSecret string | RSAKey string | ECDSAKey string

datatype signing_method = MethodHMAC | MethodRSA | MethodECDSA | MethodOther

record jwt_options =
  jo_methods :: "string list option"
  jo_issuer :: "string option"
  jo_audience :: "string option"

record jwt_error =
  je_expired :: bool
  je_signatureInvalid :: bool
  je_text :: string

record jwt_token =
  jt_claims :: "string \<rightharpoonup> json"
  jt_subject :: string
  jt_valid :: bool

record oidc_options =
  oo_clientID :: string
  oo_skipClientID :: bool
  oo_algs :: "string list"
  oo_skipIssuer :: bool

record oidc_error =
  oe_expired :: bool
  oe_text :: string

text \<open>\<open>al_jwtParse token keyFunc opts\<close> is \<open>jwt.Parse\<close>; the key function gets the signing method
  and the \<open>alg\<close> header. \<open>al_verify issuer keys opts token\<close> is the verifier of \<open>go-oidc\<close>, \<open>keys\<close>
  naming where its keys come from. \<open>al_post\<close> is the request to the introspection endpoint.\<close>

datatype key_source = Discovery string | RemoteKeySet string

record 'w auth_lib =
  al_readFile :: "string \<Rightarrow> string + string"
  al_pemDecode :: "string \<Rightarrow> string option"
  al_parsePKIX :: "string \<Rightarrow> string + pubkey"
  al_parsePKCS1 :: "string \<Rightarrow> string + string"
  al_jwtParse :: "string \<Rightarrow> (signing_method \<Rightarrow> string \<Rightarrow> string + signing_key) \<Rightarrow> jwt_options \<Rightarrow> jwt_error + jwt_token"
  al_discover :: "string \<Rightarrow> string option"
  al_verify :: "key_source \<Rightarrow> oidc_options \<Rightarrow> string \<Rightarrow> 'w \<Rightarrow> (oidc_error + string \<times> (string + (string \<rightharpoonup> json))) \<times> 'w"
  al_newRequest :: "string \<Rightarrow> string option"
  al_post :: "string \<Rightarrow> string \<Rightarrow> (string \<times> string) option \<Rightarrow> 'w \<Rightarrow> (string + int \<times> string) \<times> 'w"
  al_decodeIntrospection :: "string \<Rightarrow> string + bool \<times> string \<times> string"

type_synonym 'w authenticator = "request \<Rightarrow> 'w \<Rightarrow> (string + AuthResult) \<times> 'w"

section \<open>API keys\<close>

definition NewAPIKeyAuthenticator :: "APIKeyConfig \<Rightarrow> string \<times> APIKeyEntry list" where
  "NewAPIKeyAuthenticator cfg =
     ((if APIKeyHeader cfg = [] then ''X-API-Key'' else APIKeyHeader cfg), Keys cfg)"

fun matchKey :: "string \<Rightarrow> APIKeyEntry list \<Rightarrow> string + AuthResult" where
  "matchKey key [] = Inl ''invalid API key''"
| "matchKey key (entry # es) =
     (if key = Key entry
      then Inr \<lparr>Subject = KeyName entry, Claims = Some [''key_name'' \<mapsto> JStr (KeyName entry)],
                AuthName = KeyName entry, Provider = []\<rparr>
      else matchKey key es)"

definition APIKey_Authenticate :: "string \<times> APIKeyEntry list \<Rightarrow> 'w authenticator" where
  "APIKey_Authenticate a r s =
     (let key = Get (Header r) (fst a)
      in ((if key = [] then Inl ''missing API key'' else matchKey key (snd a)), s))"

section \<open>Bearer tokens\<close>

text \<open>\<open>strings.SplitN(h, " ", 2)\<close> gives two parts exactly if there is a space.\<close>

definition bearerToken :: "request \<Rightarrow> string + string" where
  "bearerToken r =
     (let authHeader = Get (Header r) ''Authorization''
      in if authHeader = [] then Inl ''missing authorization header''
         else (case Cut authHeader (CHR '' '') of
             (scheme, tok, found) \<Rightarrow>
               if \<not> found \<or> \<not> EqualFold scheme ''Bearer'' then Inl ''malformed token'' else Inr tok))"

section \<open>JWT\<close>

record JWTAuthenticator =
  ja_signingKey :: signing_key
  ja_algorithm :: string
  ja_issuer :: string
  ja_audience :: string

definition loadRSAPublicKey :: "'w auth_lib \<Rightarrow> string \<Rightarrow> string + string" where
  "loadRSAPublicKey lib path =
     (case al_readFile lib path of
        Inl e \<Rightarrow> Inl (''reading public key file: '' @ e)
      | Inr data \<Rightarrow>
          (case al_pemDecode lib data of
             None \<Rightarrow> Inl ''failed to decode PEM block''
           | Some bytes \<Rightarrow>
               (case al_parsePKIX lib bytes of
                  Inl e \<Rightarrow>
                    (case al_parsePKCS1 lib bytes of
                       Inl _ \<Rightarrow> Inl (''parsing public key: '' @ e)
                     | Inr k \<Rightarrow> Inr k)
                | Inr (RSAPublicKey k) \<Rightarrow> Inr k
                | Inr _ \<Rightarrow> Inl ''public key is not RSA'')))"

definition loadECDSAPublicKey :: "'w auth_lib \<Rightarrow> string \<Rightarrow> string + string" where
  "loadECDSAPublicKey lib path =
     (case al_readFile lib path of
        Inl e \<Rightarrow> Inl (''reading public key file: '' @ e)
      | Inr data \<Rightarrow>
          (case al_pemDecode lib data of
             None \<Rightarrow> Inl ''failed to decode PEM block''
           | Some bytes \<Rightarrow>
               (case al_parsePKIX lib bytes of
                  Inl e \<Rightarrow> Inl (''parsing public key: '' @ e)
                | Inr (ECDSAPublicKey k) \<Rightarrow> Inr k
                | Inr _ \<Rightarrow> Inl ''public key is not ECDSA'')))"

definition NewJWTAuthenticator :: "'w auth_lib \<Rightarrow> JWTConfig \<Rightarrow> string + JWTAuthenticator" where
  "NewJWTAuthenticator lib cfg =
     (let mk = (\<lambda>k. \<lparr>ja_signingKey = k, ja_algorithm = JWTAlgorithm cfg, ja_issuer = Issuer cfg,
                     ja_audience = JWTAudience cfg\<rparr>)
      in if HasPrefix (JWTAlgorithm cfg) ''HS'' then
           (if Secret cfg = [] then Inl ''jwt: HMAC algorithm requires secret'' else Inr (mk (HMACSecret (Secret cfg))))
         else if HasPrefix (JWTAlgorithm cfg) ''RS'' then
           (case loadRSAPublicKey lib (PublicKeyFile cfg) of
              Inl e \<Rightarrow> Inl (''jwt: '' @ e) | Inr k \<Rightarrow> Inr (mk (RSAKey k)))
         else if HasPrefix (JWTAlgorithm cfg) ''ES'' then
           (case loadECDSAPublicKey lib (PublicKeyFile cfg) of
              Inl e \<Rightarrow> Inl (''jwt: '' @ e) | Inr k \<Rightarrow> Inr (mk (ECDSAKey k)))
         else Inl (''jwt: unsupported algorithm '' @ Quote (JWTAlgorithm cfg)))"

definition keyFunc :: "signing_key \<Rightarrow> signing_method \<Rightarrow> string \<Rightarrow> string + signing_key" where
  "keyFunc key meth alg =
     (let unexpected = Inl (''unexpected signing method: '' @ alg)
      in case key of
           HMACSecret _ \<Rightarrow> if meth \<noteq> MethodHMAC then unexpected else Inr key
         | RSAKey _ \<Rightarrow> if meth \<noteq> MethodRSA then unexpected else Inr key
         | ECDSAKey _ \<Rightarrow> if meth \<noteq> MethodECDSA then unexpected else Inr key)"

definition classifyJWTError :: "jwt_error \<Rightarrow> string" where
  "classifyJWTError e =
     (if je_expired e then ''token expired''
      else if je_signatureInvalid e then ''invalid token signature''
      else ''invalid token: '' @ je_text e)"

definition parserOpts :: "JWTAuthenticator \<Rightarrow> jwt_options" where
  "parserOpts a = \<lparr>jo_methods = Some [ja_algorithm a],
     jo_issuer = (if ja_issuer a \<noteq> [] then Some (ja_issuer a) else None),
     jo_audience = (if ja_audience a \<noteq> [] then Some (ja_audience a) else None)\<rparr>"

definition JWT_Authenticate :: "'w auth_lib \<Rightarrow> JWTAuthenticator \<Rightarrow> 'w authenticator" where
  "JWT_Authenticate lib a r s =
     ((case bearerToken r of
         Inl e \<Rightarrow> Inl e
       | Inr tok \<Rightarrow>
           (case al_jwtParse lib tok (keyFunc (ja_signingKey a)) (parserOpts a) of
              Inl e \<Rightarrow> Inl (classifyJWTError e)
            | Inr t \<Rightarrow>
                if \<not> jt_valid t then Inl ''invalid token''
                else Inr \<lparr>Subject = jt_subject t, Claims = Some (jt_claims t), AuthName = [], Provider = []\<rparr>)), s)"

section \<open>OIDC\<close>

record OIDCAuthenticator =
  oa_verifier :: "(key_source \<times> oidc_options) option"
  oa_audience :: string
  oa_introspectionURL :: string
  oa_clientID :: string
  oa_clientSecret :: string

definition buildOIDCConfig :: "OIDCConfig \<Rightarrow> oidc_options" where
  "buildOIDCConfig cfg =
     \<lparr>oo_clientID = (if OIDCAudience cfg \<noteq> [] then OIDCAudience cfg else []),
      oo_skipClientID = (OIDCAudience cfg = []),
      oo_algs = (if AllowedAlgorithms cfg \<noteq> [] then AllowedAlgorithms cfg else []),
      oo_skipIssuer = (if IssuerURL cfg = [] then True else SkipIssuerCheck cfg)\<rparr>"

text \<open>\<open>al_discover\<close> is \<open>oidc.NewProvider\<close>: an error text, or nothing.\<close>

definition NewOIDCAuthenticator :: "'w auth_lib \<Rightarrow> OIDCConfig \<Rightarrow> string + OIDCAuthenticator" where
  "NewOIDCAuthenticator lib cfg =
     (let a = \<lparr>oa_verifier = None, oa_audience = OIDCAudience cfg, oa_introspectionURL = IntrospectionURL cfg,
               oa_clientID = ClientID cfg, oa_clientSecret = ClientSecret cfg\<rparr>
      in if IntrospectionURL cfg \<noteq> [] \<and> JWKSURL cfg = [] \<and> IssuerURL cfg = [] then Inr a
         else if IssuerURL cfg \<noteq> [] then
           (case al_discover lib (IssuerURL cfg) of
              Some e \<Rightarrow> Inl (''oidc discovery: '' @ e)
            | None \<Rightarrow> Inr (a\<lparr>oa_verifier := Some (Discovery (IssuerURL cfg), buildOIDCConfig cfg)\<rparr>))
         else if JWKSURL cfg \<noteq> [] then
           Inr (a\<lparr>oa_verifier := Some (RemoteKeySet (JWKSURL cfg), (buildOIDCConfig cfg)\<lparr>oo_skipIssuer := True\<rparr>)\<rparr>)
         else Inl ''oidc: either jwks_url, issuer_url, or introspection_url is required'')"

definition classifyVerifyError :: "oidc_error \<Rightarrow> string" where
  "classifyVerifyError e =
     (if oe_expired e then ''token expired''
      else if Contains (oe_text e) ''issuer'' \<or> Contains (oe_text e) ''different provider'' then ''invalid token issuer''
      else if Contains (oe_text e) ''audience'' then ''invalid token audience''
      else ''invalid token: '' @ oe_text e)"

text \<open>A verifier is always there when this runs; without one Go would panic on the nil pointer,
  here the answer is an error.\<close>

definition verifyToken :: "'w auth_lib \<Rightarrow> OIDCAuthenticator \<Rightarrow> string \<Rightarrow> 'w \<Rightarrow> (string + AuthResult) \<times> 'w" where
  "verifyToken lib a tok s =
     (case oa_verifier a of
        None \<Rightarrow> (Inl ''nil verifier'', s)
      | Some (keys, opts) \<Rightarrow>
          (case al_verify lib keys opts tok s of
             (Inl e, s') \<Rightarrow> (Inl (classifyVerifyError e), s')
           | (Inr (sub, Inl e), s') \<Rightarrow> (Inl (''extracting claims: '' @ e), s')
           | (Inr (sub, Inr claims), s') \<Rightarrow>
               (Inr \<lparr>Subject = sub, Claims = Some claims, AuthName = [], Provider = []\<rparr>, s')))"

definition introspect :: "'w auth_lib \<Rightarrow> OIDCAuthenticator \<Rightarrow> string \<Rightarrow> 'w \<Rightarrow> (string + AuthResult) \<times> 'w" where
  "introspect lib a tok s =
     (case al_newRequest lib (oa_introspectionURL a) of
        Some e \<Rightarrow> (Inl (''introspection request: '' @ e), s)
      | None \<Rightarrow>
          (let basic = (if oa_clientID a \<noteq> [] \<and> oa_clientSecret a \<noteq> []
                        then Some (oa_clientID a, oa_clientSecret a) else None)
           in case al_post lib (oa_introspectionURL a) tok basic s of
                (Inl e, s') \<Rightarrow> (Inl (''introspection request failed: '' @ e), s')
              | (Inr (status, body), s') \<Rightarrow>
                  ((if status \<noteq> 200 then Inl (''introspection endpoint returned status '' @ Itoa status)
                    else (case al_decodeIntrospection lib body of
                        Inl e \<Rightarrow> Inl (''introspection decode: '' @ e)
                      | Inr (active, sub, client) \<Rightarrow>
                          if \<not> active then Inl ''token is not active''
                          else Inr \<lparr>Subject = sub,
                             Claims = Some [''sub'' \<mapsto> JStr sub, ''client_id'' \<mapsto> JStr client, ''active'' \<mapsto> JBool True],
                             AuthName = [], Provider = []\<rparr>)), s')))"

definition OIDC_Authenticate :: "'w auth_lib \<Rightarrow> OIDCAuthenticator \<Rightarrow> 'w authenticator" where
  "OIDC_Authenticate lib a r s =
     (case bearerToken r of
        Inl e \<Rightarrow> (Inl e, s)
      | Inr tok \<Rightarrow>
          if oa_introspectionURL a \<noteq> [] then introspect lib a tok s else verifyToken lib a tok s)"

section \<open>Providers\<close>

definition NewAuthenticator :: "'w auth_lib \<Rightarrow> AuthProvider \<Rightarrow> string + 'w authenticator" where
  "NewAuthenticator lib p =
     (if ap_Type p = ''jwt'' then
        (case ap_JWT p of
           None \<Rightarrow> Inl (''auth provider type '' @ Quote (ap_Type p) @ '' requires jwt config'')
         | Some c \<Rightarrow> (case NewJWTAuthenticator lib c of Inl e \<Rightarrow> Inl e | Inr a \<Rightarrow> Inr (JWT_Authenticate lib a)))
      else if ap_Type p = ''apikey'' then
        (case ap_APIKey p of
           None \<Rightarrow> Inl (''auth provider type '' @ Quote (ap_Type p) @ '' requires api_key config'')
         | Some c \<Rightarrow> Inr (APIKey_Authenticate (NewAPIKeyAuthenticator c)))
      else if ap_Type p = ''oidc'' then
        (case ap_OIDC p of
           None \<Rightarrow> Inl (''auth provider type '' @ Quote (ap_Type p) @ '' requires oidc config'')
         | Some c \<Rightarrow> (case NewOIDCAuthenticator lib c of Inl e \<Rightarrow> Inl e | Inr a \<Rightarrow> Inr (OIDC_Authenticate lib a)))
      else Inl (''unknown auth provider type: '' @ Quote (ap_Type p)))"

section \<open>The middleware\<close>

definition auth_writeError :: "int \<Rightarrow> string \<Rightarrow> writer \<Rightarrow> writer" where
  "auth_writeError status message w =
     writeErrorJSON status
       (if status = 403 then ''forbidden'' else if status = 500 then ''internal_error'' else ''unauthorized'') message w"

fun tryProviders ::
  "(string \<rightharpoonup> 'w authenticator) \<Rightarrow> string list \<Rightarrow> 'w handler \<Rightarrow> 'w handler" where
  "tryProviders auths [] nxt r w s = (auth_writeError 401 ''authentication failed'' w, Returned, s)"
| "tryProviders auths (name # ps) nxt r w s =
     (case auths name of
        None \<Rightarrow> (auth_writeError 500 ''misconfigured auth provider'' w, Returned, s)
      | Some authn \<Rightarrow>
          (case authn r s of
             (Inl err, s') \<Rightarrow> tryProviders auths ps nxt r w s'
           | (Inr result, s') \<Rightarrow> nxt (r\<lparr>ctx_auth := Some (result\<lparr>Provider := name\<rparr>)\<rparr>) w s'))"

definition NewAuthMiddleware :: "(string \<rightharpoonup> 'w authenticator) \<Rightarrow> string list \<Rightarrow> 'w middleware" where
  "NewAuthMiddleware auths providers nxt r w s =
     (if providers = [] then (auth_writeError 500 ''misconfigured auth middleware'' w, Returned, s)
      else if providers = [''none''] then nxt r w s
      else tryProviders auths providers nxt r w s)"

section \<open>What is relied on of the JWT library\<close>

text \<open>The documentation of \<open>jwt.Parse\<close> with \<open>WithValidMethods\<close>, \<open>WithIssuer\<close> and \<open>WithAudience\<close>:
  a token is returned without error only if its \<open>alg\<close> is one of the valid methods (any, without that option), the key
  function accepted its method and gave a key under which the signature verifies, and issuer
  and audience are the demanded ones. \<open>method_of\<close>, \<open>alg_of\<close>, \<open>signed\<close>, \<open>iss_of\<close> and \<open>aud_of\<close> read a
  token.\<close>

record token_reading =
  method_of :: "string \<Rightarrow> signing_method"
  alg_of :: "string \<Rightarrow> string"
  signed :: "string \<Rightarrow> signing_key \<Rightarrow> bool"
  iss_of :: "string \<Rightarrow> string"
  aud_of :: "string \<Rightarrow> string list"

definition jwt_documented :: "token_reading \<Rightarrow> 'w auth_lib \<Rightarrow> bool" where
  "jwt_documented rd lib \<longleftrightarrow>
     (\<forall>tok kf opts t. al_jwtParse lib tok kf opts = Inr t \<longrightarrow>
        (\<forall>ms. jo_methods opts = Some ms \<longrightarrow> alg_of rd tok \<in> set ms) \<and>
        (\<exists>k. kf (method_of rd tok) (alg_of rd tok) = Inr k \<and> signed rd tok k) \<and>
        (\<forall>i. jo_issuer opts = Some i \<longrightarrow> iss_of rd tok = i) \<and>
        (\<forall>a. jo_audience opts = Some a \<longrightarrow> a \<in> set (aud_of rd tok)))"

text \<open>A library that accepts the single token \<open>t\<close>, signed by the secret \<open>k\<close> with HS256.\<close>

definition demo_reading :: token_reading where
  "demo_reading = \<lparr>method_of = (\<lambda>_. MethodHMAC), alg_of = (\<lambda>_. ''HS256''),
     signed = (\<lambda>tok key. tok = ''t'' \<and> key = HMACSecret ''k''), iss_of = (\<lambda>_. ''me''), aud_of = (\<lambda>_. [''api''])\<rparr>"

definition demo_lib :: "'w auth_lib" where
  "demo_lib = \<lparr>al_readFile = (\<lambda>_. Inl []), al_pemDecode = (\<lambda>_. None), al_parsePKIX = (\<lambda>_. Inl []),
     al_parsePKCS1 = (\<lambda>_. Inl []),
     al_jwtParse = (\<lambda>tok kf opts.
       if tok = ''t'' \<and> jo_methods opts \<in> {None, Some [''HS256'']} \<and> kf MethodHMAC ''HS256'' = Inr (HMACSecret ''k'') \<and>
          jo_issuer opts \<in> {None, Some ''me''} \<and> jo_audience opts \<in> {None, Some ''api''}
       then Inr \<lparr>jt_claims = Map.empty, jt_subject = ''bob'', jt_valid = True\<rparr>
       else Inl \<lparr>je_expired = False, je_signatureInvalid = True, je_text = []\<rparr>),
     al_discover = (\<lambda>_. None), al_verify = (\<lambda>_ _ _ s. (Inl \<lparr>oe_expired = True, oe_text = []\<rparr>, s)),
     al_newRequest = (\<lambda>_. None), al_post = (\<lambda>_ _ _ s. (Inl [], s)), al_decodeIntrospection = (\<lambda>_. Inl [])\<rparr>"

section \<open>Lemmas\<close>

lemma canon_auth [simp]: "CanonicalHeaderKey ''Authorization'' = ''Authorization''"
  by code_simp

lemma acts_auth_writeError [intro, simp]: "acts w (auth_writeError status m w)"
  by (simp add: auth_writeError_def)

lemma tryProviders_acts:
  "well_behaved nxt \<Longrightarrow> tryProviders auths ps nxt r w s = (w', out, s') \<Longrightarrow> acts w w'"
  by (induction ps arbitrary: s) (auto split: option.splits prod.splits sum.splits dest: well_behavedD)

interpretation auth: wellbehaved "NewAuthMiddleware auths providers"
proof
  fix nxt :: "'a handler"
  assume nx: "well_behaved nxt"
  show "well_behaved (NewAuthMiddleware auths providers nxt)"
    by (rule well_behavedI)
      (auto simp: NewAuthMiddleware_def split: if_splits dest: well_behavedD [OF nx] tryProviders_acts [OF nx])
qed

lemma tryProviders_guard:
  "(\<exists>status msg s'. status \<in> {401, 500} \<and>
      (\<forall>nxt. tryProviders auths ps nxt r w s = (auth_writeError status msg w, Returned, s'))) \<or>
   (\<exists>name authn s1 ar s2. name \<in> set ps \<and> auths name = Some authn \<and> authn r s1 = (Inr ar, s2) \<and>
      (\<forall>nxt. tryProviders auths ps nxt r w s = nxt (r\<lparr>ctx_auth := Some (ar\<lparr>Provider := name\<rparr>)\<rparr>) w s2))"
proof (induction ps arbitrary: s)
  case Nil
  show ?case by (intro disjI1 exI [of _ 401]) auto
next
  case (Cons name ps)
  show ?case
  proof (cases "auths name")
    case None
    then show ?thesis by (intro disjI1 exI [of _ 500]) auto
  next
    case (Some authn)
    obtain res s' where a: "authn r s = (res, s')" by fastforce
    show ?thesis
    proof (cases res)
      case (Inl e)
      with Some a have "tryProviders auths (name # ps) nxt r w s = tryProviders auths ps nxt r w s'" for nxt
        by simp
      with Cons.IH [of s'] show ?thesis by (simp only: list.set insert_iff simp_thms) blast
    next
      case (Inr ar)
      have "tryProviders auths (name # ps) nxt r w s = nxt (r\<lparr>ctx_auth := Some (ar\<lparr>Provider := name\<rparr>)\<rparr>) w s'"
        for nxt using Some a Inr by simp
      then show ?thesis
        using Some a Inr
        by (intro disjI2 exI [of _ name] exI [of _ authn] exI [of _ s] exI [of _ ar] exI [of _ s']) simp
    qed
  qed
qed

lemma matchKey_accepts: "(\<exists>ar. matchKey key es = Inr ar) \<longleftrightarrow> key \<in> set (map Key es)"
  by (induction es) auto

lemma keyFunc_accepts:
  "keyFunc key meth alg = Inr k \<Longrightarrow> k = key \<and>
     (case key of HMACSecret _ \<Rightarrow> meth = MethodHMAC | RSAKey _ \<Rightarrow> meth = MethodRSA | ECDSAKey _ \<Rightarrow> meth = MethodECDSA)"
  by (auto simp: keyFunc_def Let_def split: signing_key.splits if_splits)

section \<open>Properties\<close>

text \<open>No request passes unauthenticated. With providers other than the single \<open>none\<close>, either the
  answer is a 401 or 500 of the middleware and the handler below is never called, or one of the
  configured providers accepted this request and the handler gets the request with exactly that
  result and the provider's name in its context.\<close>

theorem auth_guards_handler:
  assumes "providers \<noteq> [''none'']"
  shows "(\<exists>status msg s'. status \<in> {401, 500} \<and>
      (\<forall>nxt. NewAuthMiddleware auths providers nxt r w s = (auth_writeError status msg w, Returned, s'))) \<or>
   (\<exists>name authn s1 ar s2. name \<in> set providers \<and> auths name = Some authn \<and> authn r s1 = (Inr ar, s2) \<and>
      (\<forall>nxt. NewAuthMiddleware auths providers nxt r w s =
         nxt (r\<lparr>ctx_auth := Some (ar\<lparr>Provider := name\<rparr>)\<rparr>) w s2))"
proof (cases "providers = []")
  case True
  then show ?thesis by (intro disjI1 exI [of _ 500]) (auto simp: NewAuthMiddleware_def)
next
  case False
  with assms tryProviders_guard [of auths providers r w s] show ?thesis
    by (simp add: NewAuthMiddleware_def)
qed

theorem auth_guards_handler_witness:
  "\<exists>status msg. status \<in> {401, 500} \<and>
     (\<forall>nxt. NewAuthMiddleware [''k'' \<mapsto> \<lambda>r s. (Inl ''no'', s)] [''k''] nxt (bareRequest ''GET'' ''/'' Map.empty)
        (ServerResponse fresh_conn) () = (auth_writeError status msg (ServerResponse fresh_conn), Returned, ()))"
  using auth_guards_handler [of "[''k'']" "[''k'' \<mapsto> \<lambda>r s. (Inl ''no'', s)]"
      "bareRequest ''GET'' ''/'' Map.empty" "ServerResponse fresh_conn" "()"]
  by (auto split: if_splits)

text \<open>An API key request is accepted exactly if the configured header holds a non-empty value
  equal to one of the configured keys; the name reported is the name of the first such key.\<close>

theorem apikey_accepts_iff:
  "(\<exists>ar. fst (APIKey_Authenticate (NewAPIKeyAuthenticator cfg) r s) = Inr ar) \<longleftrightarrow>
     (let key = Get (Header r) (if APIKeyHeader cfg = [] then ''X-API-Key'' else APIKeyHeader cfg)
      in key \<noteq> [] \<and> key \<in> set (map Key (Keys cfg)))"
  using matchKey_accepts [of _ "Keys cfg"]
  by (auto simp: APIKey_Authenticate_def NewAPIKeyAuthenticator_def Let_def split: if_splits)

text \<open>C22: A JWT is accepted only if it is what the configuration demands: its algorithm is the
  configured one, its signature verifies under the configured key with a method of that key's
  family (so an RSA public key is never used as an HMAC secret), and issuer and audience are the
  configured ones where configured. This rests on the documented behaviour of the JWT library.\<close>

theorem jwt_accepts_only_configured:
  assumes "jwt_documented rd lib" and "bearerToken r = Inr tok"
    and "fst (JWT_Authenticate lib a r s) = Inr ar"
  shows "alg_of rd tok = ja_algorithm a \<and> signed rd tok (ja_signingKey a) \<and>
    (case ja_signingKey a of HMACSecret _ \<Rightarrow> method_of rd tok = MethodHMAC
       | RSAKey _ \<Rightarrow> method_of rd tok = MethodRSA | ECDSAKey _ \<Rightarrow> method_of rd tok = MethodECDSA) \<and>
    (ja_issuer a \<noteq> [] \<longrightarrow> iss_of rd tok = ja_issuer a) \<and>
    (ja_audience a \<noteq> [] \<longrightarrow> ja_audience a \<in> set (aud_of rd tok))"
proof -
  obtain t where t: "al_jwtParse lib tok (keyFunc (ja_signingKey a)) (parserOpts a) = Inr t"
    using assms(2,3) by (auto simp: JWT_Authenticate_def split: sum.splits if_splits)
  with assms(1) have d: "\<forall>ms. jo_methods (parserOpts a) = Some ms \<longrightarrow> alg_of rd tok \<in> set ms"
    "\<exists>k. keyFunc (ja_signingKey a) (method_of rd tok) (alg_of rd tok) = Inr k \<and> signed rd tok k"
    "\<forall>i. jo_issuer (parserOpts a) = Some i \<longrightarrow> iss_of rd tok = i"
    "\<forall>i. jo_audience (parserOpts a) = Some i \<longrightarrow> i \<in> set (aud_of rd tok)"
    unfolding jwt_documented_def by blast+
  from d(2) obtain k where "keyFunc (ja_signingKey a) (method_of rd tok) (alg_of rd tok) = Inr k" "signed rd tok k"
    by blast
  with keyFunc_accepts [OF this(1)] d show ?thesis by (simp add: parserOpts_def)
qed

theorem jwt_accepts_only_configured_witness:
  "fst (JWT_Authenticate demo_lib \<lparr>ja_signingKey = HMACSecret ''k'', ja_algorithm = ''HS256'', ja_issuer = ''me'',
       ja_audience = []\<rparr> (bareRequest ''GET'' ''/'' (Set ''Authorization'' ''bearer t'' Map.empty)) ()) =
     Inr \<lparr>Subject = ''bob'', Claims = Some Map.empty, AuthName = [], Provider = []\<rparr> \<and>
   iss_of demo_reading ''t'' = ''me''"
proof -
  let ?a = "\<lparr>ja_signingKey = HMACSecret ''k'', ja_algorithm = ''HS256'', ja_issuer = ''me'', ja_audience = []\<rparr>"
  let ?r = "bareRequest ''GET'' ''/'' (Set ''Authorization'' ''bearer t'' Map.empty)"
  have d: "jwt_documented demo_reading demo_lib"
    by (auto simp: jwt_documented_def demo_reading_def demo_lib_def split: if_splits)
  have "EqualFold ''bearer'' ''Bearer''" by code_simp
  then have b: "bearerToken ?r = Inr ''t''" by (simp add: bearerToken_def Let_def)
  then have ok: "fst (JWT_Authenticate demo_lib ?a ?r ()) =
      Inr \<lparr>Subject = ''bob'', Claims = Some Map.empty, AuthName = [], Provider = []\<rparr>"
    by (simp add: JWT_Authenticate_def demo_lib_def keyFunc_def parserOpts_def)
  from jwt_accepts_only_configured [OF d b ok] ok show ?thesis by simp
qed

text \<open>With an introspection endpoint the configured audience plays no part: an authenticator
  accepts and refuses the same requests whatever audience it was given.\<close>

theorem introspection_ignores_audience:
  assumes "oa_introspectionURL a \<noteq> []"
  shows "OIDC_Authenticate lib (a\<lparr>oa_audience := x, oa_verifier := v\<rparr>) r s = OIDC_Authenticate lib a r s"
  using assms by (simp add: OIDC_Authenticate_def introspect_def split: sum.split option.split)

theorem introspection_ignores_audience_witness:
  "OIDC_Authenticate demo_lib \<lparr>oa_verifier = None, oa_audience = ''other'', oa_introspectionURL = ''http://x'',
      oa_clientID = [], oa_clientSecret = []\<rparr> (bareRequest ''GET'' ''/'' Map.empty) () =
   OIDC_Authenticate demo_lib \<lparr>oa_verifier = None, oa_audience = ''api'', oa_introspectionURL = ''http://x'',
      oa_clientID = [], oa_clientSecret = []\<rparr> (bareRequest ''GET'' ''/'' Map.empty) ()"
  using introspection_ignores_audience [of "\<lparr>oa_verifier = None, oa_audience = ''api'',
      oa_introspectionURL = ''http://x'', oa_clientID = [], oa_clientSecret = []\<rparr>" demo_lib None "''other''"
      "bareRequest ''GET'' ''/'' Map.empty" "()"]
  by simp

end
