(* ===== verification/Transform.thy ===== *)
theory Transform
  imports Middleware NetIP VarPattern
begin

text \<open>
  The transform middlewares of \<open>internal/middleware/transform/transform.go\<close>: placeholders, header
  and JSON body transforms, \<open>RequestTransform\<close> and \<open>ResponseTransform\<close>. JSON decoding and encoding
  and the RFC 3339 format are fields of a record of library functions; decoding tells apart a text
  that is no object, the text \<open>null\<close> (which gives a nil map) and an object. Writing to a nil map
  panics in Go, so \<open>transformBody\<close> has a panic among its results.
\<close>

section \<open>Library functions\<close>

datatype decoded = NotAnObject | NilMap | ObjectMap "string \<rightharpoonup> json"

record 'w tf_lib =
  tf_now :: "'w \<Rightarrow> int"
  tf_rfc3339 :: "int \<Rightarrow> string"
  tf_unmarshal :: "string \<Rightarrow> decoded"
  tf_marshal :: "(string \<rightharpoonup> json) \<Rightarrow> string option"
  tf_readFails :: "request \<Rightarrow> bool"

section \<open>Placeholders\<close>

definition defaultMaxTransformBodySize :: int where
  "defaultMaxTransformBodySize = 10 * 2 ^ 20"

definition effectiveMaxBody :: "int \<Rightarrow> int" where
  "effectiveMaxBody configuredSize =
     (if 0 < configuredSize then configuredSize else defaultMaxTransformBodySize)"

definition clientIP :: "request \<Rightarrow> string" where
  "clientIP r =
     (let xff = Get (Header r) ''X-Forwarded-For''
      in if xff \<noteq> [] then
           (case Cut xff (CHR '','') of (ip, _, ok) \<Rightarrow> if ok then TrimSpace ip else TrimSpace xff)
         else (case SplitHostPort (RemoteAddr r) of None \<Rightarrow> RemoteAddr r | Some (host, _) \<Rightarrow> host))"

definition variable :: "(int \<Rightarrow> string) \<Rightarrow> int \<Rightarrow> request \<Rightarrow> int option \<Rightarrow> string \<Rightarrow> string" where
  "variable rfc3339 t r latencyMs name =
     (if name = ''request_id'' then RequestIDFromContext r
      else if name = ''client_ip'' then clientIP r
      else if name = ''timestamp_iso'' then rfc3339 t
      else if name = ''timestamp_unix'' then Itoa (Unix t)
      else if name = ''latency_ms'' then (case latencyMs of Some l \<Rightarrow> Itoa l | None \<Rightarrow> ''0'')
      else if name = ''route_name'' then
        (case RouteFromContext r of Some mr \<Rightarrow> RouteName (MatchedConfig mr) | None \<Rightarrow> [])
      else if name = ''method'' then Method r
      else if name = ''path'' then URLPath r
      else placeholder name)"

definition resolveVariables :: "(int \<Rightarrow> string) \<Rightarrow> int \<Rightarrow> string \<Rightarrow> request \<Rightarrow> int option \<Rightarrow> string" where
  "resolveVariables rfc3339 t s r latencyMs = ReplaceVars (variable rfc3339 t r latencyMs) s"

definition isJSON :: "string \<Rightarrow> bool" where
  "isJSON ct = (TrimSpace (fst (Cut ct (CHR '';''))) = ''application/json'')"

section \<open>Headers and bodies\<close>

fun removeHeaders :: "string list \<Rightarrow> header \<Rightarrow> header" where
  "removeHeaders [] h = h"
| "removeHeaders (n # ns) h = removeHeaders ns (Del n h)"

fun renameHeaders :: "(string \<times> string) list \<Rightarrow> header \<Rightarrow> header" where
  "renameHeaders [] h = h"
| "renameHeaders ((old, new) # rs) h =
     (let vals = Values h old
      in renameHeaders rs (if vals = [] then h else foldl (\<lambda>g v. Add new v g) (Del old h) vals))"

fun addConfigured :: "(string \<Rightarrow> string) \<Rightarrow> (string \<times> string) list \<Rightarrow> header \<Rightarrow> header" where
  "addConfigured res [] h = h"
| "addConfigured res ((name, val) # xs) h = addConfigured res xs (Set name (res val) h)"

definition transformHeaders ::
  "(int \<Rightarrow> string) \<Rightarrow> int \<Rightarrow> HeaderTransform option \<Rightarrow> request \<Rightarrow> int option \<Rightarrow> header \<Rightarrow> header" where
  "transformHeaders rfc3339 t cfg r latencyMs h = (case cfg of
       None \<Rightarrow> h
     | Some c \<Rightarrow>
         addConfigured (\<lambda>v. resolveVariables rfc3339 t v r latencyMs) (ht_Add c)
           (renameHeaders (ht_Rename c) (removeHeaders (ht_Remove c) h)))"

fun stripFields :: "string list \<Rightarrow> (string \<rightharpoonup> json) \<Rightarrow> (string \<rightharpoonup> json)" where
  "stripFields [] d = d"
| "stripFields (f # fs) d = stripFields fs (d(f := None))"

fun renameKeys :: "(string \<times> string) list \<Rightarrow> (string \<rightharpoonup> json) \<Rightarrow> (string \<rightharpoonup> json)" where
  "renameKeys [] d = d"
| "renameKeys ((old, newKey) # rs) d =
     renameKeys rs (case d old of None \<Rightarrow> d | Some v \<Rightarrow> (d(newKey \<mapsto> v))(old := None))"

fun injectFields :: "(string \<Rightarrow> string) \<Rightarrow> (string \<times> json) list \<Rightarrow> (string \<rightharpoonup> json) \<Rightarrow> (string \<rightharpoonup> json)" where
  "injectFields res [] d = d"
| "injectFields res ((key, v) # xs) d =
     injectFields res xs (d(key \<mapsto> (case v of JStr s \<Rightarrow> JStr (res s) | _ \<Rightarrow> v)))"

text \<open>The new body, the error of the encoder, or the panic of an assignment to a nil map.\<close>

datatype body_result = NewBody string | BodyError | BodyPanic

definition transformBody ::
  "'w tf_lib \<Rightarrow> int \<Rightarrow> string \<Rightarrow> BodyTransform option \<Rightarrow> request \<Rightarrow> int option \<Rightarrow> body_result" where
  "transformBody lib t body cfg r latencyMs = (case cfg of
       None \<Rightarrow> NewBody body
     | Some c \<Rightarrow>
         if body = [] then NewBody body
         else (let encode = (\<lambda>d. case tf_marshal lib d of None \<Rightarrow> BodyError | Some b \<Rightarrow> NewBody b)
               in case tf_unmarshal lib body of
                    NotAnObject \<Rightarrow> NewBody body
                  | NilMap \<Rightarrow> if InjectFields c \<noteq> [] then BodyPanic else NewBody ''null''
                  | ObjectMap d \<Rightarrow>
                      encode (injectFields (\<lambda>v. resolveVariables (tf_rfc3339 lib) t v r latencyMs) (InjectFields c)
                        (renameKeys (RenameKeys c) (stripFields (StripFields c) d)))))"

section \<open>RequestTransform\<close>

definition RequestTransform :: "'w tf_lib \<Rightarrow> DirectionTransform option \<Rightarrow> int \<Rightarrow> 'w middleware" where
  "RequestTransform lib cfg maxBodySize nxt r0 w s =
     (let t = tf_now lib s; r = r0\<lparr>ctx_start := Some t\<rparr>
      in case cfg of
           None \<Rightarrow> nxt r w s
         | Some c \<Rightarrow>
             (let r1 = r\<lparr>Header := transformHeaders (tf_rfc3339 lib) t (dt_Headers c) r None (Header r)\<rparr>
              in if dt_Body c = None \<or> \<not> isJSON (Get (Header r1) ''Content-Type'') then nxt r1 w s
                 else (case Body r1 of
                     None \<Rightarrow> (w, Panicked ''nil pointer dereference'', s)
                   | Some body \<Rightarrow>
                       if tf_readFails lib r1 then
                         (writeErrorJSON 502 ''bad_gateway'' ''failed to read request body'' w, Returned, s)
                       else if effectiveMaxBody maxBodySize < int (length body) then
                         (writeErrorJSON 413 ''request_too_large'' ''request body exceeds transform size limit'' w,
                          Returned, s)
                       else if body = [] then nxt r1 w s
                       else (case transformBody lib t body (dt_Body c) r1 None of
                           BodyPanic \<Rightarrow> (w, Panicked ''assignment to entry in nil map'', s)
                         | BodyError \<Rightarrow> nxt r1 w s
                         | NewBody b \<Rightarrow>
                             nxt (r1\<lparr>Body := Some b, ContentLength := int (length b),
                                     Header := Set ''Content-Length'' (Itoa (int (length b))) (Header r1)\<rparr>) w s))))"

section \<open>ResponseTransform\<close>

definition newBuffering :: "int \<Rightarrow> writer" where
  "newBuffering limit = BufferingResponseWriter
     \<lparr>buf_headers = Map.empty, buf_body = [], buf_statusCode = 200, buf_wroteHeader = False,
      buf_maxBody = limit, buf_exceeded = False\<rparr>"

definition buffered :: "writer \<Rightarrow> buffering_fields" where
  "buffered w = (case w of BufferingResponseWriter f \<Rightarrow> f
     | _ \<Rightarrow> \<lparr>buf_headers = Map.empty, buf_body = [], buf_statusCode = 200, buf_wroteHeader = False,
             buf_maxBody = 0, buf_exceeded = False\<rparr>)"

definition sendBuffered :: "header \<Rightarrow> int \<Rightarrow> string \<Rightarrow> writer \<Rightarrow> writer" where
  "sendBuffered h status body w =
     fst (Write body (WriteHeader status (updHeader
       (addHeaders (Set ''Content-Length'' (Itoa (int (length body))) (Del ''Transfer-Encoding'' h))) w)))"

definition latencyOf :: "int \<Rightarrow> request \<Rightarrow> int" where
  "latencyOf t r = (case ctx_start r of Some start \<Rightarrow> Milliseconds (Sub t start) | None \<Rightarrow> 0)"

text \<open>The body that goes out: the transformed one, or the buffered one where there is nothing to
  transform or the encoder fails.\<close>

definition responseBody ::
  "'w tf_lib \<Rightarrow> int \<Rightarrow> DirectionTransform \<Rightarrow> request \<Rightarrow> header \<Rightarrow> string \<Rightarrow> body_result" where
  "responseBody lib t c r h body =
     (if dt_Body c \<noteq> None \<and> isJSON (Get h ''Content-Type'') \<and> body \<noteq> [] then
        (case transformBody lib t body (dt_Body c) r (Some (latencyOf t r)) of
           BodyError \<Rightarrow> NewBody body
         | res \<Rightarrow> res)
      else NewBody body)"

definition ResponseTransform :: "'w tf_lib \<Rightarrow> DirectionTransform option \<Rightarrow> int \<Rightarrow> 'w middleware" where
  "ResponseTransform lib cfg maxBodySize nxt r w s =
     (case cfg of
        None \<Rightarrow> nxt r w s
      | Some c \<Rightarrow>
          (case nxt r (newBuffering (effectiveMaxBody maxBodySize)) s of
             (bw, Panicked p, s1) \<Rightarrow> (w, Panicked p, s1)
           | (bw, Returned, s1) \<Rightarrow>
               (let buf = buffered bw
                in if buf_exceeded buf then
                     (writeErrorJSON 502 ''bad_gateway'' ''upstream response body exceeds transform size limit'' w,
                      Returned, s1)
                   else
                     (let t = tf_now lib s1;
                          h = transformHeaders (tf_rfc3339 lib) t (dt_Headers c) r (Some (latencyOf t r)) (buf_headers buf)
                      in case responseBody lib t c r h (buf_body buf) of
                           NewBody b \<Rightarrow> (sendBuffered h (buf_statusCode buf) b w, Returned, s1)
                         | _ \<Rightarrow> (w, Panicked ''assignment to entry in nil map'', s1)))))"

text \<open>A library for examples: the text \<open>null\<close> is a nil map, any other text no object.\<close>

definition demo_tf :: "unit tf_lib" where
  "demo_tf = \<lparr>tf_now = (\<lambda>_. 0), tf_rfc3339 = (\<lambda>_. []),
     tf_unmarshal = (\<lambda>b. if b = ''null'' then NilMap else NotAnObject), tf_marshal = (\<lambda>_. None),
     tf_readFails = (\<lambda>_. False)\<rparr>"

section \<open>Lemmas\<close>

lemma canon_transform [simp]:
  "CanonicalHeaderKey ''Content-Length'' = ''Content-Length''"
  "CanonicalHeaderKey ''Transfer-Encoding'' = ''Transfer-Encoding''"
  by code_simp+

lemma acts_sendBuffered [intro, simp]: "acts w (sendBuffered h status body w)"
  unfolding sendBuffered_def by (meson acts_Write acts_WriteHeader acts_trans acts_updHeader)

interpretation requestTransform: wellbehaved "RequestTransform lib cfg maxBody"
proof
  fix nxt :: "'a handler"
  assume nx: "well_behaved nxt"
  show "well_behaved (RequestTransform lib cfg maxBody nxt)"
    by (rule well_behavedI)
      (auto simp: RequestTransform_def Let_def split: option.splits if_splits body_result.splits
        dest: well_behavedD [OF nx])
qed

interpretation responseTransform: wellbehaved "ResponseTransform lib cfg maxBody"
proof
  fix nxt :: "'a handler"
  assume nx: "well_behaved nxt"
  show "well_behaved (ResponseTransform lib cfg maxBody nxt)"
    by (rule well_behavedI)
      (auto simp: ResponseTransform_def Let_def split: option.splits if_splits body_result.splits
        prod.splits outcome.splits dest: well_behavedD [OF nx])
qed

lemma Values_remove:
  "Values (removeHeaders ns h) k =
    (if CanonicalHeaderKey k \<in> CanonicalHeaderKey ` set ns then [] else Values h k)"
  by (induction ns arbitrary: h) auto

lemma Values_foldl_Add_other:
  "CanonicalHeaderKey n \<noteq> CanonicalHeaderKey k \<Longrightarrow> Values (foldl (\<lambda>g v. Add n v g) h vs) k = Values h k"
  by (induction vs arbitrary: h) auto

lemma Values_rename_absent:
  "Values h k = [] \<Longrightarrow> CanonicalHeaderKey k \<notin> CanonicalHeaderKey ` snd ` set rs \<Longrightarrow>
    Values (renameHeaders rs h) k = []"
  by (induction rs h rule: renameHeaders.induct) (auto simp: Let_def Values_foldl_Add_other)

lemma Values_addConfigured_absent:
  "Values h k = [] \<Longrightarrow> CanonicalHeaderKey k \<notin> CanonicalHeaderKey ` fst ` set xs \<Longrightarrow>
    Values (addConfigured res xs h) k = []"
  by (induction res xs h rule: addConfigured.induct) auto

section \<open>Properties\<close>

text \<open>A header that is to be removed is absent after the transform, however it was spelt,
  unless the same configuration adds it or renames another header to it.\<close>

theorem removed_headers_absent:
  assumes "CanonicalHeaderKey name \<in> CanonicalHeaderKey ` set (ht_Remove c)"
    and "CanonicalHeaderKey name \<notin> CanonicalHeaderKey ` snd ` set (ht_Rename c)"
    and "CanonicalHeaderKey name \<notin> CanonicalHeaderKey ` fst ` set (ht_Add c)"
  shows "Values (transformHeaders rfc3339 t (Some c) r latencyMs h) name = []"
  using assms
  by (simp add: transformHeaders_def Values_addConfigured_absent Values_rename_absent Values_remove)

theorem removed_headers_absent_witness:
  "Values (transformHeaders (\<lambda>_. []) 0 (Some \<lparr>ht_Add = [(''X-New'', ''1'')], ht_Remove = [''x-secret''], ht_Rename = []\<rparr>)
     (bareRequest ''GET'' ''/'' Map.empty) None (Set ''X-Secret'' ''s'' Map.empty)) ''X-Secret'' = []"
proof -
  have c: "CanonicalHeaderKey ''X-Secret'' = ''X-Secret''" "CanonicalHeaderKey ''x-secret'' = ''X-Secret''"
    "CanonicalHeaderKey ''X-New'' = ''X-New''" by code_simp+
  show ?thesis by (rule removed_headers_absent) (simp_all add: c)
qed

text \<open>C26: A transformed response is framed correctly: on a connection without a Content-Length, the
  client gets the handler's status, the transformed body, and a Content-Length that is the number
  of bytes of exactly that body, with no Transfer-Encoding from the handler.\<close>

theorem response_transform_frames_body:
  fixes lib :: "'w tf_lib" and r s1 c buf
  defines "h \<equiv> transformHeaders (tf_rfc3339 lib) (tf_now lib s1) (dt_Headers c) r
      (Some (latencyOf (tf_now lib s1) r)) (buf_headers buf)"
  assumes "nxt r (newBuffering (effectiveMaxBody m)) s = (BufferingResponseWriter buf, Returned, s1)"
    and "\<not> buf_exceeded buf" and "\<not> informational (buf_statusCode buf)"
    and "bodyAllowedForStatus (buf_statusCode buf)"
    and "responseBody lib (tf_now lib s1) c r h (buf_body buf) = NewBody b" and "b \<noteq> []"
    and "clean w" and "base_conn w = Some c0" and "Values (headers w) ''Content-Length'' = []"
    and "Values (headers w) ''Transfer-Encoding'' = []"
  shows "\<exists>u k. ResponseTransform lib (Some c) m nxt r w s = (u, Returned, s1) \<and> base_conn u = Some k \<and>
    conn_status k = Some (buf_statusCode buf) \<and> conn_body k = conn_body c0 @ b \<and>
    Values (conn_sent k) ''Content-Length'' = [Itoa (int (length b))] \<and>
    Values (conn_sent k) ''Transfer-Encoding'' = []"
proof -
  have eq: "ResponseTransform lib (Some c) m nxt r w s = (sendBuffered h (buf_statusCode buf) b w, Returned, s1)"
    using assms(2,3,6) by (simp add: ResponseTransform_def buffered_def Let_def h_def)
  from answer_clean [OF assms(8,4,5,9,7)]
  obtain k where "base_conn (sendBuffered h (buf_statusCode buf) b w) = Some k"
    "conn_status k = Some (buf_statusCode buf)" "conn_body k = conn_body c0 @ b"
    "conn_sent k = addHeaders (Set ''Content-Length'' (Itoa (int (length b)))
        (Del ''Transfer-Encoding'' h)) (headers w)"
    unfolding sendBuffered_def by blast
  with eq assms(10,11) show ?thesis by simp
qed

theorem response_transform_frames_body_witness:
  "\<exists>u k. ResponseTransform demo_tf (Some \<lparr>dt_Headers = None, dt_Body = None\<rparr>) 0
      (\<lambda>r w s. (fst (Write ''hello'' (WriteHeader 201 w)), Returned, s)) (bareRequest ''GET'' ''/'' Map.empty)
      (ServerResponse fresh_conn) () = (u, Returned, ()) \<and> base_conn u = Some k \<and>
    conn_status k = Some 201 \<and> conn_body k = ''hello'' \<and> Values (conn_sent k) ''Content-Length'' = [''5'']"
proof -
  let ?c = "\<lparr>dt_Headers = None, dt_Body = None\<rparr> :: DirectionTransform"
  let ?n = "\<lambda>r w s. (fst (Write ''hello'' (WriteHeader 201 w)), Returned, s)"
  let ?buf = "\<lparr>buf_headers = Map.empty, buf_body = ''hello'', buf_statusCode = 201, buf_wroteHeader = True,
      buf_maxBody = effectiveMaxBody 0, buf_exceeded = False\<rparr>"
  have n: "?n (bareRequest ''GET'' ''/'' Map.empty) (newBuffering (effectiveMaxBody 0)) () =
      (BufferingResponseWriter ?buf, Returned, ())"
    by (simp add: newBuffering_def buf_Write_def buf_WriteHeader_def effectiveMaxBody_def
        defaultMaxTransformBodySize_def Let_def)
  have i: "Itoa 5 = ''5''" by code_simp
  have v: "Values (headers (ServerResponse fresh_conn)) k = []" for k by (simp add: fresh_conn_def Values_def)
  from response_transform_frames_body [where nxt = ?n and lib = demo_tf and c = ?c and m = 0
      and r = "bareRequest ''GET'' ''/'' Map.empty" and b = "''hello''" and ?c0.0 = fresh_conn
      and w = "ServerResponse fresh_conn", OF n] i v
  show ?thesis
    by (auto simp: responseBody_def informational_def bodyAllowedForStatus_def fresh_conn_def)
qed

text \<open>A JSON request whose body is the literal \<open>null\<close> crashes the body transform when fields are
  to be injected: the assignment to the nil map panics before the handler below is reached, and
  the recovery middleware answers 500.\<close>

theorem null_body_injection_panics:
  assumes "tf_unmarshal lib b = NilMap" and "b \<noteq> []" and "InjectFields bt \<noteq> []"
    and "isJSON (Get (Header r) ''Content-Type'')" and "Body r = Some b"
    and "\<forall>q. \<not> tf_readFails lib q" and "int (length b) \<le> effectiveMaxBody m"
    and "clean w" and "base_conn w = Some c0"
  shows "\<exists>u k. (\<forall>nxt. Recovery (RequestTransform lib (Some \<lparr>dt_Headers = None, dt_Body = Some bt\<rparr>) m nxt) r w s =
      (u, Returned, s)) \<and> base_conn u = Some k \<and> conn_status k = Some 500"
proof -
  let ?u = "writeErrorJSON 500 ''internal_error'' ''Internal server error'' w"
  have "RequestTransform lib (Some \<lparr>dt_Headers = None, dt_Body = Some bt\<rparr>) m nxt r w s =
      (w, Panicked ''assignment to entry in nil map'', s)" for nxt
    using assms(1-7)
    by (simp add: RequestTransform_def transformHeaders_def transformBody_def Let_def)
  then have "Recovery (RequestTransform lib (Some \<lparr>dt_Headers = None, dt_Body = Some bt\<rparr>) m nxt) r w s =
      (?u, Returned, s)" for nxt
    by (simp add: Recovery_def)
  moreover obtain k where "base_conn ?u = Some k" "conn_status k = Some 500"
    using writeErrorJSON_clean [OF assms(8) _ _ assms(9), of 500 "''internal_error''" "''Internal server error''"]
    by (auto simp: informational_def bodyAllowedForStatus_def)
  ultimately show ?thesis by blast
qed

theorem null_body_injection_panics_witness:
  "\<exists>u k. Recovery (RequestTransform demo_tf (Some \<lparr>dt_Headers = None,
       dt_Body = Some \<lparr>InjectFields = [(''a'', JBool True)], StripFields = [], RenameKeys = []\<rparr>\<rparr>) 0
       (\<lambda>r w s. (w, Returned, s)))
       ((bareRequest ''POST'' ''/'' (Set ''Content-Type'' ''application/json'' Map.empty))\<lparr>Body := Some ''null''\<rparr>)
       (ServerResponse fresh_conn) () = (u, Returned, ()) \<and> base_conn u = Some k \<and> conn_status k = Some 500"
proof -
  let ?bt = "\<lparr>InjectFields = [(''a'', JBool True)], StripFields = [], RenameKeys = []\<rparr> :: BodyTransform"
  let ?r = "(bareRequest ''POST'' ''/'' (Set ''Content-Type'' ''application/json'' Map.empty))\<lparr>Body := Some ''null''\<rparr>"
  have j: "isJSON ''application/json''" by code_simp
  have "tf_unmarshal demo_tf ''null'' = NilMap" "''null'' \<noteq> []" "InjectFields ?bt \<noteq> []"
    "isJSON (Get (Header ?r) ''Content-Type'')" "Body ?r = Some ''null''" "\<forall>q. \<not> tf_readFails demo_tf q"
    "int (length ''null'') \<le> effectiveMaxBody 0" "clean (ServerResponse fresh_conn)"
    "base_conn (ServerResponse fresh_conn) = Some fresh_conn"
    by (simp_all add: demo_tf_def j effectiveMaxBody_def defaultMaxTransformBodySize_def fresh_conn_def)
  from null_body_injection_panics [OF this, of "()"] show ?thesis by blast
qed

text \<open>Renaming is not a function of the configuration: two renames that touch the same key give
  different bodies in the two orders in which Go may visit the map.\<close>

theorem rename_order_matters:
  "renameKeys [(''a'', ''b''), (''b'', ''c'')] [''a'' \<mapsto> JBool True] ''c'' = Some (JBool True) \<and>
   renameKeys [(''b'', ''c''), (''a'', ''b'')] [''a'' \<mapsto> JBool True] ''c'' = None \<and>
   renameKeys [(''a'', ''a'')] [''a'' \<mapsto> JBool True] ''a'' = None"
  by simp

end
