(* ===== verification/Pipeline.thy ===== *)
theory Pipeline
  imports Observability Proxy RateLimit Retry Auth Transform
begin

text \<open>
  The pipeline builder, \<open>internal/pipeline\<close>: the registry of middleware factories and
  \<open>BuildHandler\<close>, which composes proxy, resilience handlers, transforms, middlewares, router and
  global chain. \<open>FactoryDeps\<close> has the shared resources of the Go struct; what the middlewares call
  of the runtime (clock, random numbers, codecs, transport, heap cells) is the record \<open>runtime\<close>.
  \<open>circuitbreaker.New\<close> allocates: the cell of a route's breaker is given by \<open>go_breaker\<close>, a build
  writes the new breaker there, and \<open>BuildHandler\<close> therefore returns the world too. A panic in the
  builder (of \<open>regexp.MustCompile\<close> in the router) is the error \<open>PanicBuilding\<close>.
\<close>

section \<open>Dependencies\<close>

record 'w FactoryDeps =
  fd_limiter :: "string \<Rightarrow> int \<Rightarrow> int \<Rightarrow> string \<Rightarrow> 'w \<Rightarrow> answer \<times> 'w"
  fd_authenticators :: "string \<rightharpoonup> 'w authenticator"
  fd_observe :: "metric \<Rightarrow> 'w \<Rightarrow> 'w"
  fd_trustedProxies :: "IPNet list"
  fd_emit :: "log_entry \<Rightarrow> 'w \<Rightarrow> 'w"

record 'w runtime =
  go_now :: "'w \<Rightarrow> int"
  go_randRead :: "'w \<Rightarrow> 8 word list \<times> 'w"
  go_rlLib :: rl_lib
  go_transform :: "'w tf_lib"
  go_retry :: "'w retry_env"
  go_proxy :: "'w proxy_env"
  go_holder :: "'w holder_ops"
  go_breaker :: "string \<Rightarrow> ('w \<Rightarrow> CircuitBreaker) \<times> (CircuitBreaker \<Rightarrow> 'w \<Rightarrow> 'w)"

section \<open>Registry\<close>

datatype pipeline_error =
    UnknownMiddlewareType string
  | FactoryConfigType string
  | ResolvingGlobals resolve_error
  | ResolvingRoute string resolve_error
  | TransformConfigType string string
  | BuildingMiddleware string string string pipeline_error
  | PanicBuilding

type_synonym 'w factory = "'w FactoryDeps \<Rightarrow> string \<Rightarrow> string \<Rightarrow> TypedConfig \<Rightarrow> pipeline_error + 'w middleware"
type_synonym 'w registry = "string \<rightharpoonup> 'w factory"

definition NewRegistry :: "'w registry" where
  "NewRegistry = Map.empty"

definition Register :: "string \<Rightarrow> 'w factory \<Rightarrow> 'w registry \<Rightarrow> 'w registry" where
  "Register typeName f r = r(typeName \<mapsto> f)"

definition registry_Build ::
  "'w registry \<Rightarrow> string \<Rightarrow> 'w FactoryDeps \<Rightarrow> string \<Rightarrow> string \<Rightarrow> TypedConfig \<Rightarrow> pipeline_error + 'w middleware" where
  "registry_Build r typeName deps route mwName cfg = (case r typeName of
       None \<Rightarrow> Inl (UnknownMiddlewareType typeName)
     | Some f \<Rightarrow> f deps route mwName cfg)"

definition corsFactory :: "'w factory" where
  "corsFactory deps route mwName cfg = (case cfg of
       CORSCfg c \<Rightarrow> Inr (CORSMiddleware c)
     | _ \<Rightarrow> Inl (FactoryConfigType ''cors''))"

definition limiterEnv :: "'w runtime \<Rightarrow> 'w FactoryDeps \<Rightarrow> 'w rl_env" where
  "limiterEnv rt deps = \<lparr>rl_allow = fd_limiter deps, rl_now = go_now rt,
     incErrors = (\<lambda>route m. fd_observe deps (IncRateLimitErrors route m)),
     incRejected = (\<lambda>route m. fd_observe deps (IncRateLimitRejected route m))\<rparr>"

definition rateLimitFactory :: "'w runtime \<Rightarrow> 'w factory" where
  "rateLimitFactory rt deps route mwName cfg = (case cfg of
       RateLimitCfg c \<Rightarrow>
         Inr (NewRateLimitMiddleware (go_rlLib rt) (limiterEnv rt deps) (Some c) route mwName (fd_trustedProxies deps))
     | _ \<Rightarrow> Inl (FactoryConfigType ''rate_limit''))"

definition authFactory :: "'w factory" where
  "authFactory deps route mwName cfg = (case cfg of
       AuthCfg c \<Rightarrow> Inr (NewAuthMiddleware (fd_authenticators deps) (Providers c))
     | _ \<Rightarrow> Inl (FactoryConfigType ''auth''))"

definition DefaultRegistry :: "'w runtime \<Rightarrow> 'w registry" where
  "DefaultRegistry rt =
     Register ''auth'' authFactory (Register ''rate_limit'' (rateLimitFactory rt)
       (Register ''cors'' corsFactory NewRegistry))"

section \<open>Resilience\<close>

definition breakerOps :: "'w runtime \<Rightarrow> 'w FactoryDeps \<Rightarrow> string \<Rightarrow> 'w breaker_ops" where
  "breakerOps rt deps route = \<lparr>bo_now = go_now rt, bo_get = fst (go_breaker rt route), bo_put = snd (go_breaker rt route),
     bo_onChange = (\<lambda>from to s. fd_observe deps (SetBreakerState route (State_String from) 0)
        (fd_observe deps (SetBreakerState route (State_String to) 1) s))\<rparr>"

definition wrapResilience ::
  "'w runtime \<Rightarrow> 'w FactoryDeps \<Rightarrow> RouteConfig \<Rightarrow> 'w handler \<Rightarrow> 'w \<Rightarrow> 'w handler \<times> 'w" where
  "wrapResilience rt deps route h s =
     (let ops = breakerOps rt deps (RouteName route); env = go_retry rt
      in case RouteCircuitBreaker route of
           Some cb \<Rightarrow>
             ((case Retry route of
                 Some rc \<Rightarrow> retry_ServeHTTP env rc (Some ops) h
               | None \<Rightarrow> cbOnly_ServeHTTP (rt_detect env) ops h),
              bo_put ops (cb_New cb (RouteName route)) s)
         | None \<Rightarrow>
             ((case Retry route of
                 Some rc \<Rightarrow> retry_ServeHTTP env rc None h
               | None \<Rightarrow> h), s))"

definition filterSkipped :: "ResolvedMiddleware list \<Rightarrow> string list \<Rightarrow> ResolvedMiddleware list" where
  "filterSkipped resolved skipNames =
     (if skipNames = [] then resolved else filter (\<lambda>m. rm_Name m \<notin> set skipNames) resolved)"

section \<open>BuildHandler\<close>

text \<open>The two loops from the last middleware to the first get the list reversed.\<close>

fun wrapTransforms ::
  "'w runtime \<Rightarrow> string \<Rightarrow> ResolvedMiddleware list \<Rightarrow> 'w handler \<Rightarrow> pipeline_error + 'w handler" where
  "wrapTransforms rt route [] rh = Inr rh"
| "wrapTransforms rt route (t # ts) rh = (case rm_Config t of
       TransformCfg c \<Rightarrow>
         wrapTransforms rt route ts
           (RequestTransform (go_transform rt) (tc_Request c) (MaxBodySize c)
             (ResponseTransform (go_transform rt) (tc_Response c) (MaxBodySize c) rh))
     | _ \<Rightarrow> Inl (TransformConfigType route (rm_Name t)))"

fun wrapChain ::
  "'w registry \<Rightarrow> 'w FactoryDeps \<Rightarrow> string \<Rightarrow> ResolvedMiddleware list \<Rightarrow> 'w handler \<Rightarrow> pipeline_error + 'w handler" where
  "wrapChain reg deps route [] rh = Inr rh"
| "wrapChain reg deps route (m # ms) rh =
     (case registry_Build reg (rm_Type m) deps route (rm_Name m) (rm_Config m) of
        Inl e \<Rightarrow> Inl (BuildingMiddleware route (rm_Name m) (rm_Type m) e)
      | Inr mw \<Rightarrow> wrapChain reg deps route ms (mw rh))"

definition buildRoute ::
  "yaml_lib \<Rightarrow> 'w runtime \<Rightarrow> 'w FactoryDeps \<Rightarrow> 'w registry \<Rightarrow> GatewayConfig \<Rightarrow> ResolvedMiddleware list \<Rightarrow>
   RouteConfig \<Rightarrow> 'w \<Rightarrow> (pipeline_error + 'w handler) \<times> 'w" where
  "buildRoute lib rt deps reg cfg globalResolved route s =
     (case wrapResilience rt deps route (NewProxyHandler (go_proxy rt) route) s of
        (rh, s') \<Rightarrow>
          (case ResolveMiddlewares lib (RouteMiddlewares route) (map_of (MiddlewareDefinitions cfg)) of
             Inl e \<Rightarrow> (Inl (ResolvingRoute (RouteName route) e), s')
           | Inr routeResolved \<Rightarrow>
               (let allMiddlewares = filterSkipped globalResolved (SkipMiddlewares route) @ routeResolved;
                    transforms = filter (\<lambda>m. rm_Type m = ''transform'') allMiddlewares;
                    chainMiddlewares = filter (\<lambda>m. rm_Type m \<noteq> ''transform'') allMiddlewares
                in case wrapTransforms rt (RouteName route) (rev transforms) rh of
                     Inl e \<Rightarrow> (Inl e, s')
                   | Inr rh' \<Rightarrow> (wrapChain reg deps (RouteName route) (rev chainMiddlewares) rh', s'))))"

fun buildRoutes ::
  "yaml_lib \<Rightarrow> 'w runtime \<Rightarrow> 'w FactoryDeps \<Rightarrow> 'w registry \<Rightarrow> GatewayConfig \<Rightarrow> ResolvedMiddleware list \<Rightarrow>
   RouteConfig list \<Rightarrow> (string \<rightharpoonup> 'w handler) \<Rightarrow> 'w \<Rightarrow> (pipeline_error + (string \<rightharpoonup> 'w handler)) \<times> 'w" where
  "buildRoutes lib rt deps reg cfg globals [] handlers s = (Inr handlers, s)"
| "buildRoutes lib rt deps reg cfg globals (route # routes) handlers s =
     (case buildRoute lib rt deps reg cfg globals route s of
        (Inl e, s') \<Rightarrow> (Inl e, s')
      | (Inr rh, s') \<Rightarrow> buildRoutes lib rt deps reg cfg globals routes (handlers(RouteName route \<mapsto> rh)) s')"

definition globalChain :: "'w runtime \<Rightarrow> 'w FactoryDeps \<Rightarrow> 'w middleware" where
  "globalChain rt deps =
     Chain [Recovery, RequestID (go_randRead rt), Logging (go_now rt) (fd_emit deps),
            Metrics_Middleware (go_now rt) (fd_observe deps) (go_holder rt)]"

definition BuildHandler ::
  "yaml_lib \<Rightarrow> regexp \<Rightarrow> 'w runtime \<Rightarrow> GatewayConfig \<Rightarrow> 'w FactoryDeps \<Rightarrow> 'w registry \<Rightarrow> 'w \<Rightarrow>
   (pipeline_error + 'w handler) \<times> 'w" where
  "BuildHandler lib re rt cfg deps reg s =
     (case ResolveMiddlewares lib (Middlewares cfg) (map_of (MiddlewareDefinitions cfg)) of
        Inl e \<Rightarrow> (Inl (ResolvingGlobals e), s)
      | Inr globalResolved \<Rightarrow>
          (case buildRoutes lib rt deps reg cfg globalResolved (Routes cfg) Map.empty s of
             (Inl e, s') \<Rightarrow> (Inl e, s')
           | (Inr handlers, s') \<Rightarrow>
               (case router_New re (Routes cfg) handlers of
                  None \<Rightarrow> (Inl PanicBuilding, s')
                | Some crs \<Rightarrow> (Inr (globalChain rt deps (Router_ServeHTTP re (ho_set (go_holder rt)) crs)), s'))))"

section \<open>What the pipeline promises\<close>

text \<open>The middleware a resolved entry stands for, and the handler of a route as the documentation
  describes it: the chain in the order of the configuration around the transforms in the order of
  the configuration around the resilient proxy.\<close>

definition middlewareOf :: "'w runtime \<Rightarrow> 'w FactoryDeps \<Rightarrow> string \<Rightarrow> ResolvedMiddleware \<Rightarrow> 'w middleware" where
  "middlewareOf rt deps route m = (case rm_Config m of
       CORSCfg c \<Rightarrow> CORSMiddleware c
     | RateLimitCfg c \<Rightarrow>
         NewRateLimitMiddleware (go_rlLib rt) (limiterEnv rt deps) (Some c) route (rm_Name m) (fd_trustedProxies deps)
     | AuthCfg c \<Rightarrow> NewAuthMiddleware (fd_authenticators deps) (Providers c)
     | TransformCfg c \<Rightarrow> (\<lambda>nxt. RequestTransform (go_transform rt) (tc_Request c) (MaxBodySize c)
         (ResponseTransform (go_transform rt) (tc_Response c) (MaxBodySize c) nxt)))"

definition resilient :: "'w runtime \<Rightarrow> 'w FactoryDeps \<Rightarrow> RouteConfig \<Rightarrow> 'w handler \<Rightarrow> 'w handler" where
  "resilient rt deps route h = (case (Retry route, RouteCircuitBreaker route) of
       (Some rc, Some _) \<Rightarrow> retry_ServeHTTP (go_retry rt) rc (Some (breakerOps rt deps (RouteName route))) h
     | (Some rc, None) \<Rightarrow> retry_ServeHTTP (go_retry rt) rc None h
     | (None, Some _) \<Rightarrow> cbOnly_ServeHTTP (rt_detect (go_retry rt)) (breakerOps rt deps (RouteName route)) h
     | (None, None) \<Rightarrow> h)"

definition routeHandler ::
  "'w runtime \<Rightarrow> 'w FactoryDeps \<Rightarrow> ResolvedMiddleware list \<Rightarrow> RouteConfig \<Rightarrow> 'w handler" where
  "routeHandler rt deps chain route =
     Chain (map (middlewareOf rt deps (RouteName route)) (filter (\<lambda>m. rm_Type m \<noteq> ''transform'') chain))
       (Chain (map (middlewareOf rt deps (RouteName route)) (filter (\<lambda>m. rm_Type m = ''transform'') chain))
         (resilient rt deps route (NewProxyHandler (go_proxy rt) route)))"

definition chainOf :: "yaml_lib \<Rightarrow> GatewayConfig \<Rightarrow> RouteConfig \<Rightarrow> ResolvedMiddleware list" where
  "chainOf lib cfg route =
     (let resolve = (\<lambda>refs. case ResolveMiddlewares lib refs (map_of (MiddlewareDefinitions cfg)) of Inl _ \<Rightarrow> [] | Inr ms \<Rightarrow> ms)
      in effectiveChain (resolve (Middlewares cfg)) route (resolve (RouteMiddlewares route)))"

definition gateway_spec ::
  "yaml_lib \<Rightarrow> regexp \<Rightarrow> 'w runtime \<Rightarrow> GatewayConfig \<Rightarrow> 'w FactoryDeps \<Rightarrow> 'w handler" where
  "gateway_spec lib re rt cfg deps =
     Recovery (RequestID (go_randRead rt) (Logging (go_now rt) (fd_emit deps)
       (Metrics_Middleware (go_now rt) (fd_observe deps) (go_holder rt)
         (serve_spec re (ho_set (go_holder rt)) (Routes cfg)
           (\<lambda>name. map_option (\<lambda>route. routeHandler rt deps (chainOf lib cfg route) route)
              (find (\<lambda>route. RouteName route = name) (Routes cfg)))))))"

definition freshBreakers :: "'w runtime \<Rightarrow> 'w FactoryDeps \<Rightarrow> RouteConfig list \<Rightarrow> 'w \<Rightarrow> 'w" where
  "freshBreakers rt deps = fold (\<lambda>route s. case RouteCircuitBreaker route of
       None \<Rightarrow> s
     | Some cb \<Rightarrow> snd (go_breaker rt (RouteName route)) (cb_New cb (RouteName route)) s)"

text \<open>Two handlers that agree on every request with the headers \<open>H\<close>; an authenticator that refuses
  all of them.\<close>

definition agree_on :: "header \<Rightarrow> 'w handler \<Rightarrow> 'w handler \<Rightarrow> bool" where
  "agree_on H f g \<longleftrightarrow> (\<forall>r w s. Header r = H \<longrightarrow> f r w s = g r w s)"

definition refuses :: "header \<Rightarrow> 'w authenticator \<Rightarrow> bool" where
  "refuses H a \<longleftrightarrow> (\<forall>r s. Header r = H \<longrightarrow> (\<exists>err. fst (a r s) = Inl err))"

text \<open>For examples: a runtime in which nothing happens, with the API key of the example
  configuration and an upstream that answers 200.\<close>

definition demo_runtime :: "'w runtime" where
  "demo_runtime = \<lparr>go_now = (\<lambda>_. 0), go_randRead = (\<lambda>s. (replicate 16 0, s)),
     go_rlLib = \<lparr>sha256 = (\<lambda>_. []), FormatFloat = (\<lambda>_. []), Marshal = (\<lambda>_. None)\<rparr>,
     go_transform = \<lparr>tf_now = (\<lambda>_. 0), tf_rfc3339 = (\<lambda>_. []), tf_unmarshal = (\<lambda>_. NotAnObject),
       tf_marshal = (\<lambda>_. None), tf_readFails = (\<lambda>_. False)\<rparr>,
     go_retry = \<lparr>rt_done = (\<lambda>_. False), rt_sleep = (\<lambda>_ s. s), rt_rand = (\<lambda>s. (0, s)), rt_pow = (\<lambda>_ _. 1),
       rt_readFails = (\<lambda>_. False), rt_detect = (\<lambda>_. [])\<rparr>,
     go_proxy = \<lparr>pe_parseURL = (\<lambda>_. Some (''http'', ''up'')), pe_visit = (\<lambda>_. []),
       pe_roundTrip = (\<lambda>_ _ s. (Inr \<lparr>rs_status = 200, rs_header = Map.empty, rs_body = ''hi''\<rparr>, s))\<rparr>,
     go_holder = \<lparr>ho_new = (\<lambda>s. s), ho_get = (\<lambda>_. None), ho_set = (\<lambda>_ s. s)\<rparr>,
     go_breaker = (\<lambda>_. (\<lambda>_. cb_New \<lparr>FailureThreshold = 1, SuccessThreshold = 1, CBTimeout = 1\<rparr> [], \<lambda>_ s. s))\<rparr>"

definition demo_deps :: "'w FactoryDeps" where
  "demo_deps = \<lparr>fd_limiter = (\<lambda>_ _ _ _ s. (Some (True, 1, 0), s)),
     fd_authenticators = [''keys'' \<mapsto> APIKey_Authenticate (NewAPIKeyAuthenticator
       \<lparr>APIKeyHeader = [], Keys = [\<lparr>Key = ''k1'', KeyName = ''ann''\<rparr>]\<rparr>)],
     fd_observe = (\<lambda>_ s. s), fd_trustedProxies = [], fd_emit = (\<lambda>_ s. s)\<rparr>"

section \<open>Lemmas\<close>

lemma wrapResilience_eq:
  "wrapResilience rt deps route h s = (resilient rt deps route h, freshBreakers rt deps [route] s)"
  by (simp add: wrapResilience_def resilient_def freshBreakers_def breakerOps_def Let_def split: option.split)

lemma filterSkipped_eq: "filterSkipped ms skip = filter (\<lambda>m. rm_Name m \<notin> set skip) ms"
  by (simp add: filterSkipped_def)

lemma Chain_rev_Cons: "Chain (map f (rev (m # ms))) h = Chain (map f (rev ms)) (f m h)"
  by (simp add: Chain_append)

lemma wrapTransforms_ok:
  "\<forall>t \<in> set ts. well_typed t \<and> rm_Type t = ''transform'' \<Longrightarrow>
   wrapTransforms rt route ts rh = Inr (Chain (map (middlewareOf rt deps route) (rev ts)) rh)"
proof (induction rt route ts rh rule: wrapTransforms.induct)
  case (2 rt route t ts rh)
  then obtain c where c: "rm_Config t = TransformCfg c" by (cases "rm_Config t") (auto simp: well_typed_def)
  then have "middlewareOf rt deps route t h = RequestTransform (go_transform rt) (tc_Request c) (MaxBodySize c)
      (ResponseTransform (go_transform rt) (tc_Response c) (MaxBodySize c) h)" for h
    by (simp add: middlewareOf_def)
  with 2 c show ?case unfolding Chain_rev_Cons by simp
qed simp

lemma registry_Build_default:
  assumes "well_typed m" and "rm_Type m \<noteq> ''transform''"
  shows "registry_Build (DefaultRegistry rt) (rm_Type m) deps route (rm_Name m) (rm_Config m) = Inr (middlewareOf rt deps route m)"
  using assms
  by (cases "rm_Config m")
    (simp_all add: well_typed_def registry_Build_def DefaultRegistry_def Register_def NewRegistry_def
      corsFactory_def rateLimitFactory_def authFactory_def middlewareOf_def)

lemma wrapChain_ok:
  "\<forall>m \<in> set ms. well_typed m \<and> rm_Type m \<noteq> ''transform'' \<Longrightarrow>
   wrapChain (DefaultRegistry rt) deps route ms rh = Inr (Chain (map (middlewareOf rt deps route) (rev ms)) rh)"
proof (induction ms arbitrary: rh)
  case (Cons m ms)
  then show ?case unfolding Chain_rev_Cons by (simp add: registry_Build_default)
qed simp

lemma buildRoute_ok:
  assumes "ResolveMiddlewares lib (Middlewares cfg) (map_of (MiddlewareDefinitions cfg)) = Inr globals"
    and "ResolveMiddlewares lib (RouteMiddlewares route) (map_of (MiddlewareDefinitions cfg)) = Inr rs"
  shows "buildRoute lib rt deps (DefaultRegistry rt) cfg globals route s =
    (Inr (routeHandler rt deps (chainOf lib cfg route) route), freshBreakers rt deps [route] s)"
proof -
  let ?all = "filterSkipped globals (SkipMiddlewares route) @ rs"
  have all: "?all = chainOf lib cfg route"
    by (simp add: chainOf_def effectiveChain_def filterSkipped_eq assms)
  have typed: "\<forall>m \<in> set ?all. well_typed m"
    using ResolveMiddlewares_ok [OF assms(1)] ResolveMiddlewares_ok [OF assms(2)]
    by (auto simp: filterSkipped_eq list_all_iff)
  let ?ts = "filter (\<lambda>m. rm_Type m = ''transform'') ?all" and ?ms = "filter (\<lambda>m. rm_Type m \<noteq> ''transform'') ?all"
  have ts: "\<forall>t \<in> set (rev ?ts). well_typed t \<and> rm_Type t = ''transform''"
    and ms: "\<forall>m \<in> set (rev ?ms). well_typed m \<and> rm_Type m \<noteq> ''transform''"
    using typed by auto
  have t: "wrapTransforms rt (RouteName route) (rev ?ts) rh =
      Inr (Chain (map (middlewareOf rt deps (RouteName route)) ?ts) rh)" for rh
    using wrapTransforms_ok [OF ts, of rt "RouteName route" rh deps] by (simp only: rev_rev_ident)
  have m: "wrapChain (DefaultRegistry rt) deps (RouteName route) (rev ?ms) rh =
      Inr (Chain (map (middlewareOf rt deps (RouteName route)) ?ms) rh)" for rh
    using wrapChain_ok [OF ms, of rt deps "RouteName route" rh] by (simp only: rev_rev_ident)
  show ?thesis
    unfolding buildRoute_def wrapResilience_eq prod.case assms(2) sum.case Let_def t m
    unfolding all routeHandler_def by (rule refl)
qed

lemma find_Cons_upd:
  assumes "RouteName route \<notin> RouteName ` set routes"
  shows "(\<lambda>name. case find (\<lambda>r. RouteName r = name) (route # routes) of None \<Rightarrow> handlers name | Some r \<Rightarrow> Some (f r)) =
   (\<lambda>name. case find (\<lambda>r. RouteName r = name) routes of None \<Rightarrow> (handlers(RouteName route \<mapsto> f route)) name | Some r \<Rightarrow> Some (f r))"
proof
  fix name
  show "(case find (\<lambda>r. RouteName r = name) (route # routes) of None \<Rightarrow> handlers name | Some r \<Rightarrow> Some (f r)) =
    (case find (\<lambda>r. RouteName r = name) routes of None \<Rightarrow> (handlers(RouteName route \<mapsto> f route)) name | Some r \<Rightarrow> Some (f r))"
  proof (cases "RouteName route = name")
    case True
    then have "find (\<lambda>r. RouteName r = name) routes = None" using assms by (auto simp: find_None_iff) (metis image_eqI)
    with True show ?thesis by simp
  qed (simp split: option.split)
qed

lemma buildRoutes_ok:
  assumes "ResolveMiddlewares lib (Middlewares cfg) (map_of (MiddlewareDefinitions cfg)) = Inr globals"
    and "\<forall>route \<in> set routes. \<exists>rs. ResolveMiddlewares lib (RouteMiddlewares route) (map_of (MiddlewareDefinitions cfg)) = Inr rs"
    and "distinct (map RouteName routes)"
  shows "buildRoutes lib rt deps (DefaultRegistry rt) cfg globals routes handlers s =
    (Inr (\<lambda>name. case find (\<lambda>r. RouteName r = name) routes of
        None \<Rightarrow> handlers name
      | Some route \<Rightarrow> Some (routeHandler rt deps (chainOf lib cfg route) route)), freshBreakers rt deps routes s)"
  using assms(2,3)
proof (induction routes arbitrary: handlers s)
  case Nil
  then show ?case by (simp add: freshBreakers_def)
next
  case (Cons route routes)
  let ?h = "\<lambda>route. routeHandler rt deps (chainOf lib cfg route) route"
  from Cons.prems(1) obtain rs
    where "ResolveMiddlewares lib (RouteMiddlewares route) (map_of (MiddlewareDefinitions cfg)) = Inr rs" by auto
  note b = buildRoute_ok [OF assms(1) this, of rt deps s]
  have fresh: "freshBreakers rt deps (route # routes) s = freshBreakers rt deps routes (freshBreakers rt deps [route] s)"
    by (simp add: freshBreakers_def)
  have "buildRoutes lib rt deps (DefaultRegistry rt) cfg globals routes (handlers(RouteName route \<mapsto> ?h route))
      (freshBreakers rt deps [route] s) =
    (Inr (\<lambda>name. case find (\<lambda>r. RouteName r = name) routes of
        None \<Rightarrow> (handlers(RouteName route \<mapsto> ?h route)) name | Some r \<Rightarrow> Some (?h r)),
     freshBreakers rt deps routes (freshBreakers rt deps [route] s))"
    using Cons.prems by (intro Cons.IH) auto
  moreover have "RouteName route \<notin> RouteName ` set routes" using Cons.prems(2) by simp
  note upd = find_Cons_upd [OF this, of handlers ?h]
  ultimately show ?case by (simp only: buildRoutes.simps b prod.case sum.case fresh upd)
qed

lemma gateway_spec_chain:
  "gateway_spec lib re rt cfg deps = globalChain rt deps (serve_spec re (ho_set (go_holder rt)) (Routes cfg)
     (\<lambda>name. map_option (\<lambda>route. routeHandler rt deps (chainOf lib cfg route) route)
        (find (\<lambda>route. RouteName route = name) (Routes cfg))))"
  by (simp add: gateway_spec_def globalChain_def)

lemma BuildHandler_valid:
  assumes "valid_config lib re cfg" and "re_compiles re []"
  shows "BuildHandler lib re rt cfg deps (DefaultRegistry rt) s =
    (Inr (gateway_spec lib re rt cfg deps), freshBreakers rt deps (Routes cfg) s)"
proof -
  from assms(1) obtain globals
    where g: "ResolveMiddlewares lib (Middlewares cfg) (map_of (MiddlewareDefinitions cfg)) = Inr globals"
      and r: "\<forall>route \<in> set (Routes cfg). route_ok lib re cfg globals route"
      and d: "distinct (map RouteName (Routes cfg))"
    by (auto simp: valid_config_def)
  let ?hs = "\<lambda>name. case find (\<lambda>r. RouteName r = name) (Routes cfg) of None \<Rightarrow> None
      | Some route \<Rightarrow> Some (routeHandler rt deps (chainOf lib cfg route) route)"
  have "\<forall>route \<in> set (Routes cfg). \<exists>rs. ResolveMiddlewares lib (RouteMiddlewares route) (map_of (MiddlewareDefinitions cfg)) = Inr rs"
    using r by (auto simp: route_ok_def)
  from buildRoutes_ok [OF g this d, of rt deps Map.empty s]
  have b: "buildRoutes lib rt deps (DefaultRegistry rt) cfg globals (Routes cfg) Map.empty s =
      (Inr ?hs, freshBreakers rt deps (Routes cfg) s)" by simp
  obtain crs where crs: "router_New re (Routes cfg) ?hs = Some crs"
    using valid_config_compiles [OF assms, of ?hs] by auto
  have rs: "Router_ServeHTTP re (ho_set (go_holder rt)) crs = serve_spec re (ho_set (go_holder rt)) (Routes cfg) ?hs"
    using Router_serves_first_match [OF crs] by (intro ext)
  have hs: "?hs = (\<lambda>name. map_option (\<lambda>route. routeHandler rt deps (chainOf lib cfg route) route)
      (find (\<lambda>route. RouteName route = name) (Routes cfg)))"
    by (simp add: fun_eq_iff map_option_case)
  show ?thesis unfolding BuildHandler_def g sum.case b prod.case crs option.case rs
    unfolding gateway_spec_chain hs by (rule refl)
qed

lemma Recovery_returns: "fst (snd (Recovery nxt r w s)) = Returned"
  by (simp add: Recovery_def split: prod.split outcome.split)

lemma middlewareOf_keeps: "well_behaved nxt \<Longrightarrow> well_behaved (middlewareOf rt deps route m nxt)"
  by (simp add: middlewareOf_def cors.keeps rateLimit.keeps auth.keeps requestTransform.keeps responseTransform.keeps
      split: TypedConfig.split)

lemma Chain_keeps: "\<forall>mw \<in> set mws. \<forall>nxt. well_behaved nxt \<longrightarrow> well_behaved (mw nxt) \<Longrightarrow> well_behaved h \<Longrightarrow> well_behaved (Chain mws h)"
  by (induction mws) auto

lemma resilient_well_behaved: "well_behaved h \<Longrightarrow> well_behaved (resilient rt deps route h)"
  by (simp add: resilient_def retry_well_behaved cbOnly_well_behaved split: option.split)

lemma routeHandler_well_behaved: "well_behaved (routeHandler rt deps chain route)"
  unfolding routeHandler_def
  by (intro Chain_keeps resilient_well_behaved proxy_well_behaved) (auto simp: middlewareOf_keeps)

lemma globalChain_keeps: "well_behaved nxt \<Longrightarrow> well_behaved (globalChain rt deps nxt)"
  unfolding globalChain_def
  by (intro Chain_keeps) (auto simp: recovery.keeps requestID.keeps logging.keeps metrics.keeps)

lemma serve_spec_well_behaved:
  assumes "\<And>name h. handlers name = Some h \<Longrightarrow> well_behaved h"
  shows "well_behaved (serve_spec re setHolder cfgs handlers)"
proof (rule well_behavedI)
  fix r w s w' out s'
  assume "serve_spec re setHolder cfgs handlers r w s = (w', out, s')"
  then show "acts w w'"
    by (auto simp: serve_spec_def notFound_def dispatch_def Let_def split: option.splits dest: assms well_behavedD)
qed

lemma agree_CORS: "agree_on H f g \<Longrightarrow> agree_on H (CORSMiddleware c f) (CORSMiddleware c g)"
  by (simp add: agree_on_def CORSMiddleware_def Let_def)

lemma agree_RateLimit:
  "agree_on H f g \<Longrightarrow> agree_on H (NewRateLimitMiddleware lib env c route n nets f) (NewRateLimitMiddleware lib env c route n nets g)"
  by (simp add: agree_on_def NewRateLimitMiddleware_def Let_def split: option.split prod.split)

lemma agree_tryProviders:
  assumes "agree_on H f g" and "Header r = H"
  shows "tryProviders auths ps f r w s = tryProviders auths ps g r w s"
proof (induction ps arbitrary: s)
  case (Cons p ps)
  have "f (r\<lparr>ctx_auth := a\<rparr>) w s' = g (r\<lparr>ctx_auth := a\<rparr>) w s'" for a s'
    using assms by (simp add: agree_on_def)
  with Cons.IH show ?case by (simp split: option.split prod.split sum.split)
qed simp

lemma agree_Auth: "agree_on H f g \<Longrightarrow> agree_on H (NewAuthMiddleware auths ps f) (NewAuthMiddleware auths ps g)"
  using agree_tryProviders [of H f g]
  by (auto simp: agree_on_def NewAuthMiddleware_def)

lemma agree_middlewareOf:
  assumes "agree_on H f g" and "well_typed m" and "rm_Type m \<noteq> ''transform''"
  shows "agree_on H (middlewareOf rt deps route m f) (middlewareOf (rt\<lparr>go_proxy := P\<rparr>) deps route m g)"
  using assms
  by (cases "rm_Config m")
    (simp_all add: middlewareOf_def limiterEnv_def agree_CORS agree_RateLimit agree_Auth well_typed_def)

lemma agree_Chain:
  assumes "agree_on H f g" and "\<forall>m \<in> set ms. well_typed m \<and> rm_Type m \<noteq> ''transform''"
  shows "agree_on H (Chain (map (middlewareOf rt deps route) ms) f)
    (Chain (map (middlewareOf (rt\<lparr>go_proxy := P\<rparr>) deps route) ms) g)"
  using assms(2) by (induction ms) (simp_all add: assms(1) agree_middlewareOf)

lemma refused_by_all:
  assumes "\<forall>p \<in> set ps. \<forall>a. auths p = Some a \<longrightarrow> refuses H a" and "Header r = H"
  shows "tryProviders auths ps f r w s = tryProviders auths ps g r w s"
  using assms(1)
proof (induction ps arbitrary: s)
  case (Cons p ps)
  show ?case
  proof (cases "auths p")
    case (Some a)
    with Cons.prems assms(2) obtain err s' where "a r s = (Inl err, s')"
      unfolding refuses_def by (metis list.set_intros(1) prod.collapse)
    with Some Cons show ?thesis by simp
  qed simp
qed simp

lemma agree_refused:
  assumes "\<forall>p \<in> set ps. \<forall>a. auths p = Some a \<longrightarrow> refuses H a" and "ps \<noteq> [''none'']"
  shows "agree_on H (NewAuthMiddleware auths ps f) (NewAuthMiddleware auths ps g)"
  using assms refused_by_all [OF assms(1), of _ f _ _ g]
  by (simp add: agree_on_def NewAuthMiddleware_def)

text \<open>A handler that answers one error, behind the global chain: the client gets that status.\<close>

lemma globalChain_error:
  assumes "\<And>i s. \<exists>s'. \<forall>w. nxt (r\<lparr>Header := Set ''X-Request-ID'' i (Header r), ctx_requestID := Some i, ctx_holder := True\<rparr>) w s =
       (writeErrorJSON code e m w, Returned, s')"
    and "conn_status c = None" and "conn_body c = []" and "\<not> informational code" and "bodyAllowedForStatus code"
  shows "\<exists>u s' k. globalChain rt deps nxt r (ServerResponse c) s = (u, Returned, s') \<and> base_conn u = Some k \<and>
    conn_status k = Some code \<and> conn_body k = errorBody e m"
proof -
  define i s1 where "i = fst (if Get (Header r) ''X-Request-ID'' = [] then apfst generateUUID (go_randRead rt s) else (Get (Header r) ''X-Request-ID'', s))"
    and "s1 = snd (if Get (Header r) ''X-Request-ID'' = [] then apfst generateUUID (go_randRead rt s) else (Get (Header r) ''X-Request-ID'', s))"
  let ?r = "r\<lparr>Header := Set ''X-Request-ID'' i (Header r), ctx_requestID := Some i\<rparr>"
  let ?c = "c\<lparr>conn_header := Set ''X-Request-ID'' i (conn_header c)\<rparr>"
  let ?v = "WrappedResponseWriter newWrapped (ServerResponse ?c)"
  have id: "RequestID (go_randRead rt) h r w s = h ?r (updHeader (Set ''X-Request-ID'' i) w) s1" for h w
    by (cases "go_randRead rt s") (simp add: RequestID_def i_def s1_def)
  have "clean ?v" "base_conn ?v = Some ?c"
    using assms(2) by (simp_all add: newWrapped_def)
  then obtain k where k: "base_conn (writeErrorJSON code e m ?v) = Some k" "conn_status k = Some code" "conn_body k = errorBody e m"
    using writeErrorJSON_clean [OF _ assms(4,5), of ?v ?c e m] assms(3) by auto
  obtain f w' where w': "writeErrorJSON code e m ?v = WrappedResponseWriter f w'"
    using acts_WrappedD [of newWrapped "ServerResponse ?c" "writeErrorJSON code e m ?v"] acts_writeErrorJSON by blast
  let ?s2 = "ho_new (go_holder rt) (fd_emit deps (RequestStarted (Method r) (URLPath r) (RemoteAddr r) i) s1)"
  obtain s3 where n: "nxt (?r\<lparr>ctx_holder := True\<rparr>) ?v ?s2 = (WrappedResponseWriter f w', Returned, s3)"
    using assms(1) [of i ?s2] w' by auto
  have "\<exists>s4. Metrics_Middleware (go_now rt) (fd_observe deps) (go_holder rt) nxt ?r ?v
      (fd_emit deps (RequestStarted (Method r) (URLPath r) (RemoteAddr r) i) s1) = (WrappedResponseWriter f w', Returned, s4)"
    using n by (simp add: Metrics_Middleware_def WrapResponseWriter_def callerWriter_def Let_def)
  then obtain s4 where "Metrics_Middleware (go_now rt) (fd_observe deps) (go_holder rt) nxt ?r ?v
      (fd_emit deps (RequestStarted (Method r) (URLPath r) (RemoteAddr r) i) s1) = (WrappedResponseWriter f w', Returned, s4)" by blast
  then have "\<exists>s'. globalChain rt deps nxt r (ServerResponse c) s = (w', Returned, s')"
    by (simp add: globalChain_def Recovery_def id Logging_def WrapResponseWriter_def callerWriter_def RequestIDFromContext_def Let_def)
  moreover have "base_conn w' = Some k"
    using k(1) w' by simp
  ultimately show ?thesis
    using k by blast
qed

section \<open>Properties\<close>

text \<open>C1: The builder turns every valid configuration into the gateway the documentation describes, and
  never fails on one: recovery, request id, logging and metrics around first-match routing; behind
  a route, its effective chain in the order of the configuration (skipped globals left out), then
  its transforms in order, then retry and circuit breaker, then the proxy. Each route with a
  breaker starts with a new, closed one.\<close>

theorem BuildHandler_refines_gateway_spec:
  assumes "semanticErrors lib re cfg = []" and "re_compiles re []"
  shows "BuildHandler lib re rt cfg deps (DefaultRegistry rt) s =
    (Inr (gateway_spec lib re rt cfg deps), freshBreakers rt deps (Routes cfg) s)"
  using assms BuildHandler_valid by (simp add: semanticErrors_valid)

theorem BuildHandler_refines_gateway_spec_witness:
  "fst (BuildHandler demo_yaml literal_regexp demo_runtime (applyDefaults demo_gateway) demo_deps
      (DefaultRegistry demo_runtime) ()) =
   Inr (gateway_spec demo_yaml literal_regexp demo_runtime (applyDefaults demo_gateway) demo_deps)"
proof -
  have "re_compiles literal_regexp []" by (simp add: literal_regexp_def)
  from BuildHandler_refines_gateway_spec [OF demo_gateway_valid this, of demo_runtime demo_deps "()"] show ?thesis by simp
qed

text \<open>C28: Whatever panics inside, the gateway built from a valid configuration returns from every
  request, and it changes the client's connection by calls of the writer only.\<close>

theorem gateway_contains_panics:
  assumes "semanticErrors lib re cfg = []" and "re_compiles re []"
    and "fst (BuildHandler lib re rt cfg deps (DefaultRegistry rt) s0) = Inr h"
  shows "fst (snd (h r w s)) = Returned \<and> acts w (fst (h r w s))"
proof -
  have h: "h = gateway_spec lib re rt cfg deps"
    using BuildHandler_valid [of lib re cfg rt deps s0] assms by (simp add: semanticErrors_valid)
  have "well_behaved h" unfolding h gateway_spec_chain
    by (intro globalChain_keeps serve_spec_well_behaved) (auto simp: routeHandler_well_behaved)
  then have "acts w (fst (h r w s))" by (simp add: well_behaved_def)
  moreover have "fst (snd (h r w s)) = Returned"
    by (simp add: h gateway_spec_chain globalChain_def Recovery_returns)
  ultimately show ?thesis by simp
qed

theorem gateway_contains_panics_witness:
  "fst (snd (gateway_spec demo_yaml literal_regexp demo_runtime (applyDefaults demo_gateway) demo_deps
      (bareRequest ''GET'' ''/a'' Map.empty) (ServerResponse fresh_conn) ())) = Returned"
proof -
  have re: "re_compiles literal_regexp []" by (simp add: literal_regexp_def)
  have "fst (BuildHandler demo_yaml literal_regexp demo_runtime (applyDefaults demo_gateway) demo_deps
      (DefaultRegistry demo_runtime) ()) =
    Inr (gateway_spec demo_yaml literal_regexp demo_runtime (applyDefaults demo_gateway) demo_deps)"
    using BuildHandler_valid [OF _ re, of demo_yaml "applyDefaults demo_gateway" demo_runtime demo_deps "()"]
      demo_gateway_valid by (simp add: semanticErrors_valid)
  from gateway_contains_panics [OF demo_gateway_valid re this] show ?thesis by blast
qed

text \<open>C10: Authentication is not bypassed: behind an authentication in the chain of a route, whatever
  stands before it in the configuration, a request that every configured provider refuses never
  reaches the upstream, nor the transforms and resilience handlers. The answer, the world and the
  way the call ends do not depend on the transport at all.\<close>

theorem unauthenticated_never_reaches_upstream:
  assumes "\<forall>m \<in> set chain. well_typed m"
    and "chain = pre @ m # post" and "rm_Config m = AuthCfg c" and "Providers c \<noteq> [''none'']"
    and "\<forall>p \<in> set (Providers c). \<forall>a. fd_authenticators deps p = Some a \<longrightarrow> refuses (Header r) a"
  shows "routeHandler rt deps chain route r w s = routeHandler (rt\<lparr>go_proxy := P\<rparr>) deps chain route r w s"
proof -
  let ?nt = "\<lambda>m :: ResolvedMiddleware. rm_Type m \<noteq> ''transform''"
  have ty: "rm_Type m = ''auth''" using assms(1-3) by (auto simp: well_typed_def)
  then have split: "filter ?nt chain = filter ?nt pre @ m # filter ?nt post" using assms(2) by simp
  have auth: "agree_on (Header r) (middlewareOf rt deps (RouteName route) m f)
      (middlewareOf (rt\<lparr>go_proxy := P\<rparr>) deps (RouteName route) m g)" for f g
    using agree_refused [OF assms(5,4)] assms(3) by (simp add: middlewareOf_def)
  have pre: "\<forall>x \<in> set (filter ?nt pre). well_typed x \<and> ?nt x" using assms(1,2) by auto
  have "agree_on (Header r) (routeHandler rt deps chain route) (routeHandler (rt\<lparr>go_proxy := P\<rparr>) deps chain route)"
    unfolding routeHandler_def split map_append list.map Chain_append Chain_Cons
    by (rule agree_Chain [OF auth pre])
  then show ?thesis by (simp add: agree_on_def)
qed

theorem unauthenticated_never_reaches_upstream_witness:
  "routeHandler demo_runtime demo_deps [\<lparr>rm_Name = ''login'', rm_Type = ''auth'', rm_Config = AuthCfg \<lparr>Providers = [''keys'']\<rparr>\<rparr>]
     (simpleRoute ''r1'' ''/a'' []) (bareRequest ''GET'' ''/a'' Map.empty) (ServerResponse fresh_conn) () =
   routeHandler (demo_runtime\<lparr>go_proxy := \<lparr>pe_parseURL = (\<lambda>_. None), pe_visit = (\<lambda>_. []), pe_roundTrip = (\<lambda>_ _ s. (Inl [], s))\<rparr>\<rparr>)
     demo_deps [\<lparr>rm_Name = ''login'', rm_Type = ''auth'', rm_Config = AuthCfg \<lparr>Providers = [''keys'']\<rparr>\<rparr>]
     (simpleRoute ''r1'' ''/a'' []) (bareRequest ''GET'' ''/a'' Map.empty) (ServerResponse fresh_conn) ()"
proof -
  let ?m = "\<lparr>rm_Name = ''login'', rm_Type = ''auth'', rm_Config = AuthCfg \<lparr>Providers = [''keys'']\<rparr>\<rparr> :: ResolvedMiddleware"
  have "\<forall>m \<in> set [?m]. well_typed m" "[?m] = [] @ ?m # []" "rm_Config ?m = AuthCfg \<lparr>Providers = [''keys'']\<rparr>"
    "Providers \<lparr>Providers = [''keys'']\<rparr> \<noteq> [''none'']"
    "\<forall>p \<in> set (Providers \<lparr>Providers = [''keys'']\<rparr>). \<forall>a. fd_authenticators demo_deps p = Some a \<longrightarrow>
      refuses (Header (bareRequest ''GET'' ''/a'' Map.empty)) a"
    by (simp_all add: well_typed_def demo_deps_def refuses_def APIKey_Authenticate_def NewAPIKeyAuthenticator_def
        Get_def Values_def)
  from unauthenticated_never_reaches_upstream [OF this] show ?thesis .
qed

text \<open>A request whose handling panics is answered 500 by recovery but leaves no trace in the
  metrics and no completion in the log: behind the panic the world only has what came before it,
  the start entry.\<close>

theorem panicking_request_not_counted:
  assumes "\<And>r w s. \<exists>w'. nxt r w s = (w', Panicked p, f s)" and "Get (Header r) ''X-Request-ID'' = i" and "i \<noteq> []"
  shows "snd (snd (globalChain rt deps nxt r w s)) =
    f (ho_new (go_holder rt) (fd_emit deps (RequestStarted (Method r) (URLPath r) (RemoteAddr r) i) s))"
proof -
  have "\<exists>u. globalChain rt deps nxt r w s =
      (u, Returned, f (ho_new (go_holder rt) (fd_emit deps (RequestStarted (Method r) (URLPath r) (RemoteAddr r) i) s)))"
  proof -
    let ?r = "r\<lparr>Header := Set ''X-Request-ID'' i (Header r), ctx_requestID := Some i\<rparr>"
    let ?w = "updHeader (Set ''X-Request-ID'' i) w"
    let ?s = "fd_emit deps (RequestStarted (Method r) (URLPath r) (RemoteAddr r) i) s"
    obtain w' where n: "nxt (?r\<lparr>ctx_holder := True\<rparr>) (WrapResponseWriter (WrapResponseWriter ?w)) (ho_new (go_holder rt) ?s) =
        (w', Panicked p, f (ho_new (go_holder rt) ?s))" using assms(1) by blast
    have "\<exists>u. Metrics_Middleware (go_now rt) (fd_observe deps) (go_holder rt) nxt ?r (WrapResponseWriter ?w) ?s =
        (u, Panicked p, f (ho_new (go_holder rt) ?s))"
      by (simp add: Metrics_Middleware_def Let_def n)
    then obtain u where m: "Metrics_Middleware (go_now rt) (fd_observe deps) (go_holder rt) nxt ?r (WrapResponseWriter ?w) ?s =
        (u, Panicked p, f (ho_new (go_holder rt) ?s))" by blast
    have "Logging (go_now rt) (fd_emit deps) (Metrics_Middleware (go_now rt) (fd_observe deps) (go_holder rt) nxt) ?r ?w s =
        (callerWriter ?w u, Panicked p, f (ho_new (go_holder rt) ?s))"
      by (simp add: Logging_def Let_def RequestIDFromContext_def m)
    with assms(2,3) show ?thesis
      by (simp add: globalChain_def Recovery_def RequestID_def Let_def)
  qed
  then show ?thesis by auto
qed

theorem panicking_request_not_counted_witness:
  "snd (snd (globalChain demo_runtime
       (demo_deps\<lparr>fd_emit := (\<lambda>e. apfst (\<lambda>es. es @ [e])), fd_observe := (\<lambda>m. apsnd (\<lambda>ms. ms @ [m]))\<rparr>)
       (\<lambda>r w s. (w, Panicked ''boom'', s))
       (bareRequest ''GET'' ''/'' (Set ''X-Request-ID'' ''id1'' Map.empty)) (ServerResponse fresh_conn) ([], []))) =
     ([RequestStarted ''GET'' ''/'' [] ''id1''], [] :: metric list)"
  using panicking_request_not_counted [of "\<lambda>r w s. (w, Panicked ''boom'', s)" "''boom''" "\<lambda>s. s"
      "bareRequest ''GET'' ''/'' (Set ''X-Request-ID'' ''id1'' Map.empty)" "''id1''" demo_runtime
      "demo_deps\<lparr>fd_emit := (\<lambda>e. apfst (\<lambda>es. es @ [e])), fd_observe := (\<lambda>m. apsnd (\<lambda>ms. ms @ [m]))\<rparr>"
      "ServerResponse fresh_conn" "([], [])"]
  by (simp add: demo_runtime_def)

text \<open>The completion entry of a request that came straight from the server never names its route:
  the router stores the matched route in a request of its own, which logging does not see.\<close>

theorem log_route_always_unknown:
  assumes "ctx_route r = None" and "Get (Header r) ''X-Request-ID'' = i" and "i \<noteq> []"
    and "Metrics_Middleware (go_now rt) (fd_observe deps) (go_holder rt) nxt
       (r\<lparr>Header := Set ''X-Request-ID'' i (Header r), ctx_requestID := Some i\<rparr>)
       (WrapResponseWriter (updHeader (Set ''X-Request-ID'' i) w))
       (fd_emit deps (RequestStarted (Method r) (URLPath r) (RemoteAddr r) i) s) = (ww, Returned, s1)"
  shows "\<exists>status latency size. snd (snd (globalChain rt deps nxt r w s)) =
    fd_emit deps (RequestCompleted (Method r) (URLPath r) status latency i ''unknown'' (RemoteAddr r) size) s1"
  using assms
  by (auto simp: globalChain_def Recovery_def RequestID_def Logging_def Let_def RequestIDFromContext_def)

theorem log_route_always_unknown_witness:
  "\<exists>status latency size. snd (snd (globalChain demo_runtime (demo_deps\<lparr>fd_emit := (\<lambda>e es. es @ [e])\<rparr>)
       (\<lambda>r w s. (WriteHeader 200 w, Returned, s))
       (bareRequest ''GET'' ''/'' (Set ''X-Request-ID'' ''id1'' Map.empty)) (ServerResponse fresh_conn) [])) =
     [RequestStarted ''GET'' ''/'' [] ''id1'', RequestCompleted ''GET'' ''/'' status latency ''id1'' ''unknown'' [] size]"
proof -
  let ?deps = "demo_deps\<lparr>fd_emit := (\<lambda>e es. es @ [e])\<rparr> :: log_entry list FactoryDeps"
  let ?nxt = "\<lambda>r w (s :: log_entry list). (WriteHeader 200 w, Returned, s)"
  let ?r = "bareRequest ''GET'' ''/'' (Set ''X-Request-ID'' ''id1'' Map.empty)"
  have r: "ctx_route ?r = None" "Get (Header ?r) ''X-Request-ID'' = ''id1''" "''id1'' \<noteq> []" by simp_all
  have "\<exists>ww. Metrics_Middleware (go_now demo_runtime) (fd_observe ?deps) (go_holder demo_runtime) ?nxt
      (?r\<lparr>Header := Set ''X-Request-ID'' ''id1'' (Header ?r), ctx_requestID := Some ''id1''\<rparr>)
      (WrapResponseWriter (updHeader (Set ''X-Request-ID'' ''id1'') (ServerResponse fresh_conn)))
      (fd_emit ?deps (RequestStarted (Method ?r) (URLPath ?r) (RemoteAddr ?r) ''id1'') []) =
      (ww, Returned, [RequestStarted ''GET'' ''/'' [] ''id1''])"
    by (simp add: Metrics_Middleware_def Let_def demo_runtime_def demo_deps_def requestMetrics_def)
  then obtain ww where ww: "Metrics_Middleware (go_now demo_runtime) (fd_observe ?deps) (go_holder demo_runtime) ?nxt
      (?r\<lparr>Header := Set ''X-Request-ID'' ''id1'' (Header ?r), ctx_requestID := Some ''id1''\<rparr>)
      (WrapResponseWriter (updHeader (Set ''X-Request-ID'' ''id1'') (ServerResponse fresh_conn)))
      (fd_emit ?deps (RequestStarted (Method ?r) (URLPath ?r) (RemoteAddr ?r) ''id1'') []) =
      (ww, Returned, [RequestStarted ''GET'' ''/'' [] ''id1''])" by blast
  from log_route_always_unknown [OF r ww] show ?thesis by simp
qed

text \<open>A response body over the transform limit is not the 502 that \<open>ResponseTransform\<close> has for it: the
  proxy's copy fails in the buffer, the reverse proxy aborts by a panic, and recovery answers 500.\<close>

theorem oversized_response_aborts:
  assumes "pe_parseURL env (UpstreamURL (Upstream route)) = Some up"
    and "pe_roundTrip env (if 0 < UpstreamTimeout (Upstream route) then Some (UpstreamTimeout (Upstream route)) else None)
       (outgoing (Director env route up) r) s = (Inr res, s1)"
    and "effectiveMaxBody m < int (length (rs_body res))"
  shows "ResponseTransform lib (Some c) m (NewProxyHandler env route) r w s = (w, Panicked ''net/http: abort Handler'', s1)"
proof -
  have pos: "0 < effectiveMaxBody m" by (simp add: effectiveMaxBody_def defaultMaxTransformBodySize_def)
  then have ne: "rs_body res \<noteq> []" using assms(3) by auto
  have "\<exists>b. copyResponse res (newBuffering (effectiveMaxBody m)) = (b, Panicked ''net/http: abort Handler'')"
    using assms(3) pos ne
    by (simp add: copyResponse_def newBuffering_def buf_WriteHeader_def buf_Write_def Let_def)
  with assms(1,2) show ?thesis
    by (auto simp: ResponseTransform_def NewProxyHandler_def ReverseProxy_def Let_def)
qed

theorem oversized_response_aborts_witness:
  "ResponseTransform (go_transform demo_runtime) (Some \<lparr>dt_Headers = None, dt_Body = None\<rparr>) 1
     (NewProxyHandler (go_proxy demo_runtime) (simpleRoute ''r1'' ''/a'' [])) (bareRequest ''GET'' ''/a'' Map.empty)
     (ServerResponse fresh_conn) () = (ServerResponse fresh_conn, Panicked ''net/http: abort Handler'', ())"
  by (rule oversized_response_aborts [where res = "\<lparr>rs_status = 200, rs_header = Map.empty, rs_body = ''hi''\<rparr>"])
    (simp_all add: demo_runtime_def effectiveMaxBody_def)

end
