(* ===== verification/Schema.thy ===== *)
theory Schema
  imports ConfigTypes
begin

text \<open>
  Schema validation of \<open>internal/config/schema.go\<close>. The schema is generated by reflection and
  compiled and applied by two libraries; their steps are fields of a record of functions, each of
  which may fail with an error text. The compiled schema is cached in a package variable, which the
  operations take and give back. \<open>any\<close> holds what \<open>yaml.v3\<close> decodes into an interface, and the
  \<open>json.Number\<close> texts the validator wants; \<open>%v\<close> of a float64 is the field \<open>sl_formatFloat\<close>.
\<close>

section \<open>Data\<close>

datatype any =
    ANil
  | ABool bool
  | AInt int
  | AFloat rat
  | ANumber string
  | AString string
  | ASlice "any list"
  | AMap "(string \<times> any) list"
  | AOther string

text \<open>A unit of the validator's basic output, and the outcome of \<open>Validate\<close>: \<open>nil\<close>, a
  \<open>*ValidationError\<close> with its basic output (\<open>None\<close> for nil, else the \<open>Valid\<close> flag and the
  units), or another error.\<close>

record output_unit =
  ou_Error :: "string option"
  ou_InstanceLocation :: string

datatype validation =
    Valid
  | ValidationError "(bool \<times> output_unit list) option"
  | OtherError string

record ('doc, 'comp, 'schema) schema_lib =
  sl_schemaJSON :: "string + string"
  sl_unmarshalJSON :: "string \<Rightarrow> string + 'doc"
  sl_addResource :: "'doc \<Rightarrow> string + 'comp"
  sl_compile :: "'comp \<Rightarrow> string + 'schema"
  sl_validate :: "'schema \<Rightarrow> any \<Rightarrow> validation"
  sl_unmarshalYAML :: "string \<Rightarrow> string + any"
  sl_marshalYAML :: "GatewayConfig \<Rightarrow> string + string"
  sl_formatFloat :: "rat \<Rightarrow> string"

datatype schema_error =
    SchemaCompilation string string
  | SchemaValidation string string
  | ValidationUnit string string

section \<open>compileValidator\<close>

definition compileValidator ::
  "('doc, 'comp, 'schema) schema_lib \<Rightarrow> 'schema option \<Rightarrow> (schema_error + 'schema) \<times> 'schema option" where
  "compileValidator lib cachedCompiled = (case cachedCompiled of
       Some sch \<Rightarrow> (Inr sch, cachedCompiled)
     | None \<Rightarrow>
         (case sl_schemaJSON lib of
            Inl e \<Rightarrow> (Inl (SchemaCompilation ''generating schema JSON'' e), None)
          | Inr schemaJSON \<Rightarrow>
              (case sl_unmarshalJSON lib schemaJSON of
                 Inl e \<Rightarrow> (Inl (SchemaCompilation ''unmarshaling schema JSON'' e), None)
               | Inr schemaDoc \<Rightarrow>
                   (case sl_addResource lib schemaDoc of
                      Inl e \<Rightarrow> (Inl (SchemaCompilation ''adding schema resource'' e), None)
                    | Inr c \<Rightarrow>
                        (case sl_compile lib c of
                           Inl e \<Rightarrow> (Inl (SchemaCompilation ''compiling schema'' e), None)
                         | Inr compiled \<Rightarrow> (Inr compiled, Some compiled))))))"

section \<open>Conversion and errors\<close>

fun yamlToJSONCompatible :: "(rat \<Rightarrow> string) \<Rightarrow> any \<Rightarrow> any" where
  "yamlToJSONCompatible fmt (AMap m) =
     AMap (filter (\<lambda>kv. snd kv \<noteq> ANil) (map (\<lambda>kv. (fst kv, yamlToJSONCompatible fmt (snd kv))) m))"
| "yamlToJSONCompatible fmt (ASlice vs) = ASlice (map (yamlToJSONCompatible fmt) vs)"
| "yamlToJSONCompatible fmt (AInt i) = ANumber (Itoa i)"
| "yamlToJSONCompatible fmt (AFloat x) = ANumber (fmt x)"
| "yamlToJSONCompatible fmt v = v"

fun unitErrors :: "output_unit list \<Rightarrow> schema_error list" where
  "unitErrors [] = []"
| "unitErrors (u # us) = (case ou_Error u of
       None \<Rightarrow> unitErrors us
     | Some msg \<Rightarrow>
         if msg = [] then unitErrors us
         else ValidationUnit (if ou_InstanceLocation u = [] then ''/'' else ou_InstanceLocation u) msg # unitErrors us)"

definition extractErrors :: "(bool \<times> output_unit list) option \<Rightarrow> schema_error list" where
  "extractErrors basic = (case basic of
       None \<Rightarrow> []
     | Some (valid, us) \<Rightarrow> if valid then [] else unitErrors us)"

section \<open>Validation\<close>

definition validateInstance ::
  "('doc, 'comp, 'schema) schema_lib \<Rightarrow> 'schema \<Rightarrow> any \<Rightarrow> schema_error list" where
  "validateInstance lib sch inst =
     (case sl_validate lib sch (yamlToJSONCompatible (sl_formatFloat lib) inst) of
        Valid \<Rightarrow> []
      | OtherError e \<Rightarrow> [SchemaValidation ''schema validation error'' e]
      | ValidationError basic \<Rightarrow> extractErrors basic)"

definition validateAgainstSchema ::
  "('doc, 'comp, 'schema) schema_lib \<Rightarrow> GatewayConfig \<Rightarrow> 'schema option \<Rightarrow> schema_error list \<times> 'schema option" where
  "validateAgainstSchema lib cfg cache = (case compileValidator lib cache of
       (Inl e, cache') \<Rightarrow> ([e], cache')
     | (Inr sch, cache') \<Rightarrow>
         (case sl_marshalYAML lib cfg of
            Inl e \<Rightarrow> ([SchemaValidation ''failed to marshal config to YAML'' e], cache')
          | Inr yamlBytes \<Rightarrow>
              (case sl_unmarshalYAML lib yamlBytes of
                 Inl e \<Rightarrow> ([SchemaValidation ''failed to unmarshal YAML'' e], cache')
               | Inr inst \<Rightarrow> (validateInstance lib sch inst, cache'))))"

definition ValidateRawConfig ::
  "('doc, 'comp, 'schema) schema_lib \<Rightarrow> string \<Rightarrow> 'schema option \<Rightarrow> schema_error list \<times> 'schema option" where
  "ValidateRawConfig lib yamlBytes cache = (case compileValidator lib cache of
       (Inl e, cache') \<Rightarrow> ([e], cache')
     | (Inr sch, cache') \<Rightarrow>
         (case sl_unmarshalYAML lib yamlBytes of
            Inl e \<Rightarrow> ([SchemaValidation ''YAML parse error'' e], cache')
          | Inr inst \<Rightarrow> (validateInstance lib sch inst, cache')))"

text \<open>The four stages of the compilation, without the cache: \<open>sch\<close> is the compiled schema.\<close>

definition compiles_to :: "('doc, 'comp, 'schema) schema_lib \<Rightarrow> 'schema \<Rightarrow> bool" where
  "compiles_to lib sch \<longleftrightarrow> (\<exists>schemaJSON schemaDoc c. sl_schemaJSON lib = Inr schemaJSON \<and>
     sl_unmarshalJSON lib schemaJSON = Inr schemaDoc \<and> sl_addResource lib schemaDoc = Inr c \<and> sl_compile lib c = Inr sch)"

section \<open>What the validator is relied on for\<close>

text \<open>No null is the value of a key, at any depth; nulls in slices stay.\<close>

fun null_free :: "any \<Rightarrow> bool" where
  "null_free (AMap m) = list_all (\<lambda>kv. snd kv \<noteq> ANil \<and> null_free (snd kv)) m"
| "null_free (ASlice vs) = list_all null_free vs"
| "null_free (AInt i) = False"
| "null_free (AFloat x) = False"
| "null_free v = True"

text \<open>The documented basic output of a failed validation: not nil, not valid, and at least one unit
  with a message.\<close>

definition output_documented :: "('doc, 'comp, 'schema) schema_lib \<Rightarrow> bool" where
  "output_documented lib \<longleftrightarrow>
     (\<forall>sch v basic. sl_validate lib sch v = ValidationError basic \<longrightarrow>
        (\<exists>us u msg. basic = Some (False, us) \<and> u \<in> set us \<and> ou_Error u = Some msg \<and> msg \<noteq> []))"

text \<open>For examples: a schema that refuses the empty mapping.\<close>

definition demo_schema :: "(unit, unit, unit) schema_lib" where
  "demo_schema = \<lparr>sl_schemaJSON = Inr [], sl_unmarshalJSON = (\<lambda>_. Inr ()), sl_addResource = (\<lambda>_. Inr ()),
     sl_compile = (\<lambda>_. Inr ()),
     sl_validate = (\<lambda>_ v. if v = AMap [] then
         ValidationError (Some (False, [\<lparr>ou_Error = Some ''missing routes'', ou_InstanceLocation = []\<rparr>])) else Valid),
     sl_unmarshalYAML = (\<lambda>s. Inr (if s = [] then AMap [(''server'', ANil)] else AMap [(''routes'', ASlice [])])),
     sl_marshalYAML = (\<lambda>_. Inr []), sl_formatFloat = (\<lambda>_. ''0'')\<rparr>"

section \<open>Lemmas\<close>

lemma null_free_compatible: "null_free (yamlToJSONCompatible fmt v)"
  by (induction fmt v rule: yamlToJSONCompatible.induct) (auto simp: list_all_iff)

lemma compatible_id: "null_free v \<Longrightarrow> yamlToJSONCompatible fmt v = v"
proof (induction v rule: null_free.induct)
  case (1 m)
  then have "map (\<lambda>kv. (fst kv, yamlToJSONCompatible fmt (snd kv))) m = m"
    by (intro map_idI) (auto simp: list_all_iff)
  with 1 show ?case by (simp add: list_all_iff)
next
  case (2 vs)
  then show ?case by (auto simp: list_all_iff intro: map_idI)
qed simp_all

lemma unitErrors_Nil: "unitErrors us = [] \<longleftrightarrow> (\<forall>u \<in> set us. ou_Error u \<in> {None, Some []})"
  by (induction us rule: unitErrors.induct) (auto split: option.splits)

lemma validateInstance_Nil:
  assumes "output_documented lib"
  shows "validateInstance lib sch inst = [] \<longleftrightarrow>
    sl_validate lib sch (yamlToJSONCompatible (sl_formatFloat lib) inst) = Valid"
proof (cases "sl_validate lib sch (yamlToJSONCompatible (sl_formatFloat lib) inst)")
  case (ValidationError basic)
  with assms obtain us u msg where "basic = Some (False, us)" "u \<in> set us" "ou_Error u = Some msg" "msg \<noteq> []"
    unfolding output_documented_def by meson
  then show ?thesis by (auto simp: validateInstance_def ValidationError extractErrors_def unitErrors_Nil)
qed (simp_all add: validateInstance_def)

lemma compileValidator_cached: "compileValidator lib (Some sch) = (Inr sch, Some sch)"
  by (simp add: compileValidator_def)

lemma compiles_to_unique: "compiles_to lib sch \<Longrightarrow> compiles_to lib sch' \<Longrightarrow> sch = sch'"
  by (auto simp: compiles_to_def)

lemma compileValidator_fresh: "compiles_to lib sch \<Longrightarrow> compileValidator lib None = (Inr sch, Some sch)"
  by (auto simp: compiles_to_def compileValidator_def)

lemma compileValidator_fails:
  assumes "\<nexists>sch. compiles_to lib sch"
  shows "\<exists>stage e. compileValidator lib None = (Inl (SchemaCompilation stage e), None)"
  using assms by (auto simp: compiles_to_def compileValidator_def split: sum.split)

section \<open>Properties\<close>

text \<open>The validator sees values without explicit nulls under keys and with every number as a
  \<open>json.Number\<close>, at every depth; the conversion applied to its own result changes nothing.\<close>

theorem yamlToJSONCompatible_normalises:
  "null_free (yamlToJSONCompatible fmt v) \<and>
   yamlToJSONCompatible fmt (yamlToJSONCompatible fmt v) = yamlToJSONCompatible fmt v"
  by (simp add: null_free_compatible compatible_id)

text \<open>C36: Started with an empty cache or with the compiled schema in it, the raw validation accepts a
  text exactly when the schema compiles (all four stages succeed), the text is YAML and the validator accepts its converted
  value. When the schema compiles, the call leaves it in the cache; when it does not, the call reports the compilation error and
  leaves the cache empty, so that the next call compiles again.\<close>

theorem ValidateRawConfig_accepts_iff:
  assumes "output_documented lib" and "cache = None \<or> (\<exists>sch. cache = Some sch \<and> compiles_to lib sch)"
  shows "(fst (ValidateRawConfig lib text cache) = [] \<longleftrightarrow>
      (\<exists>sch inst. compiles_to lib sch \<and> sl_unmarshalYAML lib text = Inr inst \<and>
         sl_validate lib sch (yamlToJSONCompatible (sl_formatFloat lib) inst) = Valid)) \<and>
    (\<forall>sch. compiles_to lib sch \<longrightarrow> snd (ValidateRawConfig lib text cache) = Some sch) \<and>
    ((\<nexists>sch. compiles_to lib sch) \<longrightarrow>
       (\<exists>stage e. ValidateRawConfig lib text cache = ([SchemaCompilation stage e], None)))"
proof (cases "\<exists>sch. compiles_to lib sch")
  case True
  then obtain sch where sch: "compiles_to lib sch" by blast
  have only: "compiles_to lib sch' \<longleftrightarrow> sch' = sch" for sch'
    by (rule iffI) (rule compiles_to_unique [OF _ sch], assumption, simp add: sch)
  have "compileValidator lib cache = (Inr sch, Some sch)"
    using assms(2) compileValidator_fresh [OF sch] by (auto simp: compileValidator_cached only)
  then show ?thesis
    by (cases "sl_unmarshalYAML lib text") (simp_all add: ValidateRawConfig_def only validateInstance_Nil [OF assms(1)])
next
  case False
  then obtain stage e where "compileValidator lib cache = (Inl (SchemaCompilation stage e), None)"
    using assms(2) compileValidator_fails [OF False] by blast
  with False show ?thesis
    by (auto simp: ValidateRawConfig_def)
qed

theorem ValidateRawConfig_accepts_iff_witness:
  "fst (ValidateRawConfig demo_schema ''x'' (Some ())) = [] \<and> fst (ValidateRawConfig demo_schema [] (Some ())) \<noteq> [] \<and>
   snd (ValidateRawConfig demo_schema ''x'' None) = Some ()"
proof -
  have d: "output_documented demo_schema" by (simp add: output_documented_def demo_schema_def)
  have c: "compiles_to demo_schema ()"
    by (simp add: compiles_to_def demo_schema_def)
  then have "Some () = None \<or> (\<exists>sch. Some () = Some sch \<and> compiles_to demo_schema sch)"
    by simp
  note cached = ValidateRawConfig_accepts_iff [OF d this, THEN conjunct1]
  have "fst (ValidateRawConfig demo_schema ''x'' (Some ())) = []" "fst (ValidateRawConfig demo_schema [] (Some ())) \<noteq> []"
    unfolding cached using c by (simp_all add: demo_schema_def exI [of _ "()"])
  moreover have "snd (ValidateRawConfig demo_schema ''x'' None) = Some ()"
    using ValidateRawConfig_accepts_iff [OF d disjI1 [OF refl], of "''x''"] c by blast
  ultimately show ?thesis by blast
qed

end
