(* ===== verification/Load.thy ===== *)
theory Load
  imports Schema Validate
begin

text \<open>
  Loading a configuration, \<open>LoadConfig\<close> and \<open>Validate\<close> of \<open>internal/config/config.go\<close>: read the file,
  substitute environment variables in its text, validate the text against the schema, decode it,
  apply the defaults and check the semantics. The file system, the environment and the decoder of
  \<open>yaml.v3\<close> are a record of functions.
\<close>

section \<open>LoadConfig\<close>

record load_lib =
  ll_readFile :: "string \<Rightarrow> string + string"
  ll_lookupEnv :: "string \<Rightarrow> string option"
  ll_unmarshal :: "string \<Rightarrow> string + GatewayConfig"

datatype load_error =
    ReadFailed string
  | SchemaInvalid "schema_error list"
  | UnmarshalFailed string
  | SemanticInvalid "config_error list"

definition substituteEnv :: "(string \<Rightarrow> string option) \<Rightarrow> string \<Rightarrow> string" where
  "substituteEnv lookupEnv data =
     ReplaceVars (\<lambda>name. case lookupEnv name of None \<Rightarrow> placeholder name | Some v \<Rightarrow> v) data"

definition LoadConfig ::
  "load_lib \<Rightarrow> ('doc, 'comp, 'schema) schema_lib \<Rightarrow> yaml_lib \<Rightarrow> regexp \<Rightarrow> string \<Rightarrow> 'schema option \<Rightarrow>
   (load_error + GatewayConfig) \<times> 'schema option" where
  "LoadConfig ll sl yl re path cache = (case ll_readFile ll path of
       Inl e \<Rightarrow> (Inl (ReadFailed e), cache)
     | Inr data \<Rightarrow>
         (let resolved = substituteEnv (ll_lookupEnv ll) data
          in case ValidateRawConfig sl resolved cache of
               (schemaErrs, cache') \<Rightarrow>
                 if schemaErrs \<noteq> [] then (Inl (SchemaInvalid schemaErrs), cache')
                 else (case ll_unmarshal ll resolved of
                     Inl e \<Rightarrow> (Inl (UnmarshalFailed e), cache')
                   | Inr raw \<Rightarrow>
                       (let cfg = applyDefaults raw; semanticErrs = semanticErrors yl re cfg
                        in if semanticErrs \<noteq> [] then (Inl (SemanticInvalid semanticErrs), cache')
                           else (Inr cfg, cache')))))"

definition config_Validate ::
  "('doc, 'comp, 'schema) schema_lib \<Rightarrow> yaml_lib \<Rightarrow> regexp \<Rightarrow> GatewayConfig \<Rightarrow> 'schema option \<Rightarrow>
   (schema_error + config_error) list \<times> 'schema option" where
  "config_Validate sl yl re cfg cache = (case validateAgainstSchema sl cfg cache of
       (errs, cache') \<Rightarrow> (map Inl errs @ map Inr (semanticErrors yl re cfg), cache'))"

text \<open>For examples: one file, which reads as the example configuration, one variable.\<close>

definition demo_load :: load_lib where
  "demo_load = \<lparr>ll_readFile = (\<lambda>path. if path = ''gateway.yaml'' then Inr ''routes ${R}'' else Inl ''no such file''),
     ll_lookupEnv = (\<lambda>n. if n = ''R'' then Some ''r1'' else None),
     ll_unmarshal = (\<lambda>s. if s = ''routes r1'' then Inr demo_gateway else Inl ''unknown'')\<rparr>"

section \<open>Lemmas\<close>

lemma LoadConfig_ok_iff:
  "fst (LoadConfig ll sl yl re path cache) = Inr cfg \<longleftrightarrow>
     (\<exists>data raw. ll_readFile ll path = Inr data \<and>
        fst (ValidateRawConfig sl (substituteEnv (ll_lookupEnv ll) data) cache) = [] \<and>
        ll_unmarshal ll (substituteEnv (ll_lookupEnv ll) data) = Inr raw \<and>
        cfg = applyDefaults raw \<and> valid_config yl re cfg)"
proof (cases "ll_readFile ll path")
  case (Inr data)
  obtain errs cache' where v: "ValidateRawConfig sl (substituteEnv (ll_lookupEnv ll) data) cache = (errs, cache')" by fastforce
  show ?thesis
    by (cases "ll_unmarshal ll (substituteEnv (ll_lookupEnv ll) data)")
      (auto simp: LoadConfig_def Inr v Let_def semanticErrors_valid)
qed (simp add: LoadConfig_def)

lemma substituteEnv_set:
  assumes "CHR ''$'' \<notin> set p" and "name \<noteq> []" and "CHR ''}'' \<notin> set name"
  shows "substituteEnv env (p @ placeholder name @ t) =
    p @ (case env name of None \<Rightarrow> placeholder name | Some v \<Rightarrow> v) @ substituteEnv env t"
  using assms by (simp add: substituteEnv_def ReplaceVars_prefix ReplaceVars_placeholder)

section \<open>Properties\<close>

text \<open>C20: Loading succeeds exactly when the file can be read, its text after substitution passes the
  schema and decodes, and the configuration with its defaults is valid; the result is that
  configuration. In particular no loaded configuration has a placeholder left in a secret.\<close>

theorem LoadConfig_accepts_exactly_valid:
  "(fst (LoadConfig ll sl yl re path cache) = Inr cfg) =
     (\<exists>data raw. ll_readFile ll path = Inr data \<and>
        fst (ValidateRawConfig sl (substituteEnv (ll_lookupEnv ll) data) cache) = [] \<and>
        ll_unmarshal ll (substituteEnv (ll_lookupEnv ll) data) = Inr raw \<and>
        cfg = applyDefaults raw \<and> valid_config yl re cfg)"
  by (rule LoadConfig_ok_iff)

text \<open>Substitution replaces the first placeholder of a text by the variable's value, leaves it as it
  is when the variable is not set, and goes on behind it without looking at what it put in; a text
  without placeholders is left as it is.\<close>

theorem substituteEnv_replaces_in_order:
  assumes "CHR ''$'' \<notin> set p" and "name \<noteq> []" and "CHR ''}'' \<notin> set name"
  shows "substituteEnv env (p @ placeholder name @ t) =
      p @ (case env name of None \<Rightarrow> placeholder name | Some v \<Rightarrow> v) @ substituteEnv env t \<and>
    substituteEnv (\<lambda>_. None) t = t \<and> (HasVar t \<or> substituteEnv env t = t)"
  using substituteEnv_set [OF assms] ReplaceVars_id [of t] ReplaceVars_no_var [of t]
  by (auto simp: substituteEnv_def)

theorem substituteEnv_replaces_in_order_witness:
  "substituteEnv (\<lambda>n. if n = ''HOST'' then Some ''${PORT}'' else None) (''url: '' @ placeholder ''HOST'' @ '':80'') =
     ''url: ${PORT}:80''"
proof -
  let ?env = "\<lambda>n. if n = ''HOST'' then Some ''${PORT}'' else None"
  have v: "\<not> HasVar '':80''" by code_simp
  have "CHR ''$'' \<notin> set ''url: ''" "''HOST'' \<noteq> []" "CHR ''}'' \<notin> set ''HOST''" by simp_all
  from substituteEnv_replaces_in_order [OF this, of ?env "'':80''"] v show ?thesis by simp
qed

text \<open>The file of the examples loads.\<close>

lemma demo_load_ok:
  "fst (LoadConfig demo_load demo_schema demo_yaml literal_regexp ''gateway.yaml'' None) = Inr (applyDefaults demo_gateway)"
proof -
  have s: "substituteEnv (ll_lookupEnv demo_load) ''routes ${R}'' = ''routes r1''" by code_simp
  have "fst (ValidateRawConfig demo_schema ''routes r1'' None) = []" by code_simp
  moreover have "ll_readFile demo_load ''gateway.yaml'' = Inr ''routes ${R}''"
    "ll_unmarshal demo_load ''routes r1'' = Inr demo_gateway"
    by (simp_all add: demo_load_def)
  ultimately show ?thesis
    using demo_gateway_valid unfolding LoadConfig_ok_iff semanticErrors_valid
    by (intro exI [of _ "''routes ${R}''"] exI [of _ demo_gateway]) (simp add: s)
qed

end
