(* ===== verification/ConfigDiff.thy ===== *)
theory ConfigDiff
  imports Validate
begin

text \<open>
  Comparison of configurations on reload, \<open>internal/config/config.go\<close>: \<open>NonReloadableChanges\<close>,
  \<open>DiffSummary\<close> and the equality functions below them. A warning or change of the code is a
  formatted text; here it is a value. Maps are association lists with distinct keys; \<open>len\<close> of a
  map is the length of its list. \<open>yaml.Marshal\<close> is the field \<open>marshalNode\<close> of the YAML library.
\<close>

section \<open>Equality functions\<close>

definition stringSliceEqual :: "string list \<Rightarrow> string list \<Rightarrow> bool" where
  "stringSliceEqual a b = (length a = length b \<and> list_all (\<lambda>(x, y). x = y) (zip a b))"

definition stringMapEqual :: "(string \<times> string) list \<Rightarrow> (string \<times> string) list \<Rightarrow> bool" where
  "stringMapEqual a b = (length a = length b \<and> list_all (\<lambda>(k, v). map_of b k = Some v) a)"

definition redisConfigEqual :: "RedisConfig option \<Rightarrow> RedisConfig option \<Rightarrow> bool" where
  "redisConfigEqual a b = (case (a, b) of
       (None, None) \<Rightarrow> True
     | (Some x, Some y) \<Rightarrow>
         Addr x = Addr y \<and> Password x = Password y \<and> DB x = DB y \<and>
         PoolSize x = PoolSize y \<and> MinIdleConns x = MinIdleConns y \<and>
         DialTimeout x = DialTimeout y \<and> RedisReadTimeout x = RedisReadTimeout y \<and>
         RedisWriteTimeout x = RedisWriteTimeout y \<and> RedisMaxRetries x = RedisMaxRetries y \<and>
         QueryTimeout x = QueryTimeout y \<and> TLSEnabled x = TLSEnabled y
     | _ \<Rightarrow> False)"

definition jwtConfigEqual :: "JWTConfig option \<Rightarrow> JWTConfig option \<Rightarrow> bool" where
  "jwtConfigEqual a b = (case (a, b) of
       (None, None) \<Rightarrow> True
     | (Some x, Some y) \<Rightarrow>
         Secret x = Secret y \<and> PublicKeyFile x = PublicKeyFile y \<and>
         JWTAlgorithm x = JWTAlgorithm y \<and> Issuer x = Issuer y \<and> JWTAudience x = JWTAudience y
     | _ \<Rightarrow> False)"

definition apiKeyConfigEqual :: "APIKeyConfig option \<Rightarrow> APIKeyConfig option \<Rightarrow> bool" where
  "apiKeyConfigEqual a b = (case (a, b) of
       (None, None) \<Rightarrow> True
     | (Some x, Some y) \<Rightarrow>
         APIKeyHeader x = APIKeyHeader y \<and> length (Keys x) = length (Keys y) \<and>
         list_all (\<lambda>(k, l). Key k = Key l \<and> KeyName k = KeyName l) (zip (Keys x) (Keys y))
     | _ \<Rightarrow> False)"

definition oidcConfigEqual :: "OIDCConfig option \<Rightarrow> OIDCConfig option \<Rightarrow> bool" where
  "oidcConfigEqual a b = (case (a, b) of
       (None, None) \<Rightarrow> True
     | (Some x, Some y) \<Rightarrow>
         IssuerURL x = IssuerURL y \<and> JWKSURL x = JWKSURL y \<and> IntrospectionURL x = IntrospectionURL y \<and>
         ClientID x = ClientID y \<and> ClientSecret x = ClientSecret y \<and> OIDCAudience x = OIDCAudience y \<and>
         SkipIssuerCheck x = SkipIssuerCheck y \<and>
         length (AllowedAlgorithms x) = length (AllowedAlgorithms y) \<and>
         list_all (\<lambda>(p, q). p = q) (zip (AllowedAlgorithms x) (AllowedAlgorithms y))
     | _ \<Rightarrow> False)"

definition authProvidersEqual :: "(string \<times> AuthProvider) list \<Rightarrow> (string \<times> AuthProvider) list \<Rightarrow> bool" where
  "authProvidersEqual a b =
     (length a = length b \<and>
      list_all (\<lambda>(name, ap). case map_of b name of
          None \<Rightarrow> False
        | Some bp \<Rightarrow> ap_Type ap = ap_Type bp \<and> jwtConfigEqual (ap_JWT ap) (ap_JWT bp) \<and>
            apiKeyConfigEqual (ap_APIKey ap) (ap_APIKey bp) \<and> oidcConfigEqual (ap_OIDC ap) (ap_OIDC bp)) a)"

definition retryEqual :: "RetryConfig option \<Rightarrow> RetryConfig option \<Rightarrow> bool" where
  "retryEqual a b = (case (a, b) of
       (None, None) \<Rightarrow> True
     | (Some x, Some y) \<Rightarrow>
         MaxRetries x = MaxRetries y \<and> InitialDelay x = InitialDelay y \<and> Multiplier x = Multiplier y \<and>
         length (RetryableStatusCodes x) = length (RetryableStatusCodes y) \<and>
         list_all (\<lambda>(p, q). p = q) (zip (RetryableStatusCodes x) (RetryableStatusCodes y))
     | _ \<Rightarrow> False)"

definition cbEqual :: "CircuitBreakerConfig option \<Rightarrow> CircuitBreakerConfig option \<Rightarrow> bool" where
  "cbEqual a b = (case (a, b) of
       (None, None) \<Rightarrow> True
     | (Some x, Some y) \<Rightarrow>
         FailureThreshold x = FailureThreshold y \<and> SuccessThreshold x = SuccessThreshold y \<and> CBTimeout x = CBTimeout y
     | _ \<Rightarrow> False)"

definition yamlNodeEqual :: "yaml_lib \<Rightarrow> yaml_node \<Rightarrow> yaml_node \<Rightarrow> bool" where
  "yamlNodeEqual lib a b = (case (marshalNode lib a, marshalNode lib b) of
       (Some aBytes, Some bBytes) \<Rightarrow> aBytes = bBytes
     | _ \<Rightarrow> False)"

definition middlewareDefinitionEqual :: "yaml_lib \<Rightarrow> MiddlewareDefinition \<Rightarrow> MiddlewareDefinition \<Rightarrow> bool" where
  "middlewareDefinitionEqual lib a b =
     (if md_Type a \<noteq> md_Type b then False else yamlNodeEqual lib (md_Config a) (md_Config b))"

definition middlewareRefsEqual :: "yaml_lib \<Rightarrow> MiddlewareRef list \<Rightarrow> MiddlewareRef list \<Rightarrow> bool" where
  "middlewareRefsEqual lib a b =
     (length a = length b \<and>
      list_all (\<lambda>(x, y). mr_Ref x = mr_Ref y \<and> yamlNodeEqual lib (mr_Config x) (mr_Config y)) (zip a b))"

section \<open>NonReloadableChanges\<close>

datatype warning =
    HostChanged string string
  | PortChanged int int
  | ReadTimeoutChanged int int
  | WriteTimeoutChanged int int
  | IdleTimeoutChanged int int
  | ShutdownTimeoutChanged int int
  | TrustedProxiesChanged
  | MaxHeaderBytesChanged int int
  | BackendChanged string string
  | RedisChanged
  | AuthProvidersChanged
  | LogLevelChanged string string

definition NonReloadableChanges :: "GatewayConfig \<Rightarrow> GatewayConfig \<Rightarrow> warning list" where
  "NonReloadableChanges old new =
     (let o_s = Server old; n_s = Server new; o_r = RateLimit old; n_r = RateLimit new
      in (if ServerHost o_s \<noteq> ServerHost n_s then [HostChanged (ServerHost o_s) (ServerHost n_s)] else []) @
         (if ServerPort o_s \<noteq> ServerPort n_s then [PortChanged (ServerPort o_s) (ServerPort n_s)] else []) @
         (if ReadTimeout o_s \<noteq> ReadTimeout n_s then [ReadTimeoutChanged (ReadTimeout o_s) (ReadTimeout n_s)] else []) @
         (if WriteTimeout o_s \<noteq> WriteTimeout n_s then [WriteTimeoutChanged (WriteTimeout o_s) (WriteTimeout n_s)] else []) @
         (if IdleTimeout o_s \<noteq> IdleTimeout n_s then [IdleTimeoutChanged (IdleTimeout o_s) (IdleTimeout n_s)] else []) @
         (if ShutdownTimeout o_s \<noteq> ShutdownTimeout n_s
          then [ShutdownTimeoutChanged (ShutdownTimeout o_s) (ShutdownTimeout n_s)] else []) @
         (if \<not> stringSliceEqual (TrustedProxies o_s) (TrustedProxies n_s) then [TrustedProxiesChanged] else []) @
         (if MaxHeaderBytes o_s \<noteq> MaxHeaderBytes n_s then [MaxHeaderBytesChanged (MaxHeaderBytes o_s) (MaxHeaderBytes n_s)] else []) @
         (if Backend o_r \<noteq> Backend n_r then [BackendChanged (Backend o_r) (Backend n_r)] else []) @
         (if \<not> redisConfigEqual (Redis o_r) (Redis n_r) then [RedisChanged] else []) @
         (if \<not> authProvidersEqual (AuthProviders old) (AuthProviders new) then [AuthProvidersChanged] else []) @
         (if LoggingLevel old \<noteq> LoggingLevel new then [LogLevelChanged (LoggingLevel old) (LoggingLevel new)] else []))"

section \<open>DiffSummary\<close>

datatype change =
    RouteAdded string
  | RouteModified string
  | RouteRemoved string
  | RouteOrderChanged
  | DefinitionAdded string
  | DefinitionModified string
  | DefinitionRemoved string
  | GlobalsChanged

definition routeChanged :: "yaml_lib \<Rightarrow> RouteConfig \<Rightarrow> RouteConfig \<Rightarrow> bool" where
  "routeChanged lib a b =
     (if PathRegex (Match a) \<noteq> PathRegex (Match b) then True
      else if \<not> stringSliceEqual (Methods (Match a)) (Methods (Match b)) then True
      else if MatchHost (Match a) \<noteq> MatchHost (Match b) then True
      else if \<not> stringMapEqual (MatchHeaders (Match a)) (MatchHeaders (Match b)) then True
      else if UpstreamURL (Upstream a) \<noteq> UpstreamURL (Upstream b) \<or> PathRewrite (Upstream a) \<noteq> PathRewrite (Upstream b) \<or>
              UpstreamTimeout (Upstream a) \<noteq> UpstreamTimeout (Upstream b) then True
      else if \<not> retryEqual (Retry a) (Retry b) then True
      else if \<not> cbEqual (RouteCircuitBreaker a) (RouteCircuitBreaker b) then True
      else if \<not> stringSliceEqual (SkipMiddlewares a) (SkipMiddlewares b) then True
      else if \<not> middlewareRefsEqual lib (RouteMiddlewares a) (RouteMiddlewares b) then True
      else False)"

definition indexRoutes :: "RouteConfig list \<Rightarrow> (string \<rightharpoonup> RouteConfig)" where
  "indexRoutes routes = foldl (\<lambda>m r. m(RouteName r \<mapsto> r)) Map.empty routes"

fun routeDiffs :: "yaml_lib \<Rightarrow> (string \<rightharpoonup> RouteConfig) \<Rightarrow> RouteConfig list \<Rightarrow> change list" where
  "routeDiffs lib oldRoutes [] = []"
| "routeDiffs lib oldRoutes (nr # nrs) =
     (case oldRoutes (RouteName nr) of
        None \<Rightarrow> [RouteAdded (RouteName nr)]
      | Some r \<Rightarrow> if routeChanged lib r nr then [RouteModified (RouteName nr)] else []) @
     routeDiffs lib oldRoutes nrs"

definition removedRoutes :: "RouteConfig list \<Rightarrow> (string \<rightharpoonup> RouteConfig) \<Rightarrow> change list" where
  "removedRoutes old newRoutes =
     map (\<lambda>r. RouteRemoved (RouteName r)) (filter (\<lambda>r. newRoutes (RouteName r) = None) old)"

definition orderChanged :: "RouteConfig list \<Rightarrow> RouteConfig list \<Rightarrow> change list \<Rightarrow> change list" where
  "orderChanged old new changes =
     (if length old = length new \<and> changes = [] \<and> list_ex (\<lambda>(a, b). RouteName a \<noteq> RouteName b) (zip old new)
      then [RouteOrderChanged] else [])"

definition diffMiddlewareDefinitions ::
  "yaml_lib \<Rightarrow> (string \<times> MiddlewareDefinition) list \<Rightarrow> (string \<times> MiddlewareDefinition) list \<Rightarrow> change list" where
  "diffMiddlewareDefinitions lib old new =
     concat (map (\<lambda>(name, nd). case map_of old name of
         None \<Rightarrow> [DefinitionAdded name]
       | Some od \<Rightarrow> if \<not> middlewareDefinitionEqual lib od nd then [DefinitionModified name] else []) new) @
     concat (map (\<lambda>(name, od). case map_of new name of None \<Rightarrow> [DefinitionRemoved name] | Some _ \<Rightarrow> []) old)"

definition DiffSummary :: "yaml_lib \<Rightarrow> GatewayConfig \<Rightarrow> GatewayConfig \<Rightarrow> change list" where
  "DiffSummary lib old new =
     (let changes = routeDiffs lib (indexRoutes (Routes old)) (Routes new) @
            removedRoutes (Routes old) (indexRoutes (Routes new))
      in changes @ orderChanged (Routes old) (Routes new) changes @
         diffMiddlewareDefinitions lib (MiddlewareDefinitions old) (MiddlewareDefinitions new) @
         (if \<not> middlewareRefsEqual lib (Middlewares old) (Middlewares new) then [GlobalsChanged] else []))"

section \<open>What the comparison promises\<close>

text \<open>Two references, definitions or routes that agree up to the rendering of their YAML parts.\<close>

definition same_ref :: "yaml_lib \<Rightarrow> MiddlewareRef \<Rightarrow> MiddlewareRef \<Rightarrow> bool" where
  "same_ref lib a b \<longleftrightarrow> mr_Ref a = mr_Ref b \<and> yamlNodeEqual lib (mr_Config a) (mr_Config b)"

definition same_definition :: "yaml_lib \<Rightarrow> MiddlewareDefinition \<Rightarrow> MiddlewareDefinition \<Rightarrow> bool" where
  "same_definition lib a b \<longleftrightarrow> md_Type a = md_Type b \<and> yamlNodeEqual lib (md_Config a) (md_Config b)"

definition same_route :: "yaml_lib \<Rightarrow> RouteConfig \<Rightarrow> RouteConfig \<Rightarrow> bool" where
  "same_route lib a b \<longleftrightarrow>
     RouteName a = RouteName b \<and> PathRegex (Match a) = PathRegex (Match b) \<and> Methods (Match a) = Methods (Match b) \<and>
     MatchHost (Match a) = MatchHost (Match b) \<and> map_of (MatchHeaders (Match a)) = map_of (MatchHeaders (Match b)) \<and>
     Upstream a = Upstream b \<and> Retry a = Retry b \<and> RouteCircuitBreaker a = RouteCircuitBreaker b \<and>
     SkipMiddlewares a = SkipMiddlewares b \<and> list_all2 (same_ref lib) (RouteMiddlewares a) (RouteMiddlewares b)"

text \<open>The association lists of a configuration are maps, and its routes have distinct names.\<close>

definition proper :: "GatewayConfig \<Rightarrow> bool" where
  "proper cfg \<longleftrightarrow> distinct (map fst (AuthProviders cfg)) \<and> distinct (map fst (MiddlewareDefinitions cfg)) \<and>
     distinct (map RouteName (Routes cfg)) \<and> (\<forall>r \<in> set (Routes cfg). distinct (map fst (MatchHeaders (Match r))))"

section \<open>The equality functions decide equality\<close>

named_theorems decides

lemma zip_eq_iff: "(length a = length b \<and> list_all (\<lambda>(x, y). x = y) (zip a b)) \<longleftrightarrow> a = b"
proof -
  have "(length a = length b \<and> list_all (\<lambda>(x, y). x = y) (zip a b)) \<longleftrightarrow> list_all2 (=) a b"
    by (simp add: list_all2_iff list_all_iff)
  then show ?thesis by (simp add: list.rel_eq)
qed

lemma stringSliceEqual_iff [decides]: "stringSliceEqual a b \<longleftrightarrow> a = b"
  unfolding stringSliceEqual_def by (rule zip_eq_iff)

lemma map_of_subset_eq:
  assumes "distinct (map fst a)" and "distinct (map fst b)" and "length a = length b"
    and "\<forall>(k, v) \<in> set a. map_of b k = Some v"
  shows "map_of a = map_of b"
proof -
  have sub: "set a \<subseteq> set b" using assms(4) by (auto dest: map_of_SomeD)
  have "card (set a) = length a" "card (set b) = length b"
    using assms(1,2) by (simp_all add: distinct_card distinct_map)
  with sub assms(3) have "set a = set b" by (metis List.finite_set card_subset_eq)
  with assms(1,2) show ?thesis by (rule map_of_inject_set [THEN iffD2])
qed

lemma map_of_eq_length:
  assumes "distinct (map fst a)" and "distinct (map fst b)" and "map_of a = map_of b"
  shows "length a = length b"
  using assms by (metis distinct_card distinct_map map_of_inject_set)

lemma stringMapEqual_iff:
  assumes "distinct (map fst a)" and "distinct (map fst b)"
  shows "stringMapEqual a b \<longleftrightarrow> map_of a = map_of b"
proof
  assume "stringMapEqual a b"
  then show "map_of a = map_of b"
    using assms by (intro map_of_subset_eq) (auto simp: stringMapEqual_def list_all_iff)
next
  assume eq: "map_of a = map_of b"
  moreover have "list_all (\<lambda>(k, v). map_of b k = Some v) a"
    using assms(1) eq by (auto simp: list_all_iff simp flip: eq)
  ultimately show "stringMapEqual a b" using map_of_eq_length [OF assms] by (simp add: stringMapEqual_def)
qed

lemma redisConfigEqual_iff [decides]: "redisConfigEqual a b \<longleftrightarrow> a = b"
  by (cases a; cases b) (auto simp: redisConfigEqual_def)

lemma jwtConfigEqual_iff [decides]: "jwtConfigEqual a b \<longleftrightarrow> a = b"
  by (cases a; cases b) (auto simp: jwtConfigEqual_def)

lemma apiKeyConfigEqual_iff [decides]: "apiKeyConfigEqual a b \<longleftrightarrow> a = b"
proof -
  have "(\<lambda>(k, l). Key k = Key l \<and> KeyName k = KeyName l) = (\<lambda>(k, l :: APIKeyEntry). k = l)"
    by (auto simp: fun_eq_iff intro!: APIKeyEntry.equality)
  then show ?thesis
    by (cases a; cases b) (auto simp: apiKeyConfigEqual_def zip_eq_iff intro!: APIKeyConfig.equality)
qed

lemma oidcConfigEqual_iff [decides]: "oidcConfigEqual a b \<longleftrightarrow> a = b"
  by (cases a; cases b) (auto simp: oidcConfigEqual_def zip_eq_iff)

lemma retryEqual_iff [decides]: "retryEqual a b \<longleftrightarrow> a = b"
  by (cases a; cases b) (auto simp: retryEqual_def zip_eq_iff)

lemma cbEqual_iff [decides]: "cbEqual a b \<longleftrightarrow> a = b"
  by (cases a; cases b) (auto simp: cbEqual_def)

lemma authProvidersEqual_iff:
  assumes "distinct (map fst a)" and "distinct (map fst b)"
  shows "authProvidersEqual a b \<longleftrightarrow> map_of a = map_of b"
proof -
  have "(case x of None \<Rightarrow> False | Some bp \<Rightarrow> ap_Type ap = ap_Type bp \<and> jwtConfigEqual (ap_JWT ap) (ap_JWT bp) \<and>
      apiKeyConfigEqual (ap_APIKey ap) (ap_APIKey bp) \<and> oidcConfigEqual (ap_OIDC ap) (ap_OIDC bp)) \<longleftrightarrow> x = Some ap" for ap :: AuthProvider and x
    by (cases x) (auto simp: decides intro!: AuthProvider.equality)
  then have "authProvidersEqual a b \<longleftrightarrow> length a = length b \<and> (\<forall>(k, v) \<in> set a. map_of b k = Some v)"
    by (simp add: authProvidersEqual_def list_all_iff)
  also have "\<dots> \<longleftrightarrow> map_of a = map_of b"
    using map_of_subset_eq [OF assms] map_of_eq_length [OF assms] assms(1) by (auto simp flip: map_of_eq_Some_iff)
  finally show ?thesis .
qed

lemma middlewareRefsEqual_iff [decides]: "middlewareRefsEqual lib a b \<longleftrightarrow> list_all2 (same_ref lib) a b"
  by (simp add: middlewareRefsEqual_def list_all2_iff list_all_iff same_ref_def)

lemma middlewareDefinitionEqual_iff [decides]: "middlewareDefinitionEqual lib a b \<longleftrightarrow> same_definition lib a b"
  by (simp add: middlewareDefinitionEqual_def same_definition_def)

lemma routeChanged_iff:
  assumes "distinct (map fst (MatchHeaders (Match a)))" and "distinct (map fst (MatchHeaders (Match b)))"
    and "RouteName a = RouteName b"
  shows "routeChanged lib a b \<longleftrightarrow> \<not> same_route lib a b"
  using stringMapEqual_iff [OF assms(1,2)] assms(3) by (auto simp: routeChanged_def same_route_def decides)

section \<open>Lemmas on the summary\<close>

lemma indexRoutes_distinct:
  assumes "distinct (map RouteName rs)"
  shows "indexRoutes rs n = Some r \<longleftrightarrow> r \<in> set rs \<and> RouteName r = n"
  using assms
proof (induction rs rule: rev_induct)
  case (snoc x rs)
  then show ?case by (auto simp: indexRoutes_def) (metis image_eqI)
qed (simp add: indexRoutes_def)

lemma indexRoutes_None: "indexRoutes rs n = None \<longleftrightarrow> n \<notin> RouteName ` set rs"
  by (induction rs rule: rev_induct) (auto simp: indexRoutes_def)

lemma routeDiffs_Nil:
  "routeDiffs lib idx new = [] \<longleftrightarrow> (\<forall>nr \<in> set new. \<exists>r. idx (RouteName nr) = Some r \<and> \<not> routeChanged lib r nr)"
  by (induction lib idx new rule: routeDiffs.induct) (auto split: option.splits)

lemma removedRoutes_Nil: "removedRoutes old (indexRoutes new) = [] \<longleftrightarrow> RouteName ` set old \<subseteq> RouteName ` set new"
  by (auto simp: removedRoutes_def filter_empty_conv indexRoutes_None)

lemma diffMiddlewareDefinitions_Nil:
  assumes "distinct (map fst new)"
  shows "diffMiddlewareDefinitions lib old new = [] \<longleftrightarrow>
    (\<forall>name. rel_option (same_definition lib) (map_of old name) (map_of new name))"
proof
  assume d: "diffMiddlewareDefinitions lib old new = []"
  show "\<forall>name. rel_option (same_definition lib) (map_of old name) (map_of new name)"
  proof
    fix name
    show "rel_option (same_definition lib) (map_of old name) (map_of new name)"
    proof (cases "map_of new name")
      case None
      have "map_of old name = None"
        using d None by (cases "map_of old name")
          (auto simp: diffMiddlewareDefinitions_def dest!: map_of_SomeD split: option.splits)
      with None show ?thesis by simp
    next
      case (Some nd)
      have "\<forall>x \<in> set new. (\<lambda>(name, nd). case map_of old name of None \<Rightarrow> [DefinitionAdded name]
          | Some od \<Rightarrow> if \<not> middlewareDefinitionEqual lib od nd then [DefinitionModified name] else []) x = []"
        using d by (simp add: diffMiddlewareDefinitions_def)
      from bspec [OF this map_of_SomeD [OF Some]] Some show ?thesis
        by (auto simp: decides split: option.splits if_splits)
    qed
  qed
next
  assume r: "\<forall>name. rel_option (same_definition lib) (map_of old name) (map_of new name)"
  have "(case map_of old name of None \<Rightarrow> [DefinitionAdded name]
      | Some od \<Rightarrow> if \<not> middlewareDefinitionEqual lib od nd then [DefinitionModified name] else []) = []"
    if "(name, nd) \<in> set new" for name nd
    using r [rule_format, of name] assms that by (auto simp: decides option_rel_Some2)
  moreover have "(case map_of new name of None \<Rightarrow> [DefinitionRemoved name] | Some _ \<Rightarrow> []) = []"
    if "(name, od) \<in> set old" for name od
  proof -
    from weak_map_of_SomeI [OF that] have "map_of old name \<noteq> None" by auto
    with r [rule_format, of name] show ?thesis by (auto simp: option_rel_Some1)
  qed
  ultimately show "diffMiddlewareDefinitions lib old new = []"
    by (auto simp: diffMiddlewareDefinitions_def)
qed

lemma distinct_same_length:
  assumes "distinct (map f xs)" and "distinct (map f ys)" and "f ` set xs = f ` set ys"
  shows "length xs = length ys"
  by (metis assms distinct_card length_map list.set_map)

lemma same_route_name: "same_route lib a b \<Longrightarrow> RouteName a = RouteName b"
  by (simp add: same_route_def)

lemma names_differ_iff:
  "length old = length new \<Longrightarrow>
   list_ex (\<lambda>(a, b). RouteName a \<noteq> RouteName b) (zip old new) \<longleftrightarrow> map RouteName old \<noteq> map RouteName new"
  by (induction old new rule: list_induct2) auto

lemma routes_same_iff:
  assumes "distinct (map RouteName old)" and "distinct (map RouteName new)"
    and "\<forall>r \<in> set old \<union> set new. distinct (map fst (MatchHeaders (Match r)))"
  shows "(let changes = routeDiffs lib (indexRoutes old) new @ removedRoutes old (indexRoutes new)
      in changes @ orderChanged old new changes = []) \<longleftrightarrow> list_all2 (same_route lib) old new"
proof -
  let ?d = "routeDiffs lib (indexRoutes old) new" and ?r = "removedRoutes old (indexRoutes new)"
  have d: "?d = [] \<longleftrightarrow> (\<forall>nr \<in> set new. \<exists>r \<in> set old. same_route lib r nr)"
  proof -
    have "(\<exists>r. indexRoutes old (RouteName nr) = Some r \<and> \<not> routeChanged lib r nr) \<longleftrightarrow>
        (\<exists>r \<in> set old. same_route lib r nr)" if nr: "nr \<in> set new" for nr
    proof -
      have "(r \<in> set old \<and> RouteName r = RouteName nr) \<and> \<not> routeChanged lib r nr \<longleftrightarrow>
          r \<in> set old \<and> same_route lib r nr" for r
      proof (cases "r \<in> set old \<and> RouteName r = RouteName nr")
        case True
        with nr assms(3) routeChanged_iff [of r nr lib] show ?thesis by simp
      qed (auto simp: same_route_def)
      then show ?thesis unfolding indexRoutes_distinct [OF assms(1)] by blast
    qed
    then show ?thesis unfolding routeDiffs_Nil by blast
  qed
  show ?thesis
  proof
    assume "let changes = ?d @ ?r in changes @ orderChanged old new changes = []"
    then have e: "?d = []" "?r = []" and o: "orderChanged old new [] = []" by (auto simp: Let_def)
    have "RouteName nr \<in> RouteName ` set old" if "nr \<in> set new" for nr
      using e(1) d that same_route_name by (metis image_eqI)
    with e(2) removedRoutes_Nil [of old new] have names: "RouteName ` set old = RouteName ` set new" by blast
    then have len: "length old = length new" by (rule distinct_same_length [OF assms(1,2)])
    show "list_all2 (same_route lib) old new" unfolding list_all2_conv_all_nth
    proof (intro conjI allI impI len)
      fix i assume i: "i < length old"
      with len e(1) d obtain r where r: "r \<in> set old" "same_route lib r (new ! i)" by (metis nth_mem)
      from o len have "map RouteName old = map RouteName new"
        by (simp add: orderChanged_def names_differ_iff split: if_splits)
      with i len have "RouteName (old ! i) = RouteName (new ! i)" by (metis nth_map)
      with r have "RouteName r = RouteName (old ! i)" by (simp add: same_route_name)
      with r(1) i assms(1) have "r = old ! i" by (metis distinct_map inj_onD nth_mem)
      with r(2) show "same_route lib (old ! i) (new ! i)" by simp
    qed
  next
    assume l: "list_all2 (same_route lib) old new"
    then have n: "map RouteName old = map RouteName new"
      by (induction rule: list_all2_induct) (auto dest: same_route_name)
    have "?d = []" unfolding d using l by (induction rule: list_all2_induct) auto
    moreover have "?r = []" unfolding removedRoutes_Nil using n by (metis list.set_map order_refl)
    moreover have "orderChanged old new cs = []" for cs
      using n map_eq_imp_length_eq [OF n] by (simp add: orderChanged_def names_differ_iff)
    ultimately show "let changes = ?d @ ?r in changes @ orderChanged old new changes = []" by simp
  qed
qed

lemma DiffSummary_Nil:
  assumes "proper old" and "proper new"
  shows "DiffSummary lib old new = [] \<longleftrightarrow>
    list_all2 (same_route lib) (Routes old) (Routes new) \<and>
    (\<forall>name. rel_option (same_definition lib) (map_of (MiddlewareDefinitions old) name) (map_of (MiddlewareDefinitions new) name)) \<and>
    list_all2 (same_ref lib) (Middlewares old) (Middlewares new)"
proof -
  have r: "(let changes = routeDiffs lib (indexRoutes (Routes old)) (Routes new) @
        removedRoutes (Routes old) (indexRoutes (Routes new))
      in changes @ orderChanged (Routes old) (Routes new) changes = []) \<longleftrightarrow>
      list_all2 (same_route lib) (Routes old) (Routes new)"
    using assms by (intro routes_same_iff) (auto simp: proper_def)
  have m: "diffMiddlewareDefinitions lib (MiddlewareDefinitions old) (MiddlewareDefinitions new) = [] \<longleftrightarrow>
      (\<forall>name. rel_option (same_definition lib) (map_of (MiddlewareDefinitions old) name) (map_of (MiddlewareDefinitions new) name))"
    using assms by (intro diffMiddlewareDefinitions_Nil) (simp add: proper_def)
  show ?thesis unfolding r [symmetric] m [symmetric]
    by (auto simp: DiffSummary_def Let_def decides)
qed

lemma same_route_spec:
  assumes "same_route lib a b" and "distinct (map fst (MatchHeaders (Match a)))"
    and "distinct (map fst (MatchHeaders (Match b)))"
  shows "route_spec re r a \<longleftrightarrow> route_spec re r b"
proof -
  have "set (MatchHeaders (Match a)) = set (MatchHeaders (Match b))"
    using assms by (simp add: same_route_def map_of_inject_set)
  then show ?thesis using assms(1) by (simp add: route_spec_def same_route_def)
qed

lemma list_all2_find:
  assumes "list_all2 R xs ys" and "\<And>x y. x \<in> set xs \<Longrightarrow> y \<in> set ys \<Longrightarrow> R x y \<Longrightarrow> P x \<longleftrightarrow> P y"
  shows "rel_option R (find P xs) (find P ys)"
  using assms by (induction rule: list_all2_induct) auto

section \<open>Properties\<close>

text \<open>C19: A reload warns exactly when something that needs a restart differs: a server setting, the
  limiter backend or its Redis settings, a provider, or the log level; with no warning the two
  configurations agree on all of them.\<close>

theorem NonReloadableChanges_empty_iff:
  assumes "distinct (map fst (AuthProviders old))" and "distinct (map fst (AuthProviders new))"
  shows "NonReloadableChanges old new = [] \<longleftrightarrow>
    Server old = Server new \<and> RateLimit old = RateLimit new \<and> LoggingLevel old = LoggingLevel new \<and>
    map_of (AuthProviders old) = map_of (AuthProviders new)"
proof -
  have "RateLimit old = RateLimit new \<longleftrightarrow> Backend (RateLimit old) = Backend (RateLimit new) \<and> Redis (RateLimit old) = Redis (RateLimit new)"
    by (auto intro!: RateLimitGlobalConfig.equality)
  moreover have "Server old = Server new \<longleftrightarrow>
      ServerHost (Server old) = ServerHost (Server new) \<and> ServerPort (Server old) = ServerPort (Server new) \<and>
      ReadTimeout (Server old) = ReadTimeout (Server new) \<and> WriteTimeout (Server old) = WriteTimeout (Server new) \<and>
      IdleTimeout (Server old) = IdleTimeout (Server new) \<and> ShutdownTimeout (Server old) = ShutdownTimeout (Server new) \<and>
      TrustedProxies (Server old) = TrustedProxies (Server new) \<and> MaxHeaderBytes (Server old) = MaxHeaderBytes (Server new)"
    by (auto intro!: ServerConfig.equality)
  ultimately show ?thesis
    unfolding NonReloadableChanges_def Let_def append_is_Nil_conv
    by (simp add: decides authProvidersEqual_iff [OF assms])
qed

theorem NonReloadableChanges_empty_iff_witness:
  "NonReloadableChanges demo_gateway (demo_gateway\<lparr>Routes := []\<rparr>) = [] \<and>
   NonReloadableChanges demo_gateway (applyDefaults demo_gateway) \<noteq> []"
proof -
  have "distinct (map fst (AuthProviders demo_gateway))" "distinct (map fst (AuthProviders (demo_gateway\<lparr>Routes := []\<rparr>)))"
    "distinct (map fst (AuthProviders (applyDefaults demo_gateway)))"
    by (simp_all add: demo_gateway_def applyDefaults_def)
  from NonReloadableChanges_empty_iff [OF this(1,2)] NonReloadableChanges_empty_iff [OF this(1,3)]
  show ?thesis by (simp add: demo_gateway_def applyDefaults_def)
qed

text \<open>C18: The summary of a reload is complete: it is empty exactly when the routes agree one by one and
  in order, the definitions agree by name and the global middlewares agree in order, up to the
  rendering of YAML parts. An empty summary therefore means that every request still goes to the
  route of the same name.\<close>

theorem DiffSummary_empty_iff:
  assumes "proper old" and "proper new"
  shows "(DiffSummary lib old new = [] \<longleftrightarrow>
      list_all2 (same_route lib) (Routes old) (Routes new) \<and>
      (\<forall>name. rel_option (same_definition lib) (map_of (MiddlewareDefinitions old) name) (map_of (MiddlewareDefinitions new) name)) \<and>
      list_all2 (same_ref lib) (Middlewares old) (Middlewares new)) \<and>
    (DiffSummary lib old new = [] \<longrightarrow>
      rel_option (same_route lib) (find (route_spec re r) (Routes old)) (find (route_spec re r) (Routes new)))"
proof (intro conjI impI)
  show iff: "DiffSummary lib old new = [] \<longleftrightarrow>
      list_all2 (same_route lib) (Routes old) (Routes new) \<and>
      (\<forall>name. rel_option (same_definition lib) (map_of (MiddlewareDefinitions old) name) (map_of (MiddlewareDefinitions new) name)) \<and>
      list_all2 (same_ref lib) (Middlewares old) (Middlewares new)"
    by (rule DiffSummary_Nil [OF assms])
  assume "DiffSummary lib old new = []"
  with iff have "list_all2 (same_route lib) (Routes old) (Routes new)" by blast
  then show "rel_option (same_route lib) (find (route_spec re r) (Routes old)) (find (route_spec re r) (Routes new))"
    using assms by (intro list_all2_find) (auto simp: proper_def same_route_spec)
qed

theorem DiffSummary_empty_iff_witness:
  "DiffSummary demo_yaml demo_gateway (applyDefaults demo_gateway) \<noteq> [] \<and>
   DiffSummary demo_yaml demo_gateway (demo_gateway\<lparr>Server := serverDefaults demo_server\<rparr>) = []"
proof -
  have "proper demo_gateway" "proper (applyDefaults demo_gateway)" "proper (demo_gateway\<lparr>Server := serverDefaults demo_server\<rparr>)"
    by (simp_all add: proper_def demo_gateway_def applyDefaults_def simpleRoute_def routeDefaults_def)
  from DiffSummary_empty_iff [OF this(1,2), of demo_yaml] DiffSummary_empty_iff [OF this(1,3), of demo_yaml]
  show ?thesis
    by (simp add: demo_gateway_def applyDefaults_def simpleRoute_def routeDefaults_def orDefault_def same_route_def
        same_ref_def same_definition_def yamlNodeEqual_def demo_yaml_def demo_ref_def demo_definition_def)
qed

end
