(* ===== verification/RedisLimiter.thy ===== *)
theory RedisLimiter
  imports RateLimit Float64
begin

text \<open>
  The Redis limiter of \<open>internal/middleware/ratelimit/redis.go\<close>: the two Lua scripts and the methods
  around them. Redis is a service: its commands, and Lua's conversions between numbers and texts,
  are a record of functions on a database \<open>'d\<close>; what the sliding window relies on is the predicate
  \<open>zset_documented\<close>. A call reads the gateway's clock first; its script runs later, at the instant \<open>ranAt\<close> of
  the server's clock, alone, as Redis runs scripts. \<open>rd_at t\<close> is the database when the server's clock shows
  \<open>t\<close> milliseconds, \<open>rd_arrival\<close> tells when a script sent at an instant runs. A call may fail before its
  script ran or, with \<open>queryTimeout\<close>, after. Scores
  and times are whole milliseconds below $2^{53}$, which Lua's numbers hold exactly; the level of the
  leaky bucket is a float64, rounded by \<open>fl\<close>.
\<close>

section \<open>The client\<close>

text \<open>The options \<open>NewRedisLimiter\<close> gives the client library, and the timeout of a query. TLS versions
  are as on the wire: 0x0303 is TLS 1.2.\<close>

record redis_options =
  opt_Addr :: string
  opt_Password :: string
  opt_DB :: int
  opt_PoolSize :: int
  opt_MinIdleConns :: int
  opt_DialTimeout :: int
  opt_ReadTimeout :: int
  opt_WriteTimeout :: int
  opt_MaxRetries :: int
  opt_TLSMinVersion :: "int option"

definition NewRedisLimiter :: "RedisConfig \<Rightarrow> redis_options \<times> int" where
  "NewRedisLimiter cfg =
     (let opts = \<lparr>opt_Addr = Addr cfg, opt_Password = Password cfg, opt_DB = DB cfg, opt_PoolSize = PoolSize cfg,
            opt_MinIdleConns = MinIdleConns cfg, opt_DialTimeout = DialTimeout cfg, opt_ReadTimeout = RedisReadTimeout cfg,
            opt_WriteTimeout = RedisWriteTimeout cfg, opt_MaxRetries = RedisMaxRetries cfg, opt_TLSMinVersion = None\<rparr>
      in (if TLSEnabled cfg then opts\<lparr>opt_TLSMinVersion := Some 771\<rparr> else opts, QueryTimeout cfg))"

section \<open>Redis\<close>

datatype reach = Answered | Unanswered | NotRun

record 'd redis_ops =
  rd_at :: "int \<Rightarrow> 'd \<Rightarrow> 'd"
  rd_arrival :: "int \<Rightarrow> 'd \<Rightarrow> int"
  rd_reach :: "'d \<Rightarrow> reach"
  ZREMRANGEBYSCORE :: "string \<Rightarrow> int \<Rightarrow> int \<Rightarrow> 'd \<Rightarrow> 'd"
  ZCARD :: "string \<Rightarrow> 'd \<Rightarrow> nat"
  ZADD :: "string \<Rightarrow> int \<Rightarrow> string \<Rightarrow> 'd \<Rightarrow> 'd"
  PEXPIRE :: "string \<Rightarrow> int \<Rightarrow> 'd \<Rightarrow> 'd"
  ZRANGE_first :: "string \<Rightarrow> 'd \<Rightarrow> int option"
  HMGET :: "string \<Rightarrow> 'd \<Rightarrow> string option \<times> string option"
  HSET :: "string \<Rightarrow> string \<Rightarrow> string \<Rightarrow> 'd \<Rightarrow> 'd"
  lua_tostring :: "rat \<Rightarrow> string"
  lua_tonumber :: "string \<Rightarrow> rat option"

section \<open>Scripts\<close>

definition slidingWindowScript ::
  "'d redis_ops \<Rightarrow> string \<Rightarrow> int \<Rightarrow> int \<Rightarrow> int \<Rightarrow> string \<Rightarrow> 'd \<Rightarrow> (int \<times> int \<times> int) \<times> 'd" where
  "slidingWindowScript R key window limit now member d =
     (let d1 = ZREMRANGEBYSCORE R key 0 (now - window) d;
          count = int (ZCARD R key d1)
      in if count < limit then
           ((1, limit - count - 1, now + window), PEXPIRE R key window (ZADD R key now member d1))
         else ((0, 0, case ZRANGE_first R key d1 of None \<Rightarrow> now + window | Some oldest \<Rightarrow> oldest + window), d1))"

definition luaField :: "'d redis_ops \<Rightarrow> string option \<Rightarrow> rat \<Rightarrow> rat" where
  "luaField R x dflt = (case Option.bind x (lua_tonumber R) of Some v \<Rightarrow> v | None \<Rightarrow> dflt)"

definition leakedLevel :: "rat \<Rightarrow> rat \<Rightarrow> rat \<Rightarrow> rat" where
  "leakedLevel leak_rate elapsed level =
     (if 0 < elapsed then max (fl (level - fl (elapsed * leak_rate))) 0 else level)"

definition leakyBucketScript ::
  "'d redis_ops \<Rightarrow> string \<Rightarrow> int \<Rightarrow> int \<Rightarrow> int \<Rightarrow> 'd \<Rightarrow> (int \<times> int \<times> int) \<times> 'd" where
  "leakyBucketScript R key capacity window_ms now_ms d =
     (let leak_rate = fl (of_int capacity / of_int window_ms);
          (f1, f2) = HMGET R key d;
          level0 = luaField R f1 0;
          last_update = luaField R f2 (of_int now_ms);
          level = leakedLevel leak_rate (fl (of_int now_ms - last_update)) level0;
          store = (\<lambda>l. PEXPIRE R key window_ms (HSET R key (lua_tostring R l) (lua_tostring R (of_int now_ms)) d))
      in if fl (level + 1) \<le> of_int capacity then
           (let level' = fl (level + 1)
            in ((1, \<lfloor>fl (of_int capacity - level')\<rfloor>, now_ms + \<lceil>fl (level' / leak_rate)\<rceil>), store level'))
         else
           (let overflow = fl (fl (level + 1) - of_int capacity)
            in ((0, 0, now_ms + \<lceil>fl (overflow / leak_rate)\<rceil>), store level)))"

section \<open>The limiter\<close>

definition generateInstanceID :: "int \<Rightarrow> 8 word list \<Rightarrow> string" where
  "generateInstanceID pid rnd = Itoa pid @ '':'' @ hexBytes rnd"

definition memberName :: "string \<Rightarrow> int \<Rightarrow> nat \<Rightarrow> string" where
  "memberName instanceID nowMs counter = instanceID @ '':'' @ Itoa nowMs @ '':'' @ natToString counter"

text \<open>The call of a script: \<open>Run\<close>, \<open>Int64Slice\<close> and the three results of the method.\<close>

definition scriptAnswer :: "int \<times> int \<times> int \<Rightarrow> answer" where
  "scriptAnswer res = (case res of (a, rest, reset) \<Rightarrow> Some (a = 1, rest, reset * 1000000))"

definition runScript ::
  "'d redis_ops \<Rightarrow> int \<Rightarrow> ('d \<Rightarrow> (int \<times> int \<times> int) \<times> 'd) \<Rightarrow> 'd \<Rightarrow> answer \<times> 'd" where
  "runScript R ranAt script d =
     (let d0 = rd_at R ranAt d; (res, d') = script d0
      in case rd_reach R d0 of
           Answered \<Rightarrow> (scriptAnswer res, d')
         | Unanswered \<Rightarrow> (None, d')
         | NotRun \<Rightarrow> (None, d0))"

text \<open>\<open>memberCounter\<close> is the first part of the state; \<open>Add(1)\<close> returns the new value and wraps at 64 bits.\<close>

definition allowSlidingWindow ::
  "'d redis_ops \<Rightarrow> string \<Rightarrow> int \<Rightarrow> string \<Rightarrow> int \<Rightarrow> int \<Rightarrow> int \<Rightarrow> nat \<times> 'd \<Rightarrow> answer \<times> nat \<times> 'd" where
  "allowSlidingWindow R instanceID ranAt key limit windowMs nowMs s = (case s of (counter, d) \<Rightarrow>
     (let n = (counter + 1) mod 2 ^ 64;
          (a, d') = runScript R ranAt (slidingWindowScript R key windowMs limit nowMs (memberName instanceID nowMs n)) d
      in (a, n, d')))"

definition allowLeakyBucket ::
  "'d redis_ops \<Rightarrow> int \<Rightarrow> string \<Rightarrow> int \<Rightarrow> int \<Rightarrow> int \<Rightarrow> nat \<times> 'd \<Rightarrow> answer \<times> nat \<times> 'd" where
  "allowLeakyBucket R ranAt key capacity windowMs nowMs s = (case s of (counter, d) \<Rightarrow>
     (let (a, d') = runScript R ranAt (leakyBucketScript R key capacity windowMs nowMs) d
      in (a, counter, d')))"

definition redis_Allow :: "'d redis_ops \<Rightarrow> string \<Rightarrow> int \<Rightarrow> (nat \<times> 'd) allow" where
  "redis_Allow R instanceID ranAt now key limit window algorithm s =
     (let nowMs = UnixMilli now; windowMs = Milliseconds window
      in if algorithm = ''leaky_bucket'' then allowLeakyBucket R ranAt key limit windowMs nowMs s
         else allowSlidingWindow R instanceID ranAt key limit windowMs nowMs s)"

section \<open>Documented behaviour of Redis\<close>

text \<open>\<open>v d k\<close> is the sorted set at a key, members to scores; \<open>e d k\<close> the instant at which the key
  expires, if it has one; \<open>c d\<close> the clock. A key whose time has come is gone, and a set that
  becomes empty may take its expiry with it. Commands on one key leave the others alone.\<close>

definition expired :: "int option \<Rightarrow> int \<Rightarrow> bool" where
  "expired x t = (case x of None \<Rightarrow> False | Some deadline \<Rightarrow> deadline \<le> t)"

definition time_passes ::
  "'d redis_ops \<Rightarrow> ('d \<Rightarrow> string \<Rightarrow> (string \<rightharpoonup> int)) \<Rightarrow> ('d \<Rightarrow> string \<Rightarrow> int option) \<Rightarrow> ('d \<Rightarrow> int) \<Rightarrow> bool" where
  "time_passes R v e c \<longleftrightarrow> (\<forall>t d k.
     c (rd_at R t d) = t \<and>
     v (rd_at R t d) k = (if expired (e d k) t then Map.empty else v d k) \<and>
     (\<not> expired (e d k) t \<longrightarrow> e (rd_at R t d) k = e d k))"

definition keys_apart ::
  "'d redis_ops \<Rightarrow> ('d \<Rightarrow> string \<Rightarrow> (string \<rightharpoonup> int)) \<Rightarrow> ('d \<Rightarrow> string \<Rightarrow> int option) \<Rightarrow> bool" where
  "keys_apart R v e \<longleftrightarrow> (\<forall>k k' d. k' \<noteq> k \<longrightarrow>
     (\<forall>lo hi. v (ZREMRANGEBYSCORE R k lo hi d) k' = v d k' \<and> e (ZREMRANGEBYSCORE R k lo hi d) k' = e d k') \<and>
     (\<forall>s m. v (ZADD R k s m d) k' = v d k' \<and> e (ZADD R k s m d) k' = e d k') \<and>
     (\<forall>l u. v (HSET R k l u d) k' = v d k' \<and> e (HSET R k l u d) k' = e d k') \<and>
     (\<forall>w. v (PEXPIRE R k w d) k' = v d k' \<and> e (PEXPIRE R k w d) k' = e d k'))"

definition zset_documented ::
  "'d redis_ops \<Rightarrow> ('d \<Rightarrow> string \<Rightarrow> (string \<rightharpoonup> int)) \<Rightarrow> ('d \<Rightarrow> string \<Rightarrow> int option) \<Rightarrow> ('d \<Rightarrow> int) \<Rightarrow> bool" where
  "zset_documented R v e c \<longleftrightarrow> time_passes R v e c \<and> keys_apart R v e \<and> (\<forall>k d.
     finite (dom (v d k)) \<and>
     ZCARD R k d = card (dom (v d k)) \<and>
     (\<forall>lo hi. v (ZREMRANGEBYSCORE R k lo hi d) k =
        (\<lambda>m. Option.bind (v d k m) (\<lambda>s. if lo \<le> s \<and> s \<le> hi then None else Some s))) \<and>
     (\<forall>lo hi. v (ZREMRANGEBYSCORE R k lo hi d) k \<noteq> Map.empty \<longrightarrow> e (ZREMRANGEBYSCORE R k lo hi d) k = e d k) \<and>
     (\<forall>lo hi. c (ZREMRANGEBYSCORE R k lo hi d) = c d) \<and>
     (\<forall>s m. v (ZADD R k s m d) k = (v d k)(m \<mapsto> s) \<and> c (ZADD R k s m d) = c d) \<and>
     (\<forall>w. v (PEXPIRE R k w d) k = (if 0 < w then v d k else Map.empty)) \<and>
     (\<forall>w. 0 < w \<longrightarrow> v d k \<noteq> Map.empty \<longrightarrow> e (PEXPIRE R k w d) k = Some (c d + w)))"

section \<open>Runs\<close>

text \<open>A run interleaves the calls of several gateway processes on one database, in the order in which
  their scripts run, each with its instance, the value of its counter and the instant of its run on the
  server; \<open>granted\<close> are the calls for \<open>key\<close> answered with \<open>allowed\<close>.\<close>

record redis_call = limiter_call +
  rc_instance :: string
  rc_counter :: nat
  rc_at :: int

abbreviation nowMs :: "('a) redis_call_scheme \<Rightarrow> int" where
  "nowMs x \<equiv> UnixMilli (lc_now x)"

definition rc_member :: "redis_call \<Rightarrow> string" where
  "rc_member x = memberName (rc_instance x) (nowMs x) ((rc_counter x + 1) mod 2 ^ 64)"

definition rc_allow :: "'d redis_ops \<Rightarrow> redis_call \<Rightarrow> 'd \<Rightarrow> answer \<times> nat \<times> 'd" where
  "rc_allow R x d = redis_Allow R (rc_instance x) (rc_at x) (lc_now x) (lc_key x) (lc_limit x) (lc_window x) (lc_algorithm x) (rc_counter x, d)"

definition isGranted :: "answer \<Rightarrow> bool" where
  "isGranted a = (case a of Some (ok, _, _) \<Rightarrow> ok | None \<Rightarrow> False)"

fun granted :: "'d redis_ops \<Rightarrow> string \<Rightarrow> redis_call list \<Rightarrow> 'd \<Rightarrow> redis_call list" where
  "granted R key [] d = []"
| "granted R key (x # xs) d =
     (case rc_allow R x d of
        (a, _, d') \<Rightarrow> (if lc_key x = key \<and> isGranted a then [x] else []) @ granted R key xs d')"

text \<open>The members a call adds tell the calls apart as long as the counter does not wrap.\<close>

definition counters_apart :: "redis_call list \<Rightarrow> bool" where
  "counters_apart calls \<longleftrightarrow>
     distinct (map (\<lambda>x. (rc_instance x, rc_counter x)) calls) \<and> list_all (\<lambda>x. rc_counter x + 1 < 2 ^ 64) calls"

text \<open>Newest first: every admission is one of at most \<open>limit\<close> in the window that ends with it.\<close>

fun windowed :: "int \<Rightarrow> int \<Rightarrow> int list \<Rightarrow> bool" where
  "windowed window limit [] = True"
| "windowed window limit (a # past) =
     (int (length (filter (\<lambda>x. a - window < x) (a # past))) \<le> limit \<and> windowed window limit past)"

text \<open>What the stored set knows of the past admissions at instant \<open>t\<close> of the server: all that are younger than the
  window, under an expiry that outlives them.\<close>

definition remembers ::
  "(string \<rightharpoonup> int) \<Rightarrow> int option \<Rightarrow> int \<Rightarrow> int \<Rightarrow> (string \<times> int) list \<Rightarrow> bool" where
  "remembers z x window t past \<longleftrightarrow>
     distinct (map fst past) \<and>
     (\<forall>m a. (m, a) \<in> set past \<longrightarrow> a \<le> t \<and> (t - window < a \<longrightarrow> z m = Some a)) \<and>
     (\<forall>m a. (m, a) \<in> set past \<longrightarrow> z m = Some a \<longrightarrow> (\<exists>deadline. x = Some deadline \<and> a + window \<le> deadline))"

text \<open>A database of one process, to run the scripts on.\<close>

record demo_db =
  db_clock :: int
  db_sets :: "string \<Rightarrow> (string \<times> int) list"
  db_expiry :: "string \<Rightarrow> int option"

definition demo_redis :: "demo_db redis_ops" where
  "demo_redis = \<lparr>
     rd_at = (\<lambda>t d. d\<lparr>db_clock := t, db_sets := (\<lambda>k. if expired (db_expiry d k) t then [] else db_sets d k)\<rparr>),
     rd_arrival = (\<lambda>t d. t), rd_reach = (\<lambda>d. Answered),
     ZREMRANGEBYSCORE = (\<lambda>k lo hi d. d\<lparr>db_sets := (db_sets d)(k :=
       filter (\<lambda>p. case map_of (db_sets d k) (fst p) of Some s \<Rightarrow> \<not> (lo \<le> s \<and> s \<le> hi) | None \<Rightarrow> True) (db_sets d k))\<rparr>),
     ZCARD = (\<lambda>k d. length (remdups (map fst (db_sets d k)))),
     ZADD = (\<lambda>k s m d. d\<lparr>db_sets := (db_sets d)(k := (m, s) # db_sets d k)\<rparr>),
     PEXPIRE = (\<lambda>k w d. if 0 < w then d\<lparr>db_expiry := (db_expiry d)(k := Some (db_clock d + w))\<rparr>
       else d\<lparr>db_sets := (db_sets d)(k := [])\<rparr>),
     ZRANGE_first = (\<lambda>k d. case map snd (db_sets d k) of [] \<Rightarrow> None | s # ss \<Rightarrow> Some (foldl min s ss)),
     HMGET = (\<lambda>k d. (None, None)),
     HSET = (\<lambda>k l u d. d),
     lua_tostring = (\<lambda>x. Itoa \<lfloor>x\<rfloor>),
     lua_tonumber = (\<lambda>x. None)\<rparr>"

definition demo_call :: "int \<Rightarrow> nat \<Rightarrow> redis_call" where
  "demo_call now n = \<lparr>lc_now = now, lc_key = ''k'', lc_limit = 2, lc_window = second_ns, lc_algorithm = ''sliding_window'',
     rc_instance = ''1:00'', rc_counter = n, rc_at = UnixMilli now\<rparr>"

definition demo_db0 :: demo_db where
  "demo_db0 = \<lparr>db_clock = 0, db_sets = (\<lambda>k. []), db_expiry = (\<lambda>k. None)\<rparr>"

section \<open>Members\<close>

lemma natToString_inj: "natToString m = natToString n \<longleftrightarrow> m = n"
  using digitsVal_natToString by metis

lemma natToString_chars: "ch \<in> set (natToString n) \<Longrightarrow> isDigit ch"
  using natToString_digits [of n] by (auto simp: list_all_iff)

lemma Itoa_inj: "Itoa i = Itoa j \<longleftrightarrow> i = j"
proof -
  have minus: "natToString n \<noteq> CHR ''-'' # s" for n s
    using natToString_chars [of "CHR ''-''" n] by (auto simp: isDigit_def byte_def)
  show ?thesis
    using minus minus [symmetric] by (auto simp: Itoa_def natToString_inj)
qed

lemma no_colon: "CHR '':'' \<notin> set (natToString n)" "CHR '':'' \<notin> set (Itoa i)"
  using natToString_chars [of "CHR '':''"] by (auto simp: Itoa_def isDigit_def byte_def)

lemma append_sep_right:
  assumes "ch \<notin> set x" "ch \<notin> set y"
  shows "a @ ch # x = b @ ch # y \<longleftrightarrow> a = b \<and> x = y"
  using append_sep_eq [of ch "rev x" "rev y" "rev a" "rev b"] assms
  by (metis append.assoc append_Cons append_Nil rev.simps(2) rev_append rev_is_rev_conv rev_rev_ident set_rev)

lemma memberName_inj: "memberName i t n = memberName j u m \<longleftrightarrow> i = j \<and> t = u \<and> n = m"
proof -
  have "memberName i t n = (i @ CHR '':'' # Itoa t) @ CHR '':'' # natToString n" for i t n
    by (simp add: memberName_def)
  then show ?thesis
    using append_sep_right [OF no_colon(1) no_colon(1)] append_sep_right [OF no_colon(2) no_colon(2)]
    by (simp only: natToString_inj Itoa_inj) blast
qed

lemma counters_apart_members: "counters_apart calls \<Longrightarrow> distinct (map rc_member calls)"
  by (induction calls) (auto simp: counters_apart_def rc_member_def memberName_inj list_all_iff image_iff)

section \<open>The window\<close>

lemma remembers_later:
  assumes "remembers z x window t past" "t \<le> u"
  shows "remembers (if expired x u then Map.empty else z) x window u past"
  using assms by (fastforce simp: remembers_def expired_def split: option.splits if_splits)

lemma remembers_trim:
  assumes "remembers z x window t past" "now \<le> t"
  shows "remembers (\<lambda>m. Option.bind (z m) (\<lambda>s. if 0 \<le> s \<and> s \<le> now - window then None else Some s)) x window t past"
  using assms by (fastforce simp: remembers_def bind_eq_Some_conv split: if_splits)

lemma remembers_young:
  assumes "remembers z x window t past" "finite (dom z)"
  shows "length (filter (\<lambda>a. t - window < a) (map snd past)) \<le> card (dom z)"
proof -
  let ?young = "filter (\<lambda>p. t - window < snd p) past"
  have "distinct (map fst ?young)"
    using assms(1) by (auto simp: remembers_def distinct_map_filter)
  then have "length ?young = card (fst ` set ?young)"
    by (metis distinct_card length_map set_map)
  also have "\<dots> \<le> card (dom z)"
    using assms by (intro card_mono) (auto simp: remembers_def)
  finally show ?thesis
    by (simp add: filter_map comp_def)
qed

lemma windowed_any_instant:
  assumes "windowed window limit as" "0 \<le> limit"
  shows "int (length (filter (\<lambda>a. t - window < a \<and> a \<le> t) as)) \<le> limit"
  using assms
proof (induction as)
  case (Cons a as)
  then have IH: "int (length (filter (\<lambda>a. t - window < a \<and> a \<le> t) as)) \<le> limit"
    by auto
  show ?case
  proof (cases "a \<le> t")
    case True
    have "length (filter (\<lambda>x. t - window < x \<and> x \<le> t) (a # as))
        \<le> length (filter (\<lambda>x. a - window < x) (a # as))"
      using True by (induction as) auto
    then show ?thesis
      using Cons.prems(1) by (simp only: windowed.simps) linarith
  qed (use IH in simp)
qed simp

lemma remembers_tail: "remembers z x window t (p # past) \<Longrightarrow> remembers z x window t past"
  unfolding remembers_def by auto

lemma remembers_expiry:
  "remembers z x window t past \<Longrightarrow> z = Map.empty \<or> y = x \<Longrightarrow> remembers z y window t past"
  unfolding remembers_def by auto

lemma remembers_add:
  assumes "remembers z x window t past" "m \<notin> fst ` set past" "now \<le> t"
  shows "remembers (z(m \<mapsto> now)) (Some (t + window)) window t ((m, now) # past)"
  using assms unfolding remembers_def by (force simp: image_iff)

lemma remembers_at:
  assumes "time_passes R v e c" "remembers (v d k) (e d k) window t past" "t \<le> u"
  shows "remembers (v (rd_at R u d) k) (e (rd_at R u d) k) window u past"
proof (cases "expired (e d k) u")
  case True
  with assms(1) have "v (rd_at R u d) k = Map.empty"
    by (simp add: time_passes_def)
  with remembers_expiry [OF remembers_later [OF assms(2,3)]] True show ?thesis
    by simp
next
  case False
  with assms(1) have "v (rd_at R u d) k = v d k" "e (rd_at R u d) k = e d k"
    by (simp_all add: time_passes_def)
  with remembers_later [OF assms(2,3)] False show ?thesis
    by simp
qed

lemma remembers_ZREM:
  assumes "zset_documented R v e c" "remembers (v d k) (e d k) window t past" "now \<le> t"
  shows "remembers (v (ZREMRANGEBYSCORE R k 0 (now - window) d) k) (e (ZREMRANGEBYSCORE R k 0 (now - window) d) k) window t past"
proof -
  let ?d = "ZREMRANGEBYSCORE R k 0 (now - window) d"
  have "v ?d k = (\<lambda>m. Option.bind (v d k m) (\<lambda>s. if 0 \<le> s \<and> s \<le> now - window then None else Some s))"
    and "v ?d k \<noteq> Map.empty \<longrightarrow> e ?d k = e d k"
    using assms(1) by (simp_all add: zset_documented_def)
  with remembers_expiry [OF remembers_trim [OF assms(2,3)]] show ?thesis
    by metis
qed

text \<open>One run of the script on the key: an admission is recorded and fits the window.\<close>

lemma slidingWindowScript_step:
  assumes doc: "zset_documented R v e c"
    and rem: "remembers (v d k) (e d k) window t past"
    and clk: "c d = t" "0 < window" "member \<notin> fst ` set past" "now \<le> t"
    and run: "slidingWindowScript R k window limit now member d = ((a, rest, reset), d')"
  shows "if a = 1 then remembers (v d' k) (e d' k) window t ((member, now) # past) \<and>
             int (Suc (length (filter (\<lambda>x. t - window < x) (map snd past)))) \<le> limit
         else remembers (v d' k) (e d' k) window t past"
proof -
  define d1 where "d1 = ZREMRANGEBYSCORE R k 0 (now - window) d"
  have rem1: "remembers (v d1 k) (e d1 k) window t past"
    unfolding d1_def by (rule remembers_ZREM [OF doc rem clk(4)])
  have fin: "finite (dom (v d1 k))" and card: "ZCARD R k d1 = card (dom (v d1 k))"
    using doc by (simp_all add: zset_documented_def)
  have c1: "c d1 = t"
    using doc clk(1) by (simp add: zset_documented_def d1_def)
  show ?thesis
  proof (cases "int (ZCARD R k d1) < limit")
    case True
    let ?z = "ZADD R k now member d1"
    have d': "d' = PEXPIRE R k window ?z" "a = 1"
      using run True by (auto simp: slidingWindowScript_def Let_def d1_def)
    have "v ?z k = (v d1 k)(member \<mapsto> now)" "c ?z = t"
      using doc c1 by (simp_all add: zset_documented_def)
    with doc clk(2) have "v d' k = (v d1 k)(member \<mapsto> now)" "e d' k = Some (t + window)"
      by (simp_all add: zset_documented_def d')
    moreover have "int (Suc (length (filter (\<lambda>x. t - window < x) (map snd past)))) \<le> limit"
      using remembers_young [OF rem1 fin] True by (simp add: card)
    ultimately show ?thesis
      using remembers_add [OF rem1 clk(3,4)] d'(2) by simp
  next
    case False
    then have "d' = d1" "a = 0"
      using run by (auto simp: slidingWindowScript_def Let_def d1_def)
    with rem1 show ?thesis
      by simp
  qed
qed

text \<open>The same for a call, whatever becomes of its answer.\<close>

lemma rc_allow_key:
  assumes doc: "zset_documented R v e c" and alg: "lc_algorithm x \<noteq> ''leaky_bucket''"
    and rem: "remembers (v d (lc_key x)) (e d (lc_key x)) (Milliseconds (lc_window x)) t past"
    and ok: "t \<le> rc_at x" "0 < Milliseconds (lc_window x)" "rc_member x \<notin> fst ` set past" "nowMs x \<le> rc_at x"
    and run: "rc_allow R x d = (a, n, d')"
  shows "if isGranted a
         then remembers (v d' (lc_key x)) (e d' (lc_key x)) (Milliseconds (lc_window x)) (rc_at x) ((rc_member x, nowMs x) # past) \<and>
           int (Suc (length (filter (\<lambda>y. rc_at x - Milliseconds (lc_window x) < y) (map snd past)))) \<le> lc_limit x
         else remembers (v d' (lc_key x)) (e d' (lc_key x)) (Milliseconds (lc_window x)) (rc_at x) past"
proof -
  let ?W = "Milliseconds (lc_window x)"
  define d0 where "d0 = rd_at R (rc_at x) d"
  have tp: "time_passes R v e c"
    using doc by (simp add: zset_documented_def)
  have rem0: "remembers (v d0 (lc_key x)) (e d0 (lc_key x)) ?W (rc_at x) past"
    unfolding d0_def by (rule remembers_at [OF tp rem ok(1)])
  have c0: "c d0 = rc_at x"
    using tp by (simp add: time_passes_def d0_def)
  obtain b rest reset d1 where scr:
    "slidingWindowScript R (lc_key x) ?W (lc_limit x) (nowMs x) (rc_member x) d0 = ((b, rest, reset), d1)"
    by (metis prod.exhaust)
  have out: "a = (if rd_reach R d0 = Answered then scriptAnswer (b, rest, reset) else None)"
    "d' = (if rd_reach R d0 = NotRun then d0 else d1)"
    using run alg scr
    by (auto simp: rc_allow_def redis_Allow_def allowSlidingWindow_def runScript_def Let_def d0_def rc_member_def
        split: reach.splits)
  show ?thesis
    using slidingWindowScript_step [OF doc rem0 c0 ok(2,3,4) scr] rem0
    by (cases "rd_reach R d0"; cases "b = 1")
      (auto simp: out isGranted_def scriptAnswer_def dest: remembers_tail)
qed

lemma rc_allow_frame:
  assumes "keys_apart R v e" "lc_key x \<noteq> k" "rc_allow R x d = (a, n, d')"
  shows "v d' k = v (rd_at R (rc_at x) d) k \<and> e d' k = e (rd_at R (rc_at x) d) k"
proof -
  let ?d0 = "rd_at R (rc_at x) d"
  have frame: "v (snd (slidingWindowScript R (lc_key x) w l u m ?d0)) k = v ?d0 k \<and>
      e (snd (slidingWindowScript R (lc_key x) w l u m ?d0)) k = e ?d0 k"
    "v (snd (leakyBucketScript R (lc_key x) l w u ?d0)) k = v ?d0 k \<and>
      e (snd (leakyBucketScript R (lc_key x) l w u ?d0)) k = e ?d0 k" for w l u m
    using assms(1,2)
    by (auto simp: slidingWindowScript_def leakyBucketScript_def keys_apart_def Let_def split: prod.splits)
  show ?thesis
    using assms(3) frame
    by (auto simp: rc_allow_def redis_Allow_def allowSlidingWindow_def allowLeakyBucket_def runScript_def Let_def
        case_prod_unfold split: reach.splits if_splits)
qed

lemma rc_allow_other:
  assumes doc: "zset_documented R v e c" and other: "lc_key x \<noteq> k"
    and rem: "remembers (v d k) (e d k) window t past" and later: "t \<le> rc_at x"
    and run: "rc_allow R x d = (a, n, d')"
  shows "remembers (v d' k) (e d' k) window (rc_at x) past"
proof -
  have "keys_apart R v e" and tp: "time_passes R v e c"
    using doc by (simp_all add: zset_documented_def)
  then show ?thesis
    using rc_allow_frame [OF _ other run, of v e] remembers_at [OF tp rem later] by simp
qed

lemma granted_windowed:
  assumes "zset_documented R v e c" "0 < Milliseconds window" "0 \<le> delay" "delay < Milliseconds window"
    and "remembers (v d key) (e d key) (Milliseconds window) t (map (\<lambda>x. (rc_member x, nowMs x)) past)"
    and "sorted (map rc_at calls)" "\<forall>x \<in> set calls. t \<le> rc_at x"
    and "distinct (map rc_member (past @ calls))"
    and "\<forall>x \<in> set calls. lc_key x = key \<longrightarrow> nowMs x \<le> rc_at x \<and>
      lc_limit x = limit \<and> lc_window x = window \<and> lc_algorithm x \<noteq> ''leaky_bucket''"
    and "\<forall>x \<in> set (granted R key calls d). rc_at x \<le> nowMs x + delay"
    and "windowed (Milliseconds window - delay) limit (map nowMs past)"
  shows "windowed (Milliseconds window - delay) limit (map nowMs (rev (granted R key calls d) @ past))"
  using assms
proof (induction calls arbitrary: d t past)
  case (Cons x calls)
  let ?V = "Milliseconds window - delay"
  obtain a n d' where run: "rc_allow R x d = (a, n, d')"
    by (metis prod.exhaust)
  have later: "t \<le> rc_at x" and after: "\<forall>y \<in> set calls. rc_at x \<le> rc_at y" "sorted (map rc_at calls)"
    using Cons.prems(6,7) by auto
  have skip: "distinct (map rc_member (past @ calls))"
    using Cons.prems(8) by auto
  have rest: "\<forall>x \<in> set calls. lc_key x = key \<longrightarrow> nowMs x \<le> rc_at x \<and>
      lc_limit x = limit \<and> lc_window x = window \<and> lc_algorithm x \<noteq> ''leaky_bucket''"
    "\<forall>x \<in> set (granted R key calls d'). rc_at x \<le> nowMs x + delay"
    using Cons.prems(9,10) run by auto
  note keep = Cons.IH [OF Cons.prems(1-4) _ after(2,1) _ rest]
  show ?case
  proof (cases "lc_key x = key")
    case False
    then show ?thesis
      using keep [OF rc_allow_other [OF Cons.prems(1) False Cons.prems(5) later run] skip Cons.prems(11)] run
      by simp
  next
    case True
    then have same: "lc_limit x = limit" "lc_window x = window" "lc_algorithm x \<noteq> ''leaky_bucket''" "nowMs x \<le> rc_at x"
      using Cons.prems(9) by auto
    have fresh: "rc_member x \<notin> fst ` set (map (\<lambda>x. (rc_member x, nowMs x)) past)"
      using Cons.prems(8) by (auto simp: image_iff)
    note step = rc_allow_key [of R v e c x d t, unfolded True same,
      OF Cons.prems(1) same(3) Cons.prems(5) later Cons.prems(2) fresh same(4) run]
    show ?thesis
    proof (cases "isGranted a")
      case False
      then show ?thesis
        using keep [OF _ skip Cons.prems(11)] step run by simp
    next
      case granted: True
      have more: "distinct (map rc_member ((x # past) @ calls))"
        using Cons.prems(8) by auto
      have "rc_at x \<le> nowMs x + delay"
        using Cons.prems(10) run True granted by simp
      then have "length (filter (\<lambda>y. nowMs x - ?V < y) (map nowMs past)) \<le>
          length (filter (\<lambda>y. rc_at x - Milliseconds window < y) (map nowMs past))"
        by (induction past) auto
      moreover have "int (Suc (length (filter (\<lambda>y. rc_at x - Milliseconds window < y) (map nowMs past)))) \<le> limit"
        using step granted by (simp add: comp_def)
      ultimately have "windowed ?V limit (map nowMs (x # past))"
        using Cons.prems(4,11) by simp
      then show ?thesis
        using keep [OF _ more] step granted run True by simp
    qed
  qed
qed simp

text \<open>A window below one millisecond is zero milliseconds to the script: the expiry that follows
  the admission deletes the key at once.\<close>

lemma rc_allow_zero_window:
  assumes doc: "zset_documented R v e c" and "v d (lc_key x) = Map.empty" "\<forall>d. rd_reach R d = Answered"
    and "lc_algorithm x \<noteq> ''leaky_bucket''" "0 < lc_limit x" "Milliseconds (lc_window x) = 0"
    and run: "rc_allow R x d = (a, n, d')"
  shows "isGranted a \<and> v d' (lc_key x) = Map.empty"
proof -
  let ?d1 = "ZREMRANGEBYSCORE R (lc_key x) 0 (nowMs x) (rd_at R (rc_at x) d)"
  have "v (rd_at R (rc_at x) d) (lc_key x) = Map.empty"
    using doc assms(2) by (simp add: zset_documented_def time_passes_def)
  then have "v ?d1 (lc_key x) = Map.empty"
    using doc by (simp add: zset_documented_def)
  then have "ZCARD R (lc_key x) ?d1 = 0"
    using doc by (simp add: zset_documented_def)
  then show ?thesis
    using run assms(3-6) doc
    by (auto simp: rc_allow_def redis_Allow_def allowSlidingWindow_def runScript_def slidingWindowScript_def
        scriptAnswer_def isGranted_def Let_def zset_documented_def)
qed

lemma granted_subset: "set (granted R key calls d) \<subseteq> set calls"
  by (induction calls arbitrary: d) (auto split: prod.splits)

section \<open>The leaky bucket\<close>

lemma leakedLevel_bounds:
  assumes "0 \<le> level" "level \<le> of_int capacity" "0 \<le> rate" "0 \<le> capacity" "capacity \<le> 2 ^ 53"
  shows "0 \<le> leakedLevel rate elapsed level \<and> leakedLevel rate elapsed level \<le> of_int capacity"
proof -
  have "fl (level - fl (elapsed * rate)) \<le> of_int capacity" if "0 < elapsed"
  proof -
    have "0 \<le> fl (elapsed * rate)"
      using that assms(3) by simp
    then have "level - fl (elapsed * rate) \<le> of_int capacity"
      using assms(2) by linarith
    then show ?thesis
      using fl_mono fl_int [OF assms(4,5)] by metis
  qed
  then show ?thesis
    using assms(1,2,4) by (auto simp: leakedLevel_def)
qed

lemma map_of_filter_keys: "map_of (filter (\<lambda>p. P (fst p)) xs) m = (if P m then map_of xs m else None)"
  by (induction xs) auto

lemma map_of_trim:
  "map_of (filter (\<lambda>p. case map_of xs (fst p) of Some s \<Rightarrow> \<not> (lo \<le> s \<and> s \<le> hi) | None \<Rightarrow> True) xs) m =
     Option.bind (map_of xs m) (\<lambda>s. if lo \<le> s \<and> s \<le> hi then None else Some (s :: int))"
  using map_of_filter_keys [of "\<lambda>m. case map_of xs m of Some s \<Rightarrow> \<not> (lo \<le> s \<and> s \<le> hi) | None \<Rightarrow> True" xs m]
  by (cases "map_of xs m") auto

lemma demo_redis_documented:
  "zset_documented demo_redis (\<lambda>d k. map_of (db_sets d k)) db_expiry db_clock"
  unfolding zset_documented_def time_passes_def keys_apart_def
  by (auto simp: demo_redis_def map_of_trim fun_eq_iff length_remdups_card_conv dom_map_of_conv_image_fst
      finite_dom_map_of)

section \<open>Properties\<close>

text \<open>C8: The sliding window of \<open>RedisLimiter\<close>, for a key that starts empty and is always called with one limit
  and one window. The scripts of any number of gateway processes run on one database, in any order and however late after the
  clock readings they were sent with, their answers arriving or not; the processes have instance ids or counters
  apart, so that no two members are the same. If the calls that were admitted ran at most \<open>delay\<close> milliseconds after
  their reading (and none before it), then no interval of the window (in whole milliseconds) less \<open>delay\<close>, wherever it
  ends, holds more than \<open>limit\<close> admissions of the key.\<close>

theorem redis_window_bound:
  assumes "zset_documented R v e c" "v d key = Map.empty"
    and "0 \<le> limit" "0 \<le> delay"
    and "sorted (map rc_at calls)" "counters_apart calls"
    and "\<forall>x \<in> set calls. lc_key x = key \<longrightarrow> UnixMilli (lc_now x) \<le> rc_at x \<and>
      lc_limit x = limit \<and> lc_window x = window \<and> lc_algorithm x \<noteq> ''leaky_bucket''"
    and "\<forall>x \<in> set (granted R key calls d). rc_at x \<le> UnixMilli (lc_now x) + delay"
  shows "int (length (filter (\<lambda>x. t - (Milliseconds window - delay) < UnixMilli (lc_now x) \<and> UnixMilli (lc_now x) \<le> t)
    (granted R key calls d))) \<le> limit"
proof (cases "delay < Milliseconds window")
  case True
  define t0 where "t0 = (case calls of [] \<Rightarrow> 0 | x # _ \<Rightarrow> rc_at x)"
  have "\<forall>x \<in> set calls. t0 \<le> rc_at x"
    using assms(5) by (cases calls) (auto simp: t0_def)
  then have "windowed (Milliseconds window - delay) limit (map nowMs (rev (granted R key calls d)))"
    using granted_windowed [of R v e c window delay d key t0 "[]" calls limit] assms True
      counters_apart_members by (simp add: remembers_def)
  then show ?thesis
    using windowed_any_instant [of _ limit "map nowMs (rev (granted R key calls d))" t] assms(3)
    by (simp add: rev_map filter_map comp_def rev_filter [symmetric])
next
  case False
  then have "filter (\<lambda>x. t - (Milliseconds window - delay) < UnixMilli (lc_now x) \<and> UnixMilli (lc_now x) \<le> t)
      (granted R key calls d) = []"
    by (auto simp: filter_empty_conv)
  with assms(3) show ?thesis
    by simp
qed

theorem redis_window_bound_witness:
  "int (length (filter (\<lambda>x. 1000 - (Milliseconds second_ns - 2) < UnixMilli (lc_now x) \<and> UnixMilli (lc_now x) \<le> 1000)
    (granted demo_redis ''k'' [demo_call 2000000 0, (demo_call 1000000 1)\<lparr>rc_at := 3\<rparr>, demo_call 3000000 2] demo_db0))) \<le> 2"
proof (rule redis_window_bound [OF demo_redis_documented])
  let ?calls = "[demo_call 2000000 0, (demo_call 1000000 1)\<lparr>rc_at := 3\<rparr>, demo_call 3000000 2]"
  have "\<forall>x \<in> set ?calls. rc_at x \<le> UnixMilli (lc_now x) + 2"
    by (simp add: demo_call_def go_time)
  then show "\<forall>x \<in> set (granted demo_redis ''k'' ?calls demo_db0). rc_at x \<le> UnixMilli (lc_now x) + 2"
    using granted_subset [of demo_redis "''k''" ?calls demo_db0] by (meson subsetD)
qed (simp_all add: demo_db0_def demo_call_def go_time counters_apart_def)

text \<open>The delay matters. With a limit of two in a second, a call that read its clock at 1500 ms and runs
  after one that read 2600 ms finds the admissions of 1510 ms and 1550 ms trimmed: three admissions fall
  within 50 milliseconds.\<close>

theorem late_script_exceeds_window:
  "map (\<lambda>x. UnixMilli (lc_now x)) (granted demo_redis ''k'' [demo_call 1510000000 0, demo_call 1550000000 1,
     demo_call 2600000000 2, (demo_call 1500000000 3)\<lparr>rc_at := 2601\<rparr>] demo_db0) = [1510, 1550, 2600, 1500]"
  by (simp add: demo_call_def demo_redis_def demo_db0_def rc_allow_def redis_Allow_def allowSlidingWindow_def
      runScript_def slidingWindowScript_def scriptAnswer_def isGranted_def expired_def memberName_def go_time quot_def
      Let_def)

text \<open>A run of the leaky bucket's script on a level between 0 and \<open>capacity\<close> writes
  such a level back, at least 1 when it admits, and answers with a rest below \<open>capacity\<close> and a reset
  that is not in the past.\<close>

theorem leaky_bucket_bounds:
  assumes capacity: "0 < capacity" "capacity \<le> 2 ^ 53" and window: "0 < window"
    and level: "0 \<le> luaField R (fst (HMGET R key d)) 0" "luaField R (fst (HMGET R key d)) 0 \<le> of_int capacity"
  shows "\<exists>a rest reset l. leakyBucketScript R key capacity window now d =
      ((a, rest, reset), PEXPIRE R key window (HSET R key (lua_tostring R l) (lua_tostring R (of_int now)) d)) \<and>
    0 \<le> l \<and> l \<le> of_int capacity \<and> (a = 1 \<longrightarrow> 1 \<le> l) \<and> 0 \<le> rest \<and> rest < capacity \<and> now \<le> reset"
proof -
  define rate where "rate = fl (of_int capacity / of_int window)"
  define l where "l = leakedLevel rate (fl (of_int now - luaField R (snd (HMGET R key d)) (of_int now)))
    (luaField R (fst (HMGET R key d)) 0)"
  have rate: "0 < rate"
    using capacity(1) window by (simp add: rate_def)
  have l: "0 \<le> l" "l \<le> of_int capacity"
    unfolding l_def using leakedLevel_bounds [OF level] rate capacity by simp_all
  have one: "1 \<le> fl (l + 1)"
    using fl_mono [of 1 "l + 1"] fl_int [of 1] l(1) by simp
  show ?thesis
  proof (cases "fl (l + 1) \<le> of_int capacity")
    case True
    let ?rest = "\<lfloor>fl (of_int capacity - fl (l + 1))\<rfloor>"
    have "fl (of_int capacity - fl (l + 1)) \<le> fl (of_int (capacity - 1))"
      using one by (intro fl_mono) simp
    also have "\<dots> = of_int (capacity - 1)"
      by (rule fl_int) (use capacity in linarith)+
    finally have "0 \<le> ?rest" "?rest < capacity"
      using True by (simp_all add: floor_less_iff)
    moreover have "0 \<le> fl (fl (l + 1) / rate)"
      using l(1) rate by (intro fl_nonneg divide_nonneg_pos) simp_all
    then have "0 \<le> \<lceil>fl (fl (l + 1) / rate)\<rceil>"
      by (simp add: le_ceiling_iff)
    ultimately show ?thesis
      using True one
      by (auto simp: leakyBucketScript_def Let_def case_prod_unfold rate_def [symmetric] l_def [symmetric])
  next
    case False
    then have "0 \<le> fl (fl (fl (l + 1) - of_int capacity) / rate)"
      using rate by (intro fl_nonneg divide_nonneg_pos) simp_all
    then have "0 \<le> \<lceil>fl (fl (fl (l + 1) - of_int capacity) / rate)\<rceil>"
      by (simp add: le_ceiling_iff)
    then show ?thesis
      using False l capacity(1)
      by (auto simp: leakyBucketScript_def Let_def case_prod_unfold rate_def [symmetric] l_def [symmetric])
  qed
qed

theorem leaky_bucket_bounds_witness:
  "\<exists>a rest reset l. leakyBucketScript demo_redis ''k'' 5 1000 1 demo_db0 =
      ((a, rest, reset), PEXPIRE demo_redis ''k'' 1000
        (HSET demo_redis ''k'' (lua_tostring demo_redis l) (lua_tostring demo_redis (of_int 1)) demo_db0)) \<and>
    0 \<le> l \<and> l \<le> of_int 5 \<and> (a = 1 \<longrightarrow> 1 \<le> l) \<and> 0 \<le> rest \<and> rest < 5 \<and> 1 \<le> reset"
  by (rule leaky_bucket_bounds) (simp_all add: demo_redis_def luaField_def)

text \<open>A configured window below one millisecond, which the validation accepts, never limits:
  the sliding window admits every call it answers.\<close>

theorem sub_millisecond_window_unlimited:
  assumes "zset_documented R v e c" "v d key = Map.empty" "\<forall>d. rd_reach R d = Answered"
    and "\<forall>x \<in> set calls. lc_key x = key \<longrightarrow> 0 < lc_limit x \<and> 0 < lc_window x \<and> lc_window x < 1000000 \<and>
      lc_algorithm x \<noteq> ''leaky_bucket''"
  shows "granted R key calls d = filter (\<lambda>x. lc_key x = key) calls"
  using assms
proof (induction calls arbitrary: d)
  case (Cons x calls)
  obtain a n d' where run: "rc_allow R x d = (a, n, d')"
    by (metis prod.exhaust)
  show ?case
  proof (cases "lc_key x = key")
    case True
    then have "Milliseconds (lc_window x) = 0"
      using Cons.prems(4) by (simp add: go_time quot_def)
    with rc_allow_zero_window [OF Cons.prems(1) _ Cons.prems(3) _ _ _ run] Cons True run show ?thesis
      by simp
  next
    case False
    have "v d' key = Map.empty"
      using rc_allow_frame [OF _ False run, of v e] Cons.prems(1,2)
      by (simp add: zset_documented_def time_passes_def)
    with Cons False run show ?thesis
      by simp
  qed
qed simp

theorem sub_millisecond_window_unlimited_witness:
  "granted demo_redis ''k'' (map (\<lambda>i. (demo_call 0 i)\<lparr>lc_window := 1000\<rparr>) [0, 1, 2]) demo_db0 =
    filter (\<lambda>x. lc_key x = ''k'') (map (\<lambda>i. (demo_call 0 i)\<lparr>lc_window := 1000\<rparr>) [0, 1, 2])"
  by (rule sub_millisecond_window_unlimited [OF demo_redis_documented])
    (simp_all add: demo_db0_def demo_call_def demo_redis_def)

end
