(* ===== verification/RateBound.thy ===== *)
theory RateBound
  imports MemoryLimiter RedisLimiter RateLimit
begin

text \<open>
  The rate limit middleware over its two backends. A backend is the limiter's method on the part of
  the world that holds its store, at the instant the clock shows: the buckets of the memory limiter
  are a component of the world (\<open>get\<close>, \<open>put\<close>), the Redis limiter keeps its counter there and its
  entries in a database that is part of the world. The bound of the memory limiter is carried to the
  requests that pass the middleware.
\<close>

section \<open>Backends\<close>

definition memoryBackend ::
  "('w \<Rightarrow> int) \<Rightarrow> ('w \<Rightarrow> MemoryLimiter) \<Rightarrow> (MemoryLimiter \<Rightarrow> 'w \<Rightarrow> 'w) \<Rightarrow>
   string \<Rightarrow> int \<Rightarrow> int \<Rightarrow> string \<Rightarrow> 'w \<Rightarrow> answer \<times> 'w" where
  "memoryBackend now get put key limit window algorithm s =
     (case memory_limiter (now s) key limit window algorithm (get s) of (a, m) \<Rightarrow> (a, put m s))"

definition redisBackend ::
  "'w redis_ops \<Rightarrow> string \<Rightarrow> ('w \<Rightarrow> int) \<Rightarrow> ('w \<Rightarrow> nat) \<Rightarrow> (nat \<Rightarrow> 'w \<Rightarrow> 'w) \<Rightarrow>
   string \<Rightarrow> int \<Rightarrow> int \<Rightarrow> string \<Rightarrow> 'w \<Rightarrow> answer \<times> 'w" where
  "redisBackend R instanceID now get put key limit window algorithm s =
     (case redis_Allow R instanceID (rd_arrival R (UnixMilli (now s)) s) (now s) key limit window algorithm (get s, s) of (a, n, s') \<Rightarrow> (a, put n s'))"

text \<open>The key under which the middleware asks the limiter about a request.\<close>

definition limitKey :: "rl_lib \<Rightarrow> RateLimitConfig \<Rightarrow> string \<Rightarrow> string \<Rightarrow> IPNet list \<Rightarrow> request \<Rightarrow> string" where
  "limitKey lib c route mwName nets r =
     compositeKey (AlgorithmName c) route mwName (extractKey lib r (KeySource c) nets)"

section \<open>Traffic\<close>

text \<open>A sequence of requests to a handler; before each, something else happens to the world.\<close>

fun serveAll :: "'w handler \<Rightarrow> (('w \<Rightarrow> 'w) \<times> request \<times> writer) list \<Rightarrow> 'w \<Rightarrow> 'w" where
  "serveAll h [] s = s"
| "serveAll h ((f, r, w) # ts) s = serveAll h ts (snd (snd (h r w (f s))))"

text \<open>What happens to the bucket of a key beside its own requests: nothing, or a sweep.\<close>

definition bystander :: "('w \<Rightarrow> int) \<Rightarrow> ('w \<Rightarrow> MemoryLimiter) \<Rightarrow> string \<Rightarrow> 'w \<Rightarrow> 'w \<Rightarrow> bool" where
  "bystander now get key s s' \<longleftrightarrow> now s \<le> now s' \<and>
     (get s' key = get s key \<or> (\<exists>t. now s \<le> t \<and> t \<le> now s' \<and> get s' key = evictStale t (get s) key))"

text \<open>\<open>seen\<close> lists the requests that have passed to the next handler, which alone extends it.\<close>

definition arrivals ::
  "('w \<Rightarrow> int) \<Rightarrow> ('w \<Rightarrow> MemoryLimiter) \<Rightarrow> (MemoryLimiter \<Rightarrow> 'w \<Rightarrow> 'w) \<Rightarrow> ('w \<Rightarrow> request list) \<Rightarrow>
   'w rl_env \<Rightarrow> string \<Rightarrow> 'w handler \<Rightarrow> bool" where
  "arrivals now get put seen env key nxt \<longleftrightarrow>
     (\<forall>m s. get (put m s) = m \<and> now (put m s) = now s \<and> seen (put m s) = seen s) \<and>
     (\<forall>route name s. bystander now get key s (incRejected env route name s) \<and>
        seen (incRejected env route name s) = seen s) \<and>
     (\<forall>r w s. bystander now get key s (snd (snd (nxt r w s))) \<and> seen (snd (snd (nxt r w s))) = seen s @ [r])"

text \<open>Seen from one key, traffic through the middleware is a run of the limiter.\<close>

definition mirrored ::
  "('w \<Rightarrow> int) \<Rightarrow> ('w \<Rightarrow> MemoryLimiter) \<Rightarrow> string \<Rightarrow> int \<Rightarrow> int \<Rightarrow> 'w \<Rightarrow> 'w \<Rightarrow> nat \<Rightarrow> nat \<Rightarrow> bool" where
  "mirrored now get key limit window s s' calls passed \<longleftrightarrow> now s \<le> now s' \<and>
     (\<exists>evs. in_order (now s) evs \<and> configured key limit window evs \<and> (\<forall>e \<in> set evs. ev_at e \<le> now s') \<and>
        calls_of key evs \<le> calls \<and> fst (ml_run key evs (get s)) = passed)"

section \<open>An example\<close>

text \<open>The world is a clock, the buckets and the requests that arrived; a second passes before the
  third request.\<close>

definition demo_limited :: "(int \<times> MemoryLimiter \<times> request list) rl_env" where
  "demo_limited = \<lparr>rl_allow = memoryBackend fst (\<lambda>s. fst (snd s)) (\<lambda>m s. (fst s, m, snd (snd s))),
     rl_now = fst, incErrors = (\<lambda>_ _ s. s), incRejected = (\<lambda>_ _ s. s)\<rparr>"

definition demo_rl_lib :: rl_lib where
  "demo_rl_lib = \<lparr>sha256 = (\<lambda>_. []), FormatFloat = (\<lambda>_. []), Marshal = (\<lambda>_. None)\<rparr>"

definition demo_limit :: RateLimitConfig where
  "demo_limit = \<lparr>Requests = 2, Window = second_ns, KeySource = ''ip'', AlgorithmName = ''sliding_window''\<rparr>"

definition demo_next :: "(int \<times> MemoryLimiter \<times> request list) handler" where
  "demo_next r w s = (w, Returned, (fst s, fst (snd s), snd (snd s) @ [r]))"

definition demo_traffic ::
  "((int \<times> MemoryLimiter \<times> request list \<Rightarrow> int \<times> MemoryLimiter \<times> request list) \<times> request \<times> writer) list" where
  "demo_traffic =
     (let r = proxied ''1.2.3.4:5'' []; w = ServerResponse fresh_conn
      in [(id, r, w), (id, r, w), (\<lambda>s. (fst s + second_ns, snd s), r, w)])"

section \<open>Lemmas\<close>

lemma in_order_earlier: "in_order t evs \<Longrightarrow> t' \<le> t \<Longrightarrow> in_order t' evs"
  by (cases evs) auto

text \<open>The requests a run lets through depend on the bucket of the key alone.\<close>

lemma ml_run_view: "m key = m' key \<Longrightarrow> fst (ml_run key evs m) = fst (ml_run key evs m')"
proof (induction evs arbitrary: m m')
  case (Cons e evs)
  show ?case
  proof (cases e)
    case (Call t k limit window)
    obtain ok rest reset n where a: "memory_Allow t k limit window m = ((ok, rest, reset), n)"
      by (metis prod.exhaust)
    obtain ok' rest' reset' n' where b: "memory_Allow t k limit window m' = ((ok', rest', reset'), n')"
      by (metis prod.exhaust)
    have "n key = n' key \<and> (k = key \<longrightarrow> ok = ok')"
      using Allow_local [of m k m' t limit window] Allow_other [OF _ a] Allow_other [OF _ b] Cons.prems a b
      by (cases "k = key") auto
    with Cons.IH [of n n'] show ?thesis
      unfolding Call fst_ml_run_Call [OF a] fst_ml_run_Call [OF b] by auto
  next
    case (Sweep t)
    have "evictStale t m key = evictStale t m' key"
      using Cons.prems by (simp add: evictStale_def)
    then show ?thesis
      unfolding Sweep ml_run.simps by (rule Cons.IH)
  qed
qed simp

text \<open>Anything a bystander does to the bucket is a run of at most one sweep.\<close>

lemma bystander_run:
  assumes "bystander now get key s s'" "in_order (now s') evs" "configured key limit window evs"
    "\<forall>e \<in> set evs. ev_at e \<le> tend" "now s' \<le> tend"
  shows "\<exists>evs'. in_order (now s) evs' \<and> configured key limit window evs' \<and> (\<forall>e \<in> set evs'. ev_at e \<le> tend) \<and>
    calls_of key evs' = calls_of key evs \<and> fst (ml_run key evs' (get s)) = fst (ml_run key evs (get s'))"
proof (cases "get s' key = get s key")
  case True
  then show ?thesis
    using assms in_order_earlier [of "now s'" evs "now s"] ml_run_view [of "get s" key "get s'" evs]
    unfolding bystander_def by (intro exI [of _ evs]) auto
next
  case False
  then obtain t where t: "now s \<le> t" "t \<le> now s'" "get s' key = evictStale t (get s) key"
    using assms(1) by (auto simp: bystander_def)
  have "fst (ml_run key (Sweep t # evs) (get s)) = fst (ml_run key evs (get s'))"
    using ml_run_view [of "evictStale t (get s)" key "get s'" evs] t(3) by simp
  then show ?thesis
    using assms t in_order_earlier [of "now s'" evs t]
    by (intro exI [of _ "Sweep t # evs"]) (simp add: configured_def)
qed

lemma compositeKey_same: "compositeKey a route name x = compositeKey a route name y \<longleftrightarrow> x = y"
  by (simp add: compositeKey_def)

text \<open>One request through the middleware over the memory backend.\<close>

lemma middleware_step:
  assumes arr: "arrivals now get put seen env key nxt" and be: "rl_allow env = memoryBackend now get put"
    and run: "NewRateLimitMiddleware lib env (Some c) route name nets nxt r w s = (w', out, s')"
    and allow: "memory_Allow (now s) (limitKey lib c route name nets r) (Requests c) (Window c) (get s) = ((ok, rest, reset), m)"
  shows "seen s' = seen s @ (if ok then [r] else []) \<and>
    (\<exists>s1. get s1 = m \<and> now s1 = now s \<and> bystander now get key s1 s')"
proof -
  have a: "rl_allow env (limitKey lib c route name nets r) (Requests c) (Window c) (AlgorithmName c) s =
      (Some (ok, rest, reset), put m s)"
    by (simp add: be memoryBackend_def memory_limiter_def allow)
  show ?thesis
  proof (cases ok)
    case True
    then obtain w1 where "nxt r w1 (put m s) = (w', out, s')"
      using run a by (auto simp: NewRateLimitMiddleware_def limitKey_def Let_def)
    then have "s' = snd (snd (nxt r w1 (put m s)))"
      by simp
    then show ?thesis
      using arr True unfolding arrivals_def by (intro conjI exI [of _ "put m s"]) simp_all
  next
    case False
    then have "s' = incRejected env route name (put m s)"
      using run a by (auto simp: NewRateLimitMiddleware_def limitKey_def Let_def)
    then show ?thesis
      using arr False unfolding arrivals_def by (intro conjI exI [of _ "put m s"]) simp_all
  qed
qed

lemma mirrored_bystander:
  assumes "bystander now get key s s1" "mirrored now get key limit window s1 s' calls passed"
  shows "mirrored now get key limit window s s' calls passed"
proof -
  obtain evs where evs: "in_order (now s1) evs" "configured key limit window evs" "\<forall>e \<in> set evs. ev_at e \<le> now s'"
    "now s1 \<le> now s'" "calls_of key evs \<le> calls" "fst (ml_run key evs (get s1)) = passed"
    using assms(2) by (auto simp: mirrored_def)
  from bystander_run [OF assms(1) evs(1-4)] obtain evs' where
    "in_order (now s) evs'" "configured key limit window evs'" "\<forall>e \<in> set evs'. ev_at e \<le> now s'"
    "calls_of key evs' = calls_of key evs" "fst (ml_run key evs' (get s)) = fst (ml_run key evs (get s1))"
    by blast
  then show ?thesis
    using evs(4-6) assms(1) unfolding mirrored_def bystander_def by (intro conjI exI [of _ evs']) auto
qed

lemma mirrored_call:
  assumes allow: "memory_Allow (now s) k limit window (get s) = ((ok, rest, reset), m)"
    and mir: "mirrored now get key limit window s1 s' calls passed" "get s1 = m" "now s1 = now s"
  shows "mirrored now get key limit window s s' (Suc calls) (passed + (if ok \<and> k = key then 1 else 0))"
proof -
  obtain evs where evs: "in_order (now s) evs" "configured key limit window evs" "\<forall>e \<in> set evs. ev_at e \<le> now s'"
    "now s \<le> now s'" "calls_of key evs \<le> calls" "fst (ml_run key evs m) = passed"
    using mir by (auto simp: mirrored_def)
  then show ?thesis
    using fst_ml_run_Call [OF allow, of key evs] unfolding mirrored_def
    by (intro conjI exI [of _ "Call (now s) k limit window # evs"]) (simp_all add: configured_def)
qed

lemma traffic_mirrored:
  assumes arr: "arrivals now get put seen env (compositeKey (AlgorithmName c) route name client) nxt"
    and be: "rl_allow env = memoryBackend now get put"
    and between: "\<forall>(f, r, w) \<in> set ts. \<forall>s. bystander now get (compositeKey (AlgorithmName c) route name client) s (f s) \<and>
      seen (f s) = seen s"
  shows "\<exists>arrived. seen (serveAll (NewRateLimitMiddleware lib env (Some c) route name nets nxt) ts s) = seen s @ arrived \<and>
    mirrored now get (compositeKey (AlgorithmName c) route name client) (Requests c) (Window c) s
      (serveAll (NewRateLimitMiddleware lib env (Some c) route name nets nxt) ts s) (length ts)
      (length (filter (\<lambda>r. extractKey lib r (KeySource c) nets = client) arrived))"
  using between
proof (induction ts arbitrary: s)
  case Nil
  show ?case
    unfolding mirrored_def by (auto simp: configured_def intro: exI [of _ "[]"])
next
  case (Cons x ts)
  let ?K = "compositeKey (AlgorithmName c) route name client"
  let ?h = "NewRateLimitMiddleware lib env (Some c) route name nets nxt"
  obtain f r w where x: "x = (f, r, w)"
    by (metis prod.exhaust)
  obtain w' out s2 where run: "?h r w (f s) = (w', out, s2)"
    by (metis prod.exhaust)
  obtain ok rest reset m where allow:
    "memory_Allow (now (f s)) (limitKey lib c route name nets r) (Requests c) (Window c) (get (f s)) = ((ok, rest, reset), m)"
    by (metis prod.exhaust)
  have f: "bystander now get ?K s (f s)" "seen (f s) = seen s"
    using Cons.prems x by auto
  from Cons.IH [of s2] Cons.prems obtain arrived where
    more: "seen (serveAll ?h ts s2) = seen s2 @ arrived"
    and mir: "mirrored now get ?K (Requests c) (Window c) s2 (serveAll ?h ts s2) (length ts)
      (length (filter (\<lambda>r. extractKey lib r (KeySource c) nets = client) arrived))"
    by auto
  from middleware_step [OF arr be run allow] obtain s1 where
    s1: "get s1 = m" "now s1 = now (f s)" "bystander now get ?K s1 s2" "seen s2 = seen s @ (if ok then [r] else [])"
    using f(2) by auto
  have same: "limitKey lib c route name nets r = ?K \<longleftrightarrow> extractKey lib r (KeySource c) nets = client"
    by (simp add: limitKey_def compositeKey_same)
  show ?case
    using mirrored_bystander [OF f(1) mirrored_call [OF allow mirrored_bystander [OF s1(3) mir] s1(1,2)]] more s1(4)
    by (intro exI [of _ "(if ok then [r] else []) @ arrived"]) (auto simp: x run same)
qed

lemma demo_clock:
  "fst (snd (snd (NewRateLimitMiddleware demo_rl_lib demo_limited (Some demo_limit) ''r1'' ''rl'' [] demo_next r w s))) = fst s"
  by (simp add: NewRateLimitMiddleware_def demo_limited_def demo_next_def memoryBackend_def memory_limiter_def Let_def
      split: prod.splits)

section \<open>Properties\<close>

text \<open>C9: The rate limit holds of the requests themselves: with the memory backend, over any sequence of
  requests of any clients, one handled after another, with sweeps and changes to other buckets in between,
  the requests of one client that pass the middleware to the next handler are at most the limit and its
  share of the time that passed, up to float64 rounding. The share is taken over the window or the eviction
  age of five minutes, whichever is shorter.\<close>

theorem requests_past_limiter_bounded:
  fixes c :: RateLimitConfig
  assumes "arrivals now get put seen env (compositeKey (AlgorithmName c) route name client) nxt"
    and "rl_allow env = memoryBackend now get put"
    and "\<forall>(f, r, w) \<in> set ts. \<forall>s. bystander now get (compositeKey (AlgorithmName c) route name client) s (f s) \<and>
      seen (f s) = seen s"
    and "1 \<le> Requests c" "Requests c \<le> 2 ^ 53" "0 < Window c" "Window c \<le> maxInt64"
    and "get s (compositeKey (AlgorithmName c) route name client) = None"
    and "s' = serveAll (NewRateLimitMiddleware lib env (Some c) route name nets nxt) ts s"
    and "now s' - now s \<le> maxInt64"
  shows "\<exists>arrived. seen s' = seen s @ arrived \<and>
    of_nat (length (filter (\<lambda>r. extractKey lib r (KeySource c) nets = client) arrived)) \<le>
      of_int (Requests c) + of_int (Requests c) * of_int (now s' - now s) / of_int (min (Window c) evictionTTL) * (1 + 1 / 2 ^ 50)
      + of_nat (length ts) * (of_int (Requests c) / 2 ^ 53 :: rat)"
proof -
  let ?K = "compositeKey (AlgorithmName c) route name client"
  define w where w_def: "w = min (Window c) evictionTTL"
  have w: "0 < w" "w \<le> Window c" "w \<le> evictionTTL"
    using assms(6) by (auto simp: w_def evictionTTL_def)
  obtain arrived evs where arr: "seen s' = seen s @ arrived"
    and evs: "in_order (now s) evs" "configured ?K (Requests c) (Window c) evs" "\<forall>e \<in> set evs. ev_at e \<le> now s'"
      "now s \<le> now s'" "calls_of ?K evs \<le> length ts"
    and passed: "fst (ml_run ?K evs (get s)) = length (filter (\<lambda>r. extractKey lib r (KeySource c) nets = client) arrived)"
    using traffic_mirrored [OF assms(1-3), of lib nets s] unfolding mirrored_def assms(9) by blast
  have "of_nat (fst (ml_run ?K evs (get s))) \<le> of_int (Requests c) +
      of_int (Requests c) * of_int (now s' - now s) / of_int (min (Window c) evictionTTL) * (1 + 1 / 2 ^ 50)
      + of_nat (calls_of ?K evs) * (of_int (Requests c) / 2 ^ 53 :: rat)"
    using run_pays [OF assms(4-7) w(1,2) assms(10) evs(1-3) disjI1 [OF w(3)] order_refl evs(4), of "get s"] assms(8)
    unfolding w_def by (simp add: pot_def since_def earned_def)
  moreover have "of_nat (calls_of ?K evs) * (of_int (Requests c) / 2 ^ 53 :: rat) \<le>
      of_nat (length ts) * (of_int (Requests c) / 2 ^ 53)"
    using evs(5) assms(4) by (intro mult_right_mono) simp_all
  ultimately show ?thesis
    using arr passed by (intro exI [of _ arrived]) simp
qed

theorem requests_past_limiter_bounded_witness:
  "\<exists>arrived. snd (snd (serveAll (NewRateLimitMiddleware demo_rl_lib demo_limited (Some demo_limit) ''r1'' ''rl'' [] demo_next)
      demo_traffic (0, Map.empty, []))) = [] @ arrived \<and>
    of_nat (length (filter (\<lambda>r. extractKey demo_rl_lib r ''ip'' [] = ''1.2.3.4'') arrived)) \<le>
      (2 + 2 * 1000000000 / 1000000000 * (1 + 1 / 2 ^ 50) + 3 * (2 / 2 ^ 53) :: rat)"
proof -
  define s' where "s' = serveAll (NewRateLimitMiddleware demo_rl_lib demo_limited (Some demo_limit) ''r1'' ''rl'' [] demo_next)
      demo_traffic (0, Map.empty, [])"
  have clock: "fst s' = 1000000000"
    unfolding s'_def by (simp add: demo_traffic_def demo_clock Let_def)
  have size: "length demo_traffic = 3"
    by (simp add: demo_traffic_def Let_def)
  have limit: "Requests demo_limit = 2" "Window demo_limit = 1000000000" "KeySource demo_limit = ''ip''"
    by (simp_all add: demo_limit_def)
  have 1: "arrivals fst (\<lambda>s. fst (snd s)) (\<lambda>m s. (fst s, m, snd (snd s))) (\<lambda>s. snd (snd s)) demo_limited
      (compositeKey (AlgorithmName demo_limit) ''r1'' ''rl'' ''1.2.3.4'') demo_next"
    by (simp add: arrivals_def bystander_def demo_limited_def demo_next_def)
  have 2: "rl_allow demo_limited = memoryBackend fst (\<lambda>s. fst (snd s)) (\<lambda>m s. (fst s, m, snd (snd s)))"
    by (simp add: demo_limited_def)
  have 3: "\<forall>(f, r, w) \<in> set demo_traffic. \<forall>s. bystander fst (\<lambda>s. fst (snd s))
      (compositeKey (AlgorithmName demo_limit) ''r1'' ''rl'' ''1.2.3.4'') s (f s) \<and> snd (snd (f s)) = snd (snd s)"
    by (simp add: demo_traffic_def bystander_def Let_def)
  show ?thesis
    using requests_past_limiter_bounded [OF 1 2 3 _ _ _ _ _ s'_def] unfolding s'_def [symmetric] clock size limit
    by (simp add: evictionTTL_def maxInt64_def clock)
qed

end
