(* ===== verification/Gateway.thy ===== *)
theory Gateway
  imports Pipeline Load ConfigDiff RateBound
begin

text \<open>
  The process, \<open>cmd/gateway/main.go\<close>: start-up (\<open>runServe\<close> up to the listening server), the request
  multiplexer, and \<open>handleReload\<close>. The state of the process is a record: the two atomic pointers
  (configuration, handler with its cleanup), the schema cache of the configuration package, the
  world, and the log of reloads. Every build gets a number, which names the transport and the
  breakers it allocates: \<open>ge_runtime n\<close> is the runtime of the build number \<open>n\<close>, and its cleanup
  closes the idle connections of transport \<open>n\<close>. The limiter of the start-up is one of the two
  backends of theory \<open>RateBound\<close>. Signals, flags, sockets and shutdown are left out.
\<close>

section \<open>Environment and state\<close>

record ('w, 'doc, 'comp, 'schema) gateway_env =
  ge_schema :: "('doc, 'comp, 'schema) schema_lib"
  ge_yaml :: yaml_lib
  ge_regexp :: regexp
  ge_auth :: "'w auth_lib"
  ge_v6String :: "IP \<Rightarrow> string"
  ge_runtime :: "nat \<Rightarrow> 'w runtime"
  ge_closeIdle :: "nat \<Rightarrow> 'w \<Rightarrow> 'w"
  ge_now :: "'w \<Rightarrow> int"
  ge_buckets :: "('w \<Rightarrow> MemoryLimiter) \<times> (MemoryLimiter \<Rightarrow> 'w \<Rightarrow> 'w)"
  ge_redis :: "redis_options \<times> int \<Rightarrow> 'w redis_ops"
  ge_instanceID :: string
  ge_counter :: "('w \<Rightarrow> nat) \<times> (nat \<Rightarrow> 'w \<Rightarrow> 'w)"
  ge_redisHealth :: "redis_options \<Rightarrow> 'w \<Rightarrow> string option \<times> 'w"
  ge_observe :: "metric \<Rightarrow> 'w \<Rightarrow> 'w"
  ge_emit :: "log_entry \<Rightarrow> 'w \<Rightarrow> 'w"

record 'w handlerRef =
  hr_h :: "'w handler"
  hr_cleanup :: "'w \<Rightarrow> 'w"

datatype reload_entry =
    ReloadInvalid load_error
  | NonReloadable warning
  | ReloadBuildFailed pipeline_error
  | Reloaded "change list"

record ('w, 'schema) process =
  cfgPtr :: GatewayConfig
  current :: "'w handlerRef"
  builds :: nat
  world :: 'w
  schemaCache :: "'schema option"
  reloadLog :: "reload_entry list"

section \<open>buildHandler and handleReload\<close>

definition buildHandler ::
  "('w, 'doc, 'comp, 'schema) gateway_env \<Rightarrow> 'w FactoryDeps \<Rightarrow> nat \<Rightarrow> GatewayConfig \<Rightarrow> 'w \<Rightarrow>
   (pipeline_error + 'w handler) \<times> 'w" where
  "buildHandler env deps n cfg s =
     BuildHandler (ge_yaml env) (ge_regexp env) (ge_runtime env n) cfg deps (DefaultRegistry (ge_runtime env n)) s"

definition handleReload ::
  "('w, 'doc, 'comp, 'schema) gateway_env \<Rightarrow> 'w FactoryDeps \<Rightarrow> string \<Rightarrow> load_lib \<Rightarrow>
   ('w, 'schema) process \<Rightarrow> ('w, 'schema) process" where
  "handleReload env deps configPath files p =
     (let oldCfg = cfgPtr p; n = builds p
      in case LoadConfig files (ge_schema env) (ge_yaml env) (ge_regexp env) configPath (schemaCache p) of
           (Inl e, cache) \<Rightarrow> p\<lparr>schemaCache := cache, reloadLog := reloadLog p @ [ReloadInvalid e]\<rparr>
         | (Inr newCfg, cache) \<Rightarrow>
             (let warned = reloadLog p @ map NonReloadable (NonReloadableChanges oldCfg newCfg)
              in case buildHandler env deps n newCfg (world p) of
                   (Inl e, s) \<Rightarrow>
                     p\<lparr>builds := Suc n, world := ge_closeIdle env n s, schemaCache := cache,
                       reloadLog := warned @ [ReloadBuildFailed e]\<rparr>
                 | (Inr newHandler, s) \<Rightarrow>
                     p\<lparr>cfgPtr := newCfg, current := \<lparr>hr_h = newHandler, hr_cleanup = ge_closeIdle env n\<rparr>,
                       builds := Suc n, world := hr_cleanup (current p) s, schemaCache := cache,
                       reloadLog := warned @ [Reloaded (DiffSummary (ge_yaml env) oldCfg newCfg)]\<rparr>))"

section \<open>Start-up\<close>

datatype startup_error =
    StartupLoad load_error
  | StartupProxies proxy_error
  | StartupNoRedis
  | StartupRedis string
  | StartupAuth string string
  | StartupBuild pipeline_error

fun buildAuthenticators ::
  "'w auth_lib \<Rightarrow> (string \<times> AuthProvider) list \<Rightarrow> (string \<rightharpoonup> 'w authenticator) \<Rightarrow>
   startup_error + (string \<rightharpoonup> 'w authenticator)" where
  "buildAuthenticators lib [] auths = Inr auths"
| "buildAuthenticators lib ((name, provider) # ps) auths = (case NewAuthenticator lib provider of
       Inl e \<Rightarrow> Inl (StartupAuth name e)
     | Inr a \<Rightarrow> buildAuthenticators lib ps (auths(name \<mapsto> a)))"

definition buildLimiter ::
  "('w, 'doc, 'comp, 'schema) gateway_env \<Rightarrow> RateLimitGlobalConfig \<Rightarrow> 'w \<Rightarrow>
   (startup_error + (string \<Rightarrow> int \<Rightarrow> int \<Rightarrow> string \<Rightarrow> 'w \<Rightarrow> answer \<times> 'w)) \<times> 'w" where
  "buildLimiter env g s =
     (if Backend g = ''redis'' then
        (case Redis g of
           None \<Rightarrow> (Inl StartupNoRedis, s)
         | Some rc \<Rightarrow>
             (case ge_redisHealth env (fst (NewRedisLimiter rc)) s of
                (Some e, s') \<Rightarrow> (Inl (StartupRedis e), s')
              | (None, s') \<Rightarrow>
                  (Inr (redisBackend (ge_redis env (NewRedisLimiter rc)) (ge_instanceID env) (ge_now env)
                     (fst (ge_counter env)) (snd (ge_counter env))), s')))
      else (Inr (memoryBackend (ge_now env) (fst (ge_buckets env)) (snd (ge_buckets env))),
            snd (ge_buckets env) Map.empty s))"

definition startup ::
  "('w, 'doc, 'comp, 'schema) gateway_env \<Rightarrow> string \<Rightarrow> load_lib \<Rightarrow> 'w \<Rightarrow>
   startup_error + 'w FactoryDeps \<times> ('w, 'schema) process" where
  "startup env configPath files s0 =
     (case LoadConfig files (ge_schema env) (ge_yaml env) (ge_regexp env) configPath None of
        (Inl e, _) \<Rightarrow> Inl (StartupLoad e)
      | (Inr cfg, cache) \<Rightarrow>
          (case ParseTrustedProxies (ge_v6String env) (TrustedProxies (Server cfg)) of
             Inl e \<Rightarrow> Inl (StartupProxies e)
           | Inr nets \<Rightarrow>
               (case buildLimiter env (RateLimit cfg) s0 of
                  (Inl e, _) \<Rightarrow> Inl e
                | (Inr allowFn, s1) \<Rightarrow>
                    (case buildAuthenticators (ge_auth env) (AuthProviders cfg) Map.empty of
                       Inl e \<Rightarrow> Inl e
                     | Inr auths \<Rightarrow>
                         (let deps = \<lparr>fd_limiter = allowFn, fd_authenticators = auths, fd_observe = ge_observe env,
                                fd_trustedProxies = nets, fd_emit = ge_emit env\<rparr>
                          in case buildHandler env deps 0 cfg s1 of
                               (Inl e, _) \<Rightarrow> Inl (StartupBuild e)
                             | (Inr h, s2) \<Rightarrow>
                                 Inr (deps, \<lparr>cfgPtr = cfg, current = \<lparr>hr_h = h, hr_cleanup = ge_closeIdle env 0\<rparr>,
                                   builds = 1, world = s2, schemaCache = cache, reloadLog = []\<rparr>))))))"

section \<open>Requests\<close>

text \<open>The multiplexer: GET (and, as in \<open>net/http\<close>, HEAD) for the two fixed paths, everything else to
  the current handler. Its redirect of paths that are not clean is left out.\<close>

definition mux_ServeHTTP :: "'w handler \<Rightarrow> 'w handler \<Rightarrow> ('w, 'schema) process \<Rightarrow> 'w handler" where
  "mux_ServeHTTP health metricsPage p r =
     (if Method r \<in> {''GET'', ''HEAD''} \<and> URLPath r = ''/health'' then health r
      else if Method r \<in> {''GET'', ''HEAD''} \<and> URLPath r = ''/metrics'' then metricsPage r
      else hr_h (current p) r)"

definition parseLogLevel :: "string \<Rightarrow> int" where
  "parseLogLevel level =
     (case map_of [(''debug'', -4), (''info'', 0), (''warn'', 4), (''error'', 8)] level of
        Some l \<Rightarrow> l
      | None \<Rightarrow> 0)"

text \<open>What can happen to a running gateway: a request through the multiplexer, or SIGHUP, with the
  files as they are then.\<close>

datatype gateway_event = Request request writer | SIGHUP load_lib

inductive gateway_step ::
  "('w, 'doc, 'comp, 'schema) gateway_env \<Rightarrow> 'w FactoryDeps \<Rightarrow> string \<Rightarrow> ('w, 'schema) process \<Rightarrow> gateway_event \<Rightarrow>
   ('w, 'schema) process \<Rightarrow> bool" for env deps path where
  serve: "mux_ServeHTTP (HealthHandler (\<lambda>_. cfgPtr p) timestamp checker) metricsPage p r w (world p) = (w', out, s') \<Longrightarrow>
    gateway_step env deps path p (Request r w) (p\<lparr>world := s'\<rparr>)"
| reload: "gateway_step env deps path p (SIGHUP files) (handleReload env deps path files p)"

inductive gateway_reachable ::
  "('w, 'doc, 'comp, 'schema) gateway_env \<Rightarrow> string \<Rightarrow> 'w FactoryDeps \<Rightarrow> ('w, 'schema) process \<Rightarrow> bool" for env path where
  start: "startup env path files s0 = Inr (deps, p) \<Longrightarrow> gateway_reachable env path deps p"
| step: "gateway_reachable env path deps p \<Longrightarrow> gateway_step env deps path p e p' \<Longrightarrow> gateway_reachable env path deps p'"

section \<open>What the process promises\<close>

text \<open>The configuration in force is valid, the handler in force is the gateway of that configuration
  (with the resources of the start-up), built under a number given out before.\<close>

definition serving :: "('w, 'doc, 'comp, 'schema) gateway_env \<Rightarrow> 'w FactoryDeps \<Rightarrow> ('w, 'schema) process \<Rightarrow> bool" where
  "serving env deps p \<longleftrightarrow>
     valid_config (ge_yaml env) (ge_regexp env) (cfgPtr p) \<and>
     (\<exists>n < builds p. hr_h (current p) = gateway_spec (ge_yaml env) (ge_regexp env) (ge_runtime env n) (cfgPtr p) deps \<and>
        hr_cleanup (current p) = ge_closeIdle env n)"

text \<open>For examples: the example file, libraries and runtime, on the trivial world.\<close>

definition unreachable_redis :: "'w redis_ops" where
  "unreachable_redis = \<lparr>rd_at = (\<lambda>_ s. s), rd_arrival = (\<lambda>t _. t), rd_reach = (\<lambda>_. NotRun), ZREMRANGEBYSCORE = (\<lambda>_ _ _ s. s),
     ZCARD = (\<lambda>_ _. 0), ZADD = (\<lambda>_ _ _ s. s), PEXPIRE = (\<lambda>_ _ s. s), ZRANGE_first = (\<lambda>_ _. None),
     HMGET = (\<lambda>_ _. (None, None)), HSET = (\<lambda>_ _ _ s. s), lua_tostring = (\<lambda>_. []), lua_tonumber = (\<lambda>_. None)\<rparr>"

definition demo_gateway_env :: "('w, unit, unit, unit) gateway_env" where
  "demo_gateway_env = \<lparr>ge_schema = demo_schema, ge_yaml = demo_yaml, ge_regexp = literal_regexp, ge_auth = demo_lib,
     ge_v6String = (\<lambda>_. []), ge_runtime = (\<lambda>_. demo_runtime), ge_closeIdle = (\<lambda>_ s. s),
     ge_now = (\<lambda>_. 0), ge_buckets = (\<lambda>_. Map.empty, \<lambda>_ s. s), ge_redis = (\<lambda>_. unreachable_redis),
     ge_instanceID = ''1:00'', ge_counter = (\<lambda>_. 0, \<lambda>_ s. s),
     ge_redisHealth = (\<lambda>_ s. (None, s)), ge_observe = (\<lambda>_ s. s), ge_emit = (\<lambda>_ s. s)\<rparr>"

text \<open>The example configuration with one more provider and a route that asks for a login.\<close>

definition extra_gateway :: GatewayConfig where
  "extra_gateway = demo_gateway\<lparr>
     AuthProviders := AuthProviders demo_gateway @ [(''extra'', snd (hd (AuthProviders demo_gateway)))],
     Middlewares := [], Routes := [(simpleRoute ''r1'' ''/a'' [])\<lparr>RouteMiddlewares := [demo_ref ''login'']\<rparr>]\<rparr>"

section \<open>Lemmas\<close>

lemma buildHandler_valid:
  assumes "valid_config (ge_yaml env) (ge_regexp env) cfg" and "re_compiles (ge_regexp env) []"
  shows "buildHandler env deps n cfg s =
    (Inr (gateway_spec (ge_yaml env) (ge_regexp env) (ge_runtime env n) cfg deps),
     freshBreakers (ge_runtime env n) deps (Routes cfg) s)"
  unfolding buildHandler_def by (rule BuildHandler_valid [OF assms])

lemma handleReload_invalid:
  assumes "LoadConfig files (ge_schema env) (ge_yaml env) (ge_regexp env) path (schemaCache p) = (Inl e, cache)"
  shows "handleReload env deps path files p = p\<lparr>schemaCache := cache, reloadLog := reloadLog p @ [ReloadInvalid e]\<rparr>"
  using assms by (simp add: handleReload_def)

lemma handleReload_valid:
  assumes "LoadConfig files (ge_schema env) (ge_yaml env) (ge_regexp env) path (schemaCache p) = (Inr new, cache)"
    and "re_compiles (ge_regexp env) []"
  shows "handleReload env deps path files p =
    p\<lparr>cfgPtr := new,
      current := \<lparr>hr_h = gateway_spec (ge_yaml env) (ge_regexp env) (ge_runtime env (builds p)) new deps,
                  hr_cleanup = ge_closeIdle env (builds p)\<rparr>,
      builds := Suc (builds p),
      world := hr_cleanup (current p) (freshBreakers (ge_runtime env (builds p)) deps (Routes new) (world p)),
      schemaCache := cache,
      reloadLog := reloadLog p @ map NonReloadable (NonReloadableChanges (cfgPtr p) new) @
        [Reloaded (DiffSummary (ge_yaml env) (cfgPtr p) new)]\<rparr>"
proof -
  have "valid_config (ge_yaml env) (ge_regexp env) new"
    using LoadConfig_ok_iff [of files "ge_schema env" "ge_yaml env" "ge_regexp env" path "schemaCache p" new] assms(1) by auto
  from buildHandler_valid [OF this assms(2)] show ?thesis by (simp add: handleReload_def assms(1) Let_def)
qed

lemma LoadConfig_valid: "fst (LoadConfig ll sl yl re path cache) = Inr cfg \<Longrightarrow> valid_config yl re cfg"
  by (auto simp: LoadConfig_ok_iff)

lemma handleReload_serving:
  assumes "serving env deps p" and "re_compiles (ge_regexp env) []"
  shows "serving env deps (handleReload env deps path files p)"
proof (cases "LoadConfig files (ge_schema env) (ge_yaml env) (ge_regexp env) path (schemaCache p)")
  case (Pair res cache)
  show ?thesis
  proof (cases res)
    case (Inl e)
    with assms(1) Pair show ?thesis by (simp add: handleReload_invalid serving_def)
  next
    case (Inr new)
    with Pair have l: "LoadConfig files (ge_schema env) (ge_yaml env) (ge_regexp env) path (schemaCache p) = (Inr new, cache)" by simp
    then have "valid_config (ge_yaml env) (ge_regexp env) new"
      using LoadConfig_valid [of files "ge_schema env" "ge_yaml env" "ge_regexp env" path "schemaCache p" new] by simp
    with handleReload_valid [OF l assms(2)] show ?thesis by (auto simp: serving_def)
  qed
qed

lemma startup_ok:
  assumes "startup env path files s0 = Inr (deps, p)"
  obtains cfg cache nets allowFn s1 auths h s2 where
    "LoadConfig files (ge_schema env) (ge_yaml env) (ge_regexp env) path None = (Inr cfg, cache)"
    "ParseTrustedProxies (ge_v6String env) (TrustedProxies (Server cfg)) = Inr nets"
    "buildLimiter env (RateLimit cfg) s0 = (Inr allowFn, s1)"
    "buildAuthenticators (ge_auth env) (AuthProviders cfg) Map.empty = Inr auths"
    "deps = \<lparr>fd_limiter = allowFn, fd_authenticators = auths, fd_observe = ge_observe env,
       fd_trustedProxies = nets, fd_emit = ge_emit env\<rparr>"
    "buildHandler env deps 0 cfg s1 = (Inr h, s2)"
    "p = \<lparr>cfgPtr = cfg, current = \<lparr>hr_h = h, hr_cleanup = ge_closeIdle env 0\<rparr>,
       builds = 1, world = s2, schemaCache = cache, reloadLog = []\<rparr>"
  using assms that unfolding startup_def Let_def
  by (auto split: prod.splits sum.splits)

lemma startup_serving:
  assumes "startup env path files s0 = Inr (deps, p)" and "re_compiles (ge_regexp env) []"
  shows "serving env deps p"
  using assms(1)
proof (rule startup_ok)
  fix cfg cache nets allowFn s1 auths h s2
  assume l: "LoadConfig files (ge_schema env) (ge_yaml env) (ge_regexp env) path None = (Inr cfg, cache)"
    and b: "buildHandler env deps 0 cfg s1 = (Inr h, s2)"
    and p: "p = \<lparr>cfgPtr = cfg, current = \<lparr>hr_h = h, hr_cleanup = ge_closeIdle env 0\<rparr>,
       builds = 1, world = s2, schemaCache = cache, reloadLog = []\<rparr>"
  have v: "valid_config (ge_yaml env) (ge_regexp env) cfg"
    using LoadConfig_valid [of files "ge_schema env" "ge_yaml env" "ge_regexp env" path None cfg] l by simp
  with b p buildHandler_valid [OF v assms(2), of deps 0 s1] show ?thesis by (auto simp: serving_def)
qed

lemma buildAuthenticators_dom:
  "buildAuthenticators lib ps auths = Inr auths' \<Longrightarrow> dom auths' = dom auths \<union> fst ` set ps"
  by (induction lib ps auths rule: buildAuthenticators.induct) (auto split: sum.splits)

lemma reachable_serving:
  assumes "gateway_reachable env path deps p" and "re_compiles (ge_regexp env) []"
  shows "serving env deps p"
  using assms(1)
proof induction
  case (start files s0 deps p)
  then show ?case by (rule startup_serving [OF _ assms(2)])
next
  case (step deps p e p')
  from step.hyps(2) show ?case
  proof (cases rule: gateway_step.cases)
    case (serve timestamp checker metricsPage r w w' out s')
    with step.IH show ?thesis by (simp add: serving_def)
  next
    case (reload files)
    with step.IH show ?thesis using handleReload_serving [OF _ assms(2)] by simp
  qed
qed

lemma find_Some_member: "find P xs = Some x \<Longrightarrow> x \<in> set xs"
  by (metis find_Some_iff nth_mem)

lemma find_by_name: "distinct (map f xs) \<Longrightarrow> x \<in> set xs \<Longrightarrow> find (\<lambda>y. f y = f x) xs = Some x"
  by (induction xs) auto

lemma route_spec_ctx:
  "route_spec re (r\<lparr>ctx_requestID := a\<rparr>) = route_spec re r" "route_spec re (r\<lparr>ctx_holder := b\<rparr>) = route_spec re r"
  by (simp_all add: route_spec_def fun_eq_iff)

text \<open>Only the providers of the start-up have an authenticator.\<close>

lemma startup_authenticators:
  assumes "startup env path files s0 = Inr (deps, p)" and "prov \<notin> fst ` set (AuthProviders (cfgPtr p))"
  shows "fd_authenticators deps prov = None"
  using assms(1)
proof (rule startup_ok)
  fix cfg auths allowFn nets h s2 cache
  assume a: "buildAuthenticators (ge_auth env) (AuthProviders cfg) Map.empty = Inr auths"
    and "deps = \<lparr>fd_limiter = allowFn, fd_authenticators = auths, fd_observe = ge_observe env,
       fd_trustedProxies = nets, fd_emit = ge_emit env\<rparr>"
    and "p = \<lparr>cfgPtr = cfg, current = \<lparr>hr_h = h, hr_cleanup = ge_closeIdle env 0\<rparr>,
       builds = 1, world = s2, schemaCache = cache, reloadLog = []\<rparr>"
  with buildAuthenticators_dom [OF a] assms(2) show ?thesis
    by (auto simp: domIff)
qed

text \<open>The file of the examples with another configuration in it loads, whatever is cached.\<close>

lemma demo_reload:
  assumes "semanticErrors yl literal_regexp (applyDefaults cfg) = []"
  shows "fst (LoadConfig (demo_load\<lparr>ll_unmarshal := (\<lambda>_. Inr cfg)\<rparr>) demo_schema yl literal_regexp ''gateway.yaml'' cache) =
    Inr (applyDefaults cfg)"
proof -
  have sub: "substituteEnv (ll_lookupEnv demo_load) ''routes ${R}'' = ''routes r1''" by code_simp
  have "fst (ValidateRawConfig demo_schema ''routes r1'' None) = []" "fst (ValidateRawConfig demo_schema ''routes r1'' (Some ())) = []"
    by code_simp+
  then have raw: "fst (ValidateRawConfig demo_schema ''routes r1'' cache) = []"
    by (cases cache) simp_all
  have source: "ll_readFile demo_load ''gateway.yaml'' = Inr ''routes ${R}''"
    by (simp add: demo_load_def)
  show ?thesis
    unfolding LoadConfig_ok_iff using assms sub raw source
    by (intro exI [of _ "''routes ${R}''"] exI [of _ cfg]) (simp add: semanticErrors_valid)
qed

text \<open>Start-up with the memory backend succeeds when the file loads, the proxies parse and the
  providers can be built.\<close>

lemma startup_succeeds:
  assumes "fst (LoadConfig files (ge_schema env) (ge_yaml env) (ge_regexp env) path None) = Inr cfg"
    and "ParseTrustedProxies (ge_v6String env) (TrustedProxies (Server cfg)) = Inr nets"
    and "Backend (RateLimit cfg) \<noteq> ''redis''"
    and "buildAuthenticators (ge_auth env) (AuthProviders cfg) Map.empty = Inr auths"
    and "re_compiles (ge_regexp env) []"
  shows "\<exists>deps p. startup env path files s0 = Inr (deps, p) \<and> cfgPtr p = cfg"
proof -
  obtain cache where l: "LoadConfig files (ge_schema env) (ge_yaml env) (ge_regexp env) path None = (Inr cfg, cache)"
    using assms(1) by (metis prod.collapse)
  from buildHandler_valid [OF LoadConfig_valid [OF assms(1)] assms(5)] show ?thesis
    using l assms(2-4) by (simp add: startup_def buildLimiter_def Let_def)
qed

lemma demo_startup: "\<exists>deps p. startup demo_gateway_env ''gateway.yaml'' demo_load s = Inr (deps, p) \<and> cfgPtr p = applyDefaults demo_gateway"
proof (rule startup_succeeds)
  show "fst (LoadConfig demo_load (ge_schema demo_gateway_env) (ge_yaml demo_gateway_env) (ge_regexp demo_gateway_env)
      ''gateway.yaml'' None) = Inr (applyDefaults demo_gateway)"
    using demo_load_ok by (simp add: demo_gateway_env_def)
  show "buildAuthenticators (ge_auth demo_gateway_env) (AuthProviders (applyDefaults demo_gateway)) Map.empty =
      Inr [''keys'' \<mapsto> APIKey_Authenticate (NewAPIKeyAuthenticator
        \<lparr>APIKeyHeader = [], Keys = [\<lparr>Key = ''k1'', KeyName = ''ann''\<rparr>]\<rparr>)]"
    by (simp add: demo_gateway_def applyDefaults_def NewAuthenticator_def)
qed (simp_all add: demo_gateway_env_def demo_gateway_def applyDefaults_def serverDefaults_def demo_server_def
    rateLimitDefaults_def literal_regexp_def)

section \<open>Properties\<close>

text \<open>C2: In every state a running gateway can reach, by any sequence of requests and reloads, the
  configuration in force is valid and the handler in force is the gateway of exactly that
  configuration: the two pointers never disagree, and no reload, failed or not, leaves the process
  with a handler it cannot serve with.\<close>

theorem gateway_always_serves_valid_config:
  assumes "gateway_reachable env path deps p" and "re_compiles (ge_regexp env) []"
  shows "semanticErrors (ge_yaml env) (ge_regexp env) (cfgPtr p) = [] \<and>
    (\<exists>n < builds p. hr_h (current p) = gateway_spec (ge_yaml env) (ge_regexp env) (ge_runtime env n) (cfgPtr p) deps)"
  using reachable_serving [OF assms] by (auto simp: serving_def semanticErrors_valid)

theorem gateway_always_serves_valid_config_witness:
  "\<exists>deps p. gateway_reachable (demo_gateway_env :: (unit, unit, unit, unit) gateway_env) ''gateway.yaml'' deps p \<and> cfgPtr p = applyDefaults demo_gateway \<and>
     semanticErrors demo_yaml literal_regexp (cfgPtr p) = []"
proof -
  from demo_startup [of "()"] obtain deps p where p: "startup demo_gateway_env ''gateway.yaml'' demo_load () = Inr (deps, p)"
    "cfgPtr p = applyDefaults demo_gateway" by blast
  then have r: "gateway_reachable demo_gateway_env ''gateway.yaml'' deps p" by (blast intro: gateway_reachable.start)
  have "re_compiles (ge_regexp demo_gateway_env) []" by (simp add: demo_gateway_env_def literal_regexp_def)
  from gateway_always_serves_valid_config [OF r this] have "semanticErrors demo_yaml literal_regexp (cfgPtr p) = []"
    by (simp add: demo_gateway_env_def)
  with p(2) r show ?thesis by blast
qed

text \<open>C15: A reload is all or nothing. If the file does not load, the configuration, the handler and the
  world stay as they are. If it loads, the build cannot fail: the configuration and the handler are
  replaced together, breakers start anew, the cleanup of the old handler runs once, and the last
  entry of the log is the summary of the changes.\<close>

theorem reload_all_or_nothing:
  assumes "re_compiles (ge_regexp env) []"
  shows "case fst (LoadConfig files (ge_schema env) (ge_yaml env) (ge_regexp env) path (schemaCache p)) of
      Inl e \<Rightarrow>
        cfgPtr (handleReload env deps path files p) = cfgPtr p \<and> current (handleReload env deps path files p) = current p \<and>
        world (handleReload env deps path files p) = world p \<and>
        reloadLog (handleReload env deps path files p) = reloadLog p @ [ReloadInvalid e]
    | Inr new \<Rightarrow>
        cfgPtr (handleReload env deps path files p) = new \<and>
        hr_h (current (handleReload env deps path files p)) =
          gateway_spec (ge_yaml env) (ge_regexp env) (ge_runtime env (builds p)) new deps \<and>
        world (handleReload env deps path files p) =
          hr_cleanup (current p) (freshBreakers (ge_runtime env (builds p)) deps (Routes new) (world p)) \<and>
        last (reloadLog (handleReload env deps path files p)) = Reloaded (DiffSummary (ge_yaml env) (cfgPtr p) new)"
proof (cases "LoadConfig files (ge_schema env) (ge_yaml env) (ge_regexp env) path (schemaCache p)")
  case (Pair res cache)
  show ?thesis
  proof (cases res)
    case (Inl e)
    with Pair handleReload_invalid [of files env path p e cache deps] show ?thesis by simp
  next
    case (Inr new)
    with Pair handleReload_valid [of files env path p new cache deps] assms show ?thesis by simp
  qed
qed

theorem reload_all_or_nothing_witness:
  "cfgPtr (handleReload demo_gateway_env demo_deps ''missing.yaml'' demo_load
       \<lparr>cfgPtr = demo_gateway, current = \<lparr>hr_h = (\<lambda>r w s. (w, Returned, s)), hr_cleanup = (\<lambda>s. s)\<rparr>, builds = 1,
        world = (), schemaCache = None, reloadLog = []\<rparr>) = demo_gateway \<and>
   cfgPtr (handleReload demo_gateway_env demo_deps ''gateway.yaml'' demo_load
       \<lparr>cfgPtr = demo_gateway, current = \<lparr>hr_h = (\<lambda>r w s. (w, Returned, s)), hr_cleanup = (\<lambda>s. s)\<rparr>, builds = 1,
        world = (), schemaCache = None, reloadLog = []\<rparr>) = applyDefaults demo_gateway"
proof -
  let ?p = "\<lparr>cfgPtr = demo_gateway, current = \<lparr>hr_h = (\<lambda>r w s. (w, Returned, s)), hr_cleanup = (\<lambda>s. s)\<rparr>, builds = 1,
      world = (), schemaCache = None, reloadLog = []\<rparr>"
  have re: "re_compiles (ge_regexp demo_gateway_env) []" by (simp add: demo_gateway_env_def literal_regexp_def)
  have e: "ge_schema demo_gateway_env = demo_schema" "ge_yaml demo_gateway_env = demo_yaml"
    "ge_regexp demo_gateway_env = literal_regexp" by (simp_all add: demo_gateway_env_def)
  have "fst (LoadConfig demo_load demo_schema demo_yaml literal_regexp ''missing.yaml'' None) = Inl (ReadFailed ''no such file'')"
    by (simp add: LoadConfig_def demo_load_def)
  with reload_all_or_nothing [OF re, where files = demo_load and path = "''missing.yaml''" and p = ?p and deps = demo_deps]
    reload_all_or_nothing [OF re, where files = demo_load and path = "''gateway.yaml''" and p = ?p and deps = demo_deps] demo_load_ok
  show ?thesis by (simp add: e)
qed

text \<open>C39: A provider that is new in a reloaded file is accepted and reported as reloaded, but never built: the
  authenticators are those of the start-up. On a route whose first middleware (transforms, which run last, apart) is an
  authentication that tries such a provider first, the handler that the reload puts in force answers every request
  500, whatever credentials it carries.\<close>

theorem reloaded_provider_answers_500:
  assumes "startup env path files0 s0 = Inr (deps, p0)" and "prov \<notin> fst ` set (AuthProviders (cfgPtr p0))"
    and "fst (LoadConfig files (ge_schema env) (ge_yaml env) (ge_regexp env) path (schemaCache p)) = Inr new"
    and "re_compiles (ge_regexp env) []"
    and "\<forall>i. find (route_spec (ge_regexp env) (r\<lparr>Header := Set ''X-Request-ID'' i (Header r)\<rparr>)) (Routes new) = Some route"
    and "filter (\<lambda>m. rm_Type m \<noteq> ''transform'') (chainOf (ge_yaml env) new route) = m # post"
    and "rm_Config m = AuthCfg c" and "Providers c = prov # ps" and "prov \<noteq> ''none''"
    and "conn_status k0 = None" and "conn_body k0 = []"
  shows "cfgPtr (handleReload env deps path files p) = new \<and>
    (\<exists>diff. last (reloadLog (handleReload env deps path files p)) = Reloaded diff) \<and>
    (\<exists>u s' k. hr_h (current (handleReload env deps path files p)) r (ServerResponse k0) s = (u, Returned, s') \<and>
       base_conn u = Some k \<and> conn_status k = Some 500 \<and>
       conn_body k = errorBody ''internal_error'' ''misconfigured auth provider'')"
proof -
  let ?rt = "ge_runtime env (builds p)"
  obtain cache where l: "LoadConfig files (ge_schema env) (ge_yaml env) (ge_regexp env) path (schemaCache p) = (Inr new, cache)"
    using assms(3) by (metis prod.collapse)
  have "valid_config (ge_yaml env) (ge_regexp env) new"
    using LoadConfig_valid [OF assms(3)] .
  then have "distinct (map RouteName (Routes new))"
    by (auto simp: valid_config_def)
  then have route: "find (\<lambda>x. RouteName x = RouteName route) (Routes new) = Some route"
    using find_by_name assms(5) find_Some_member by metis
  have "fd_authenticators deps prov = None"
    by (rule startup_authenticators [OF assms(1,2)])
  then have h: "routeHandler ?rt deps (chainOf (ge_yaml env) new route) route q w s1 =
      (writeErrorJSON 500 ''internal_error'' ''misconfigured auth provider'' w, Returned, s1)" for q w s1
    using assms(6-9) by (simp add: routeHandler_def middlewareOf_def NewAuthMiddleware_def auth_writeError_def)
  have "\<exists>u s' k. gateway_spec (ge_yaml env) (ge_regexp env) ?rt new deps r (ServerResponse k0) s = (u, Returned, s') \<and>
      base_conn u = Some k \<and> conn_status k = Some 500 \<and> conn_body k = errorBody ''internal_error'' ''misconfigured auth provider''"
    unfolding gateway_spec_chain
  proof (rule globalChain_error [OF _ assms(10,11)])
    fix i s1
    show "\<exists>s'. \<forall>w. serve_spec (ge_regexp env) (ho_set (go_holder ?rt)) (Routes new)
        (\<lambda>name. map_option (\<lambda>route. routeHandler ?rt deps (chainOf (ge_yaml env) new route) route)
          (find (\<lambda>route. RouteName route = name) (Routes new)))
        (r\<lparr>Header := Set ''X-Request-ID'' i (Header r), ctx_requestID := Some i, ctx_holder := True\<rparr>) w s1 =
        (writeErrorJSON 500 ''internal_error'' ''misconfigured auth provider'' w, Returned, s')"
      using assms(5) route by (simp add: serve_spec_def route_spec_ctx dispatch_def h)
  qed (simp_all add: informational_def bodyAllowedForStatus_def)
  then show ?thesis
    unfolding handleReload_valid [OF l assms(4)] by simp
qed

theorem reloaded_provider_answers_500_witness:
  "\<exists>deps p u s' k. startup
       (demo_gateway_env\<lparr>ge_yaml := demo_yaml\<lparr>decodeAuth := (\<lambda>_. Inr \<lparr>Providers = [''extra'']\<rparr>)\<rparr>\<rparr>) ''gateway.yaml''
       (demo_load\<lparr>ll_unmarshal := (\<lambda>_. Inr (demo_gateway\<lparr>Routes := []\<rparr>))\<rparr>) () = Inr (deps, p) \<and>
     hr_h (current (handleReload
         (demo_gateway_env\<lparr>ge_yaml := demo_yaml\<lparr>decodeAuth := (\<lambda>_. Inr \<lparr>Providers = [''extra'']\<rparr>)\<rparr>\<rparr>) deps ''gateway.yaml''
         (demo_load\<lparr>ll_unmarshal := (\<lambda>_. Inr extra_gateway)\<rparr>) p))
       (bareRequest ''GET'' ''/a'' Map.empty) (ServerResponse fresh_conn) () = (u, Returned, s') \<and>
     base_conn u = Some k \<and> conn_status k = Some 500"
proof -
  let ?yl = "demo_yaml\<lparr>decodeAuth := (\<lambda>_. Inr \<lparr>Providers = [''extra'']\<rparr>)\<rparr>"
  let ?env = "demo_gateway_env\<lparr>ge_yaml := ?yl\<rparr> :: (unit, unit, unit, unit) gateway_env"
  let ?files = "demo_load\<lparr>ll_unmarshal := (\<lambda>_. Inr (demo_gateway\<lparr>Routes := []\<rparr>))\<rparr>"
  let ?cfg = "applyDefaults (demo_gateway\<lparr>Routes := []\<rparr>)"
  let ?r = "bareRequest ''GET'' ''/a'' Map.empty"
  let ?route = "routeDefaults ((simpleRoute ''r1'' ''/a'' [])\<lparr>RouteMiddlewares := [demo_ref ''login'']\<rparr>)"
  have sem: "semanticErrors ?yl literal_regexp ?cfg = []" "semanticErrors ?yl literal_regexp (applyDefaults extra_gateway) = []"
    by code_simp+
  have load: "fst (LoadConfig ?files (ge_schema ?env) (ge_yaml ?env) (ge_regexp ?env) ''gateway.yaml'' None) = Inr ?cfg"
    using demo_reload [OF sem(1), of None] by (simp add: demo_gateway_env_def)
  have "\<exists>deps p. startup ?env ''gateway.yaml'' ?files () = Inr (deps, p) \<and> cfgPtr p = ?cfg"
    by (rule startup_succeeds [OF load, where auths = "[''keys'' \<mapsto> APIKey_Authenticate (NewAPIKeyAuthenticator
        \<lparr>APIKeyHeader = [], Keys = [\<lparr>Key = ''k1'', KeyName = ''ann''\<rparr>]\<rparr>)]" and nets = "[]"])
      (simp_all add: demo_gateway_env_def demo_gateway_def applyDefaults_def serverDefaults_def demo_server_def
        rateLimitDefaults_def literal_regexp_def NewAuthenticator_def)
  then obtain deps p where st: "startup ?env ''gateway.yaml'' ?files () = Inr (deps, p)" "cfgPtr p = ?cfg" by blast
  have new: "fst (LoadConfig (demo_load\<lparr>ll_unmarshal := (\<lambda>_. Inr extra_gateway)\<rparr>) (ge_schema ?env) (ge_yaml ?env) (ge_regexp ?env)
      ''gateway.yaml'' (schemaCache p)) = Inr (applyDefaults extra_gateway)"
    using demo_reload [OF sem(2), of "schemaCache p"] by (simp add: demo_gateway_env_def)
  have prov: "''extra'' \<notin> fst ` set (AuthProviders (cfgPtr p))"
    using st(2) by (simp add: applyDefaults_def demo_gateway_def)
  have re: "re_compiles (ge_regexp ?env) []"
    by (simp add: demo_gateway_env_def literal_regexp_def)
  have routes: "\<forall>i. find (route_spec (ge_regexp ?env) (?r\<lparr>Header := Set ''X-Request-ID'' i (Header ?r)\<rparr>)) (Routes (applyDefaults extra_gateway)) = Some ?route"
    by (simp add: applyDefaults_def extra_gateway_def demo_gateway_env_def route_spec_def MatchString_def host_spec_def simpleRoute_def literal_regexp_def routeDefaults_def)
  let ?m = "\<lparr>rm_Name = ''login'', rm_Type = ''auth'', rm_Config = AuthCfg \<lparr>Providers = [''extra'']\<rparr>\<rparr> :: ResolvedMiddleware"
  have ch: "filter (\<lambda>m. rm_Type m \<noteq> ''transform'') (chainOf (ge_yaml ?env) (applyDefaults extra_gateway) ?route) = ?m # []"
    by (simp add: chainOf_def effectiveChain_def extra_gateway_def applyDefaults_def demo_gateway_def demo_ref_def demo_definition_def resolveRef_def
        decodeTypedConfig_def decodeWith_def MappingNode_def zeroNode_def demo_yaml_def simpleRoute_def routeDefaults_def demo_gateway_env_def)
  have fresh: "conn_status fresh_conn = None" "conn_body fresh_conn = []"
    by (simp_all add: fresh_conn_def)
  from reloaded_provider_answers_500 [OF st(1) prov new re routes ch, where c = "\<lparr>Providers = [''extra'']\<rparr>" and ps = "[]"
      and ?k0.0 = fresh_conn and s = "()"] fresh
  obtain u s' k where "hr_h (current (handleReload ?env deps ''gateway.yaml'' (demo_load\<lparr>ll_unmarshal := (\<lambda>_. Inr extra_gateway)\<rparr>) p))
      ?r (ServerResponse fresh_conn) () = (u, Returned, s')" "base_conn u = Some k" "conn_status k = Some 500"
    by auto
  with st(1) show ?thesis by blast
qed

end
