(* ===== verification/Lifecycle.thy ===== *)
theory Lifecycle
  imports Gateway "HOL-Library.Stream"
begin

text \<open>
  The commands of \<open>cmd/gateway/main.go\<close>: \<open>main\<close> with its command line, \<open>runValidate\<close>, \<open>runSchema\<close>, and
  the life of \<open>runServe\<close> from the start-up of theory \<open>Gateway\<close> through the select loop to the shutdown.
  The flag package is modelled for the one string flag the commands define. The loop reads from two
  channels that hold one value each; what arrives there, and when the loop gets to run, is an infinite
  schedule. The loop may run for ever, so it is a partial function. What the shutdown calls of the
  server, the authenticators and the Redis client is a record of functions.
\<close>

section \<open>Command line\<close>

text \<open>\<open>FlagSet.Parse\<close> with \<open>ExitOnError\<close> and the flag \<open>config\<close>: the value, or the exit status.\<close>

fun parseFlags :: "string \<Rightarrow> string list \<Rightarrow> int + string" where
  "parseFlags configPath [] = Inr configPath"
| "parseFlags configPath (a # args) =
     (if length a < 2 \<or> hd a \<noteq> CHR ''-'' \<or> a = ''--'' then Inr configPath
      else
        (let name = (if a ! 1 = CHR ''-'' then drop 2 a else drop 1 a)
         in if name = [] \<or> hd name = CHR ''-'' \<or> hd name = CHR ''='' then Inl 2
            else (case Cut name (CHR ''='') of (flg, val, hasValue) \<Rightarrow>
              if flg \<noteq> ''config'' then Inl (if flg = ''help'' \<or> flg = ''h'' then 0 else 2)
              else if hasValue then parseFlags val args
              else (case args of [] \<Rightarrow> Inl 2 | v # rest \<Rightarrow> parseFlags v rest))))"

datatype command = RunValidate "string list" | RunSchema | RunServe "string list"

definition main_command :: "string list \<Rightarrow> command" where
  "main_command osArgs = (case osArgs of
       _ # a # rest \<Rightarrow>
         if a = ''validate'' then RunValidate rest else if a = ''schema'' then RunSchema else RunServe (a # rest)
     | _ \<Rightarrow> RunServe [])"

abbreviation defaultPath :: string where
  "defaultPath \<equiv> ''config/gateway.yaml''"

text \<open>What a command leaves: lines on standard output, errors, exit status.\<close>

datatype complaint = BadFlags | InvalidConfig load_error | NoSchema string

record ran =
  ran_stdout :: "string list"
  ran_error :: "complaint option"
  ran_status :: int

definition runValidate ::
  "('w, 'doc, 'comp, 'schema) gateway_env \<Rightarrow> load_lib \<Rightarrow> string list \<Rightarrow> ran" where
  "runValidate env files args = (case parseFlags defaultPath args of
       Inl status \<Rightarrow> \<lparr>ran_stdout = [], ran_error = Some BadFlags, ran_status = status\<rparr>
     | Inr configPath \<Rightarrow>
         (case LoadConfig files (ge_schema env) (ge_yaml env) (ge_regexp env) configPath None of
            (Inl e, _) \<Rightarrow> \<lparr>ran_stdout = [], ran_error = Some (InvalidConfig e), ran_status = 1\<rparr>
          | (Inr cfg, _) \<Rightarrow> \<lparr>ran_stdout = [''OK: configuration is valid''], ran_error = None, ran_status = 0\<rparr>))"

definition runSchema :: "('w, 'doc, 'comp, 'schema) gateway_env \<Rightarrow> ran" where
  "runSchema env = (case sl_schemaJSON (ge_schema env) of
       Inl e \<Rightarrow> \<lparr>ran_stdout = [], ran_error = Some (NoSchema e), ran_status = 1\<rparr>
     | Inr json \<Rightarrow> \<lparr>ran_stdout = [json], ran_error = None, ran_status = 0\<rparr>)"

section \<open>The server and its channels\<close>

record http_server =
  srv_Addr :: string
  srv_ReadTimeout :: int
  srv_WriteTimeout :: int
  srv_IdleTimeout :: int
  srv_MaxHeaderBytes :: int

definition newServer :: "ServerConfig \<Rightarrow> http_server" where
  "newServer c = \<lparr>srv_Addr = ServerHost c @ '':'' @ Itoa (ServerPort c), srv_ReadTimeout = ReadTimeout c,
     srv_WriteTimeout = WriteTimeout c, srv_IdleTimeout = IdleTimeout c, srv_MaxHeaderBytes = MaxHeaderBytes c\<rparr>"

datatype os_signal = SigINT | SigTERM | SigHUP

record ('w, 'schema) loop_state =
  ls_process :: "('w, 'schema) process"
  sigCh :: "os_signal option"
  srvErrCh :: "string option"

text \<open>\<open>signal.Notify\<close> does not block: a signal that finds the channel full is dropped. The server's
  goroutine sends at most once, so its send does not block either.\<close>

definition notify :: "os_signal \<Rightarrow> ('w, 'schema) loop_state \<Rightarrow> ('w, 'schema) loop_state" where
  "notify sig st = (case sigCh st of None \<Rightarrow> st\<lparr>sigCh := Some sig\<rparr> | Some _ \<Rightarrow> st)"

definition serverFailed :: "string \<Rightarrow> ('w, 'schema) loop_state \<Rightarrow> ('w, 'schema) loop_state" where
  "serverFailed e st = (case srvErrCh st of None \<Rightarrow> st\<lparr>srvErrCh := Some e\<rparr> | Some _ \<Rightarrow> st)"

text \<open>What can happen next: a signal arrives, the server fails, another goroutine changes the world
  (by serving requests), or the main goroutine comes to its \<open>select\<close>, which picks one of the ready
  channels (\<open>preferErr\<close> where both are) and finds the files as they are then.\<close>

datatype 'w tick =
    Arrives os_signal
  | Fails string
  | World "'w \<Rightarrow> 'w"
  | Select bool load_lib

text \<open>One turn of the loop: it goes on, or is left with the server's error, if that was the reason.\<close>

definition selectTurn ::
  "('w, 'doc, 'comp, 'schema) gateway_env \<Rightarrow> 'w FactoryDeps \<Rightarrow> string \<Rightarrow> bool \<Rightarrow> load_lib \<Rightarrow>
   ('w, 'schema) loop_state \<Rightarrow> ('w, 'schema) loop_state + ('w, 'schema) process \<times> string option" where
  "selectTurn env deps path preferErr files st =
     (case (sigCh st, srvErrCh st) of
        (None, None) \<Rightarrow> Inl st
      | (None, Some e) \<Rightarrow> Inr (ls_process st, Some e)
      | (Some sig, err) \<Rightarrow>
          if preferErr \<and> err \<noteq> None then Inr (ls_process st, err)
          else if sig = SigHUP then
            Inl (st\<lparr>sigCh := None, ls_process := handleReload env deps path files (ls_process st)\<rparr>)
          else Inr (ls_process st, None))"

definition loopTick ::
  "('w, 'doc, 'comp, 'schema) gateway_env \<Rightarrow> 'w FactoryDeps \<Rightarrow> string \<Rightarrow> 'w tick \<Rightarrow>
   ('w, 'schema) loop_state \<Rightarrow> ('w, 'schema) loop_state + ('w, 'schema) process \<times> string option" where
  "loopTick env deps path t st = (case t of
       Arrives sig \<Rightarrow> Inl (notify sig st)
     | Fails e \<Rightarrow> Inl (serverFailed e st)
     | World f \<Rightarrow> Inl (st\<lparr>ls_process := (ls_process st)\<lparr>world := f (world (ls_process st))\<rparr>\<rparr>)
     | Select preferErr files \<Rightarrow> selectTurn env deps path preferErr files st)"

partial_function (option) serveLoop ::
  "('w, 'doc, 'comp, 'schema) gateway_env \<Rightarrow> 'w FactoryDeps \<Rightarrow> string \<Rightarrow> 'w tick stream \<Rightarrow>
   ('w, 'schema) loop_state \<Rightarrow> (('w, 'schema) process \<times> string option) option" where
  "serveLoop env deps path ts st =
     (case loopTick env deps path (shd ts) st of
        Inr res \<Rightarrow> Some res
      | Inl st' \<Rightarrow> serveLoop env deps path (stl ts) st')"

section \<open>Shutdown\<close>

record 'w shutdown_env =
  sd_cancel :: "'w \<Rightarrow> 'w"
  sd_shutdown :: "int \<Rightarrow> 'w \<Rightarrow> string option \<times> 'w"
  sd_cancelProvider :: "string \<Rightarrow> 'w \<Rightarrow> 'w"
  sd_closeRedis :: "'w \<Rightarrow> string option \<times> 'w"

text \<open>\<open>OIDCAuthenticator.Stop\<close>: the provider that only introspects has no context to cancel.\<close>

definition oidc_Stop :: "'w shutdown_env \<Rightarrow> string \<Rightarrow> OIDCConfig \<Rightarrow> 'w \<Rightarrow> 'w" where
  "oidc_Stop sd name c s =
     (if IntrospectionURL c \<noteq> [] \<and> JWKSURL c = [] \<and> IssuerURL c = [] then s else sd_cancelProvider sd name s)"

text \<open>The loop over the authenticators of the start-up: only the OIDC ones have a method \<open>Stop\<close>.\<close>

fun stopProviders :: "'w shutdown_env \<Rightarrow> (string \<times> AuthProvider) list \<Rightarrow> 'w \<Rightarrow> 'w" where
  "stopProviders sd [] s = s"
| "stopProviders sd ((name, p) # ps) s =
     stopProviders sd ps
       (if ap_Type p = ''oidc'' then (case ap_OIDC p of None \<Rightarrow> s | Some c \<Rightarrow> oidc_Stop sd name c s) else s)"

text \<open>\<open>cfg0\<close> is the configuration of the start-up, which decides the limiter and the authenticators.\<close>

definition shutdown ::
  "'w shutdown_env \<Rightarrow> GatewayConfig \<Rightarrow> ('w, 'schema) process \<Rightarrow> string option \<Rightarrow> int \<times> 'w" where
  "shutdown sd cfg0 p srvErr =
     (case sd_shutdown sd (ShutdownTimeout (Server (cfgPtr p))) (sd_cancel sd (world p)) of
        (Some e, s) \<Rightarrow> (1, s)
      | (None, s) \<Rightarrow>
          (let s1 = hr_cleanup (current p) s;
               s2 = stopProviders sd (AuthProviders cfg0) s1;
               s3 = (if Backend (RateLimit cfg0) = ''redis'' then snd (sd_closeRedis sd s2) else s2)
           in (if srvErr \<noteq> None then 1 else 0, s3)))"

definition runServe ::
  "('w, 'doc, 'comp, 'schema) gateway_env \<Rightarrow> 'w shutdown_env \<Rightarrow> load_lib \<Rightarrow> string list \<Rightarrow> 'w tick stream \<Rightarrow> 'w \<Rightarrow>
   (int \<times> 'w) option" where
  "runServe env sd files args ts s0 = (case parseFlags defaultPath args of
       Inl status \<Rightarrow> Some (status, s0)
     | Inr path \<Rightarrow>
         (case startup env path files s0 of
            Inl e \<Rightarrow> Some (1, s0)
          | Inr (deps, p) \<Rightarrow>
              map_option (\<lambda>(p', err). shutdown sd (cfgPtr p) p' err)
                (serveLoop env deps path ts \<lparr>ls_process = p, sigCh = None, srvErrCh = None\<rparr>)))"

section \<open>Schedules\<close>

text \<open>Finitely many ticks, and schedules in which the loop always comes to run again (its random
  choice between two ready channels not always going against the server's error).\<close>

fun ticks ::
  "('w, 'doc, 'comp, 'schema) gateway_env \<Rightarrow> 'w FactoryDeps \<Rightarrow> string \<Rightarrow> 'w tick list \<Rightarrow>
   ('w, 'schema) loop_state \<Rightarrow> ('w, 'schema) loop_state + ('w, 'schema) process \<times> string option" where
  "ticks env deps path [] st = Inl st"
| "ticks env deps path (t # ts) st =
     (case loopTick env deps path t st of Inr res \<Rightarrow> Inr res | Inl st' \<Rightarrow> ticks env deps path ts st')"

definition fair :: "'w tick stream \<Rightarrow> bool" where
  "fair ts \<longleftrightarrow> (\<forall>n. \<exists>k files. ts !! (n + k) = Select True files)"

definition stopWaiting :: "('w, 'schema) loop_state \<Rightarrow> bool" where
  "stopWaiting st \<longleftrightarrow> (\<exists>sig. sigCh st = Some sig \<and> sig \<noteq> SigHUP) \<or> srvErrCh st \<noteq> None"

section \<open>Released resources\<close>

datatype release =
    BackgroundCancelled
  | ServerShutDown int
  | IdleClosed
  | ProviderStopped string
  | RedisClosed

text \<open>\<open>ledger\<close> lists what has been released; each function of the shutdown adds its entry.\<close>

definition logged :: "'w shutdown_env \<Rightarrow> ('w \<Rightarrow> release list) \<Rightarrow> bool" where
  "logged sd ledger \<longleftrightarrow>
     (\<forall>s. ledger (sd_cancel sd s) = ledger s @ [BackgroundCancelled]) \<and>
     (\<forall>t s. ledger (snd (sd_shutdown sd t s)) = ledger s @ [ServerShutDown t]) \<and>
     (\<forall>name s. ledger (sd_cancelProvider sd name s) = ledger s @ [ProviderStopped name]) \<and>
     (\<forall>s. ledger (snd (sd_closeRedis sd s)) = ledger s @ [RedisClosed])"

text \<open>The providers whose authenticator has a context running in the background.\<close>

definition holdsContext :: "'w auth_lib \<Rightarrow> AuthProvider \<Rightarrow> bool" where
  "holdsContext lib p \<longleftrightarrow> ap_Type p = ''oidc'' \<and>
     (case ap_OIDC p of
        None \<Rightarrow> False
      | Some c \<Rightarrow> (case NewOIDCAuthenticator lib c of Inl e \<Rightarrow> False | Inr a \<Rightarrow> oa_verifier a \<noteq> None))"

section \<open>An example\<close>

abbreviation demo_unit_env :: "(unit, unit, unit, unit) gateway_env" where
  "demo_unit_env \<equiv> demo_gateway_env"

definition demo_process :: "(unit, unit) process" where
  "demo_process = \<lparr>cfgPtr = applyDefaults demo_gateway, current = \<lparr>hr_h = (\<lambda>r w s. (w, Returned, s)), hr_cleanup = id\<rparr>,
     builds = 1, world = (), schemaCache = None, reloadLog = []\<rparr>"

definition demo_state :: "(unit, unit) loop_state" where
  "demo_state = \<lparr>ls_process = demo_process, sigCh = None, srvErrCh = None\<rparr>"

definition demo_shutdown :: "release list shutdown_env" where
  "demo_shutdown = \<lparr>sd_cancel = (\<lambda>s. s @ [BackgroundCancelled]), sd_shutdown = (\<lambda>t s. (None, s @ [ServerShutDown t])),
     sd_cancelProvider = (\<lambda>n s. s @ [ProviderStopped n]), sd_closeRedis = (\<lambda>s. (None, s @ [RedisClosed]))\<rparr>"

definition demo_ledger :: "(release list, unit) process" where
  "demo_ledger = \<lparr>cfgPtr = demo_gateway\<lparr>Server := demo_server\<lparr>ShutdownTimeout := 5\<rparr>\<rparr>,
     current = \<lparr>hr_h = (\<lambda>r w s. (w, Returned, s)), hr_cleanup = (\<lambda>s. s @ [IdleClosed])\<rparr>,
     builds = 1, world = [], schemaCache = None, reloadLog = []\<rparr>"

section \<open>Lemmas\<close>

lemma ticks_append:
  "ticks env deps path (ts @ us) st =
     (case ticks env deps path ts st of Inr res \<Rightarrow> Inr res | Inl st' \<Rightarrow> ticks env deps path us st')"
  by (induction ts arbitrary: st) (auto split: sum.splits)

lemma serveLoop_ticks: "ticks env deps path (stake n ts) st = Inr res \<Longrightarrow> serveLoop env deps path ts st = Some res"
proof (induction n arbitrary: ts st)
  case (Suc n)
  then show ?case
    by (subst serveLoop.simps) (auto split: sum.splits)
qed simp

lemma ticks_serveLoop: "serveLoop env deps path ts st = Some res \<Longrightarrow> \<exists>n. ticks env deps path (stake n ts) st = Inr res"
proof (induction rule: serveLoop.raw_induct [rotated 1, consumes 1])
  case (1 serveLoop env deps path ts st res)
  show ?case
  proof (cases "loopTick env deps path (shd ts) st")
    case (Inr r)
    with 1(2) show ?thesis
      by (intro exI [of _ 1]) simp
  next
    case (Inl st')
    with 1 obtain n where "ticks env deps path (stake n (stl ts)) st' = Inr res"
      by (cases res) fastforce
    with Inl show ?thesis
      by (intro exI [of _ "Suc n"]) simp
  qed
qed

lemma serveLoop_iff: "serveLoop env deps path ts st = Some res \<longleftrightarrow> (\<exists>n. ticks env deps path (stake n ts) st = Inr res)"
  using serveLoop_ticks ticks_serveLoop by blast

lemma stopWaiting_iff: "stopWaiting st \<longleftrightarrow> sigCh st \<in> {Some SigINT, Some SigTERM} \<or> srvErrCh st \<noteq> None"
  by (cases "sigCh st"; cases "the (sigCh st)") (auto simp: stopWaiting_def)

text \<open>A waiting stop stays until the loop is left, and leaves it at the next fair turn.\<close>

lemma stopWaiting_keeps: "stopWaiting st \<Longrightarrow> loopTick env deps path t st = Inl st' \<Longrightarrow> stopWaiting st'"
  by (auto simp: stopWaiting_def loopTick_def selectTurn_def notify_def serverFailed_def
      split: tick.splits option.splits if_splits)

lemma stopWaiting_ticks: "stopWaiting st \<Longrightarrow> ticks env deps path ts st = Inl st' \<Longrightarrow> stopWaiting st'"
  by (induction ts arbitrary: st) (auto split: sum.splits dest: stopWaiting_keeps)

lemma stopWaiting_leaves:
  "stopWaiting st \<Longrightarrow> \<exists>res. loopTick env deps path (Select True files) st = Inr res"
  by (auto simp: stopWaiting_def loopTick_def selectTurn_def split: option.splits)

lemma leaves_stopWaiting: "loopTick env deps path t st = Inr res \<Longrightarrow> stopWaiting st"
  by (auto simp: stopWaiting_def loopTick_def selectTurn_def split: tick.splits option.splits if_splits)

lemma ticks_left:
  "ticks env deps path ts st = Inr res \<Longrightarrow>
     \<exists>n st' t. n < length ts \<and> ticks env deps path (take n ts) st = Inl st' \<and> loopTick env deps path (ts ! n) st' = Inr res"
proof (induction ts arbitrary: st)
  case (Cons t ts)
  show ?case
  proof (cases "loopTick env deps path t st")
    case (Inl st')
    with Cons obtain n u where "n < length ts" "ticks env deps path (take n ts) st' = Inl u" "loopTick env deps path (ts ! n) u = Inr res"
      by fastforce
    with Inl show ?thesis
      by (intro exI [of _ "Suc n"]) auto
  qed (use Cons in \<open>auto intro: exI [of _ 0]\<close>)
qed simp

lemma stake_take: "n \<le> m \<Longrightarrow> take n (stake m ts) = stake n ts"
  by (simp add: take_stake min_def)

lemma serveLoop_returns_iff:
  assumes "fair ts"
  shows "serveLoop env deps path ts st \<noteq> None \<longleftrightarrow>
    (\<exists>n st'. ticks env deps path (stake n ts) st = Inl st' \<and> stopWaiting st')"
proof
  assume "serveLoop env deps path ts st \<noteq> None"
  then obtain m res where "ticks env deps path (stake m ts) st = Inr res"
    using serveLoop_iff by (metis not_None_eq)
  from ticks_left [OF this] obtain n st' where
    "n < m" "ticks env deps path (stake n ts) st = Inl st'" "loopTick env deps path (stake m ts ! n) st' = Inr res"
    by (auto simp: stake_take)
  then show "\<exists>n st'. ticks env deps path (stake n ts) st = Inl st' \<and> stopWaiting st'"
    using leaves_stopWaiting by blast
next
  assume "\<exists>n st'. ticks env deps path (stake n ts) st = Inl st' \<and> stopWaiting st'"
  then obtain n st' where n: "ticks env deps path (stake n ts) st = Inl st'" "stopWaiting st'"
    by blast
  obtain k files where k: "ts !! (n + k) = Select True files"
    using assms unfolding fair_def by blast
  have "stake (n + Suc k) ts = stake n ts @ stake k (sdrop n ts) @ [Select True files]"
    unfolding stake_add [of n ts "Suc k", symmetric] stake_Suc sdrop_snth k ..
  moreover have "\<exists>res. ticks env deps path (stake k (sdrop n ts) @ [Select True files]) st' = Inr res"
  proof (cases "ticks env deps path (stake k (sdrop n ts)) st'")
    case (Inl u)
    from stopWaiting_leaves [OF stopWaiting_ticks [OF n(2) Inl], of env deps path files] Inl show ?thesis
      by (auto simp: ticks_append)
  qed (auto simp: ticks_append)
  ultimately obtain res where "ticks env deps path (stake (n + Suc k) ts) st = Inr res"
    using n(1) by (auto simp only: ticks_append sum.case)
  then show "serveLoop env deps path ts st \<noteq> None"
    by (simp only: serveLoop_ticks) simp
qed

lemma stake_sconst: "stake n (sconst x) = replicate n x"
  unfolding stake_siterate id_funpow by (simp add: map_replicate_const)

lemma quiet_ticks:
  "sigCh st = None \<Longrightarrow> srvErrCh st = None \<Longrightarrow> ticks env deps path (replicate n (Select b files)) st = Inl st"
  by (induction n) (simp_all add: loopTick_def selectTurn_def)

lemma buildAuthenticators_all:
  "buildAuthenticators lib ps auths = Inr auths' \<Longrightarrow> (name, p) \<in> set ps \<Longrightarrow> \<exists>a. NewAuthenticator lib p = Inr a"
  by (induction lib ps auths rule: buildAuthenticators.induct) (auto split: sum.splits)

lemma buildAuthenticators_error:
  "buildAuthenticators lib ps auths = Inl e \<Longrightarrow> \<exists>n x. e = StartupAuth n x"
  by (induction lib ps auths rule: buildAuthenticators.induct) (auto split: sum.splits)

lemma buildLimiter_error:
  "buildLimiter env g s = (Inl e, s') \<Longrightarrow> e = StartupNoRedis \<or> (\<exists>x. e = StartupRedis x)"
  by (auto simp: buildLimiter_def split: if_splits option.splits prod.splits)

lemma stopProviders_log:
  assumes "logged sd ledger" "\<forall>(name, p) \<in> set ps. \<exists>a. NewAuthenticator lib p = Inr a"
  shows "ledger (stopProviders sd ps s) = ledger s @ map ProviderStopped (map fst (filter (\<lambda>(name, p). holdsContext lib p) ps))"
  using assms(2)
proof (induction ps arbitrary: s)
  case (Cons x ps)
  obtain name p where x: "x = (name, p)"
    by (cases x)
  have stop: "ledger (sd_cancelProvider sd name s) = ledger s @ [ProviderStopped name]"
    using assms(1) by (simp add: logged_def)
  show ?case
  proof (cases "ap_Type p = ''oidc''")
    case True
    then obtain c a where c: "ap_OIDC p = Some c" "NewOIDCAuthenticator lib c = Inr a"
      using Cons.prems x by (auto simp: NewAuthenticator_def split: option.splits sum.splits)
    then have "holdsContext lib p \<longleftrightarrow> \<not> (IntrospectionURL c \<noteq> [] \<and> JWKSURL c = [] \<and> IssuerURL c = [])"
      using True by (auto simp: holdsContext_def NewOIDCAuthenticator_def Let_def split: if_splits option.splits)
    then show ?thesis
      using Cons x True c stop by (simp add: oidc_Stop_def)
  next
    case False
    then show ?thesis
      using Cons x by (simp add: holdsContext_def)
  qed
qed simp

section \<open>Properties\<close>

text \<open>C4: The select loop ends exactly when it should: on every fair schedule it returns if and only
  if at some moment a SIGINT or SIGTERM is in its channel or the server has failed; reloads, requests
  and further signals neither end it nor keep it from ending.\<close>

theorem serve_loop_ends_iff_stopped:
  assumes "fair ts"
  shows "(\<exists>p err. serveLoop env deps path ts st = Some (p, err)) \<longleftrightarrow>
    (\<exists>n st'. ticks env deps path (stake n ts) st = Inl st' \<and>
       (sigCh st' \<in> {Some SigINT, Some SigTERM} \<or> srvErrCh st' \<noteq> None))"
  using serveLoop_returns_iff [OF assms, of env deps path st]
  by (simp only: not_None_eq split_paired_Ex stopWaiting_iff)

theorem serve_loop_ends_iff_stopped_witness:
  "\<exists>p err. serveLoop demo_gateway_env demo_deps ''gateway.yaml'' (Arrives SigTERM ## sconst (Select True demo_load)) demo_state = Some (p, err)"
proof -
  have fair: "fair (Arrives SigTERM ## sconst (Select True demo_load) :: unit tick stream)"
    unfolding fair_def by (intro allI exI [of _ 1] exI [of _ demo_load]) simp
  have "ticks demo_gateway_env demo_deps ''gateway.yaml'' (stake 1 (Arrives SigTERM ## sconst (Select True demo_load))) demo_state =
      Inl (demo_state\<lparr>sigCh := Some SigTERM\<rparr>)"
    by (simp add: loopTick_def notify_def demo_state_def)
  then show ?thesis
    unfolding serve_loop_ends_iff_stopped [OF fair] by (intro exI [of _ 1] exI conjI) (auto simp: demo_state_def)
qed

text \<open>A stop can be lost: when a SIGTERM arrives while a SIGHUP is still in the channel, it is
  dropped, and the gateway serves on for ever.\<close>

theorem stop_signal_can_be_lost:
  assumes "sigCh st = None" and "srvErrCh st = None"
  shows "serveLoop env deps path (Arrives SigHUP ## Arrives SigTERM ## sconst (Select True files)) st = None"
proof -
  let ?ts = "Arrives SigHUP ## Arrives SigTERM ## sconst (Select True files)"
  have "\<nexists>res. ticks env deps path (stake n ?ts) st = Inr res" for n
  proof (cases "n < 2")
    case True
    then have "n = 0 \<or> n = Suc 0"
      by linarith
    then show ?thesis
      by (auto simp: loopTick_def)
  next
    case False
    then obtain k where "n = Suc (Suc k)"
      by (metis Suc_lessI less_2_cases_iff not0_implies_Suc not_less_less_Suc_eq old.nat.exhaust)
    moreover have "ticks env deps path (stake k (sconst (Select True files))) (st\<lparr>sigCh := Some SigHUP\<rparr>) \<noteq> Inr res" for res
      unfolding stake_sconst using assms by (cases k) (simp_all add: loopTick_def selectTurn_def quiet_ticks)
    ultimately show ?thesis
      using assms by (simp add: loopTick_def notify_def)
  qed
  then show ?thesis
    using serveLoop_iff by (metis not_None_eq)
qed

theorem stop_signal_can_be_lost_witness:
  "serveLoop demo_gateway_env demo_deps ''gateway.yaml'' (Arrives SigHUP ## Arrives SigTERM ## sconst (Select True demo_load)) demo_state = None"
  by (rule stop_signal_can_be_lost) (simp_all add: demo_state_def)

text \<open>C16: A shutdown that is not forced releases what the start-up acquired, each resource once and in
  this order: background work, the server, idle connections of the handler in force, the context of
  every provider that runs one, the Redis client if that is the backend. A forced one releases nothing
  beyond the server. The exit status is 0 exactly if the shutdown was not forced and the server had
  not failed.\<close>

theorem shutdown_releases_everything:
  assumes "startup env path files s0 = Inr (deps, p0)" and "logged sd ledger"
    and "\<forall>s. ledger (hr_cleanup (current p) s) = ledger s @ [IdleClosed]"
    and "forced = (fst (sd_shutdown sd (ShutdownTimeout (Server (cfgPtr p))) (sd_cancel sd (world p))) \<noteq> None)"
    and "shutdown sd (cfgPtr p0) p err = (status, s')"
  shows "ledger s' = ledger (world p) @ [BackgroundCancelled, ServerShutDown (ShutdownTimeout (Server (cfgPtr p)))] @
      (if forced then []
       else IdleClosed # map ProviderStopped (map fst (filter (\<lambda>(name, a). holdsContext (ge_auth env) a) (AuthProviders (cfgPtr p0)))) @
         (if Backend (RateLimit (cfgPtr p0)) = ''redis'' then [RedisClosed] else [])) \<and>
    (status = 0 \<longleftrightarrow> \<not> forced \<and> err = None)"
proof -
  from assms(1) have "\<exists>auths. buildAuthenticators (ge_auth env) (AuthProviders (cfgPtr p0)) Map.empty = Inr auths"
    by (rule startup_ok) auto
  then have built: "\<forall>(name, a) \<in> set (AuthProviders (cfgPtr p0)). \<exists>x. NewAuthenticator (ge_auth env) a = Inr x"
    using buildAuthenticators_all by fast
  obtain r s where sh: "sd_shutdown sd (ShutdownTimeout (Server (cfgPtr p))) (sd_cancel sd (world p)) = (r, s)"
    by fastforce
  have "ledger s = ledger (world p) @ [BackgroundCancelled, ServerShutDown (ShutdownTimeout (Server (cfgPtr p)))]"
    using assms(2) sh unfolding logged_def by (metis append.assoc append_Cons append_Nil snd_conv)
  then show ?thesis
    using assms(2-5) sh stopProviders_log [OF assms(2) built]
    by (auto simp: shutdown_def logged_def Let_def split: option.splits if_splits)
qed

theorem shutdown_releases_everything_witness:
  "\<exists>s'. shutdown demo_shutdown (applyDefaults demo_gateway) demo_ledger None = (0, s') \<and>
    s' = [BackgroundCancelled, ServerShutDown 5, IdleClosed]"
proof -
  obtain deps p0 where p0: "startup demo_gateway_env ''gateway.yaml'' demo_load [] = Inr (deps, p0)"
    and cfg: "cfgPtr p0 = applyDefaults demo_gateway"
    using demo_startup [of "[]"] by blast
  have log: "logged demo_shutdown (\<lambda>s. s)"
    by (simp add: logged_def demo_shutdown_def)
  obtain status s' where run: "shutdown demo_shutdown (cfgPtr p0) demo_ledger None = (status, s')"
    by fastforce
  have plain: "filter (\<lambda>(name, a). holdsContext (ge_auth demo_gateway_env) a) (AuthProviders (applyDefaults demo_gateway)) = []"
    "Backend (RateLimit (applyDefaults demo_gateway)) \<noteq> ''redis''"
    by (simp_all add: demo_gateway_def applyDefaults_def rateLimitDefaults_def holdsContext_def)
  show ?thesis
    using shutdown_releases_everything [OF p0 log _ refl run] run plain
    by (simp add: cfg demo_ledger_def demo_shutdown_def)
qed

text \<open>C17: \<open>gateway validate\<close> tells what \<open>gateway\<close> will do with the file: if it answers 0, a start
  with the same arguments can only fail on a trusted proxy that is no address, on a Redis section that is
  missing, on Redis or on an authentication provider; otherwise the start fails with the error that was printed.\<close>

theorem validate_predicts_startup:
  assumes "parseFlags defaultPath args = Inr path" and "re_compiles (ge_regexp env) []"
  shows "if ran_status (runValidate env files args) = 0
    then ran_stdout (runValidate env files args) = [''OK: configuration is valid''] \<and>
      (\<forall>e. startup env path files s0 = Inl e \<longrightarrow>
         (\<exists>x. e = StartupProxies x) \<or> e = StartupNoRedis \<or> (\<exists>x. e = StartupRedis x) \<or> (\<exists>n x. e = StartupAuth n x))
    else \<exists>e. ran_error (runValidate env files args) = Some (InvalidConfig e) \<and> startup env path files s0 = Inl (StartupLoad e)"
proof (cases "LoadConfig files (ge_schema env) (ge_yaml env) (ge_regexp env) path None")
  case (Pair res cache)
  show ?thesis
  proof (cases res)
    case (Inl e)
    then show ?thesis
      using assms(1) Pair by (simp add: runValidate_def startup_def)
  next
    case (Inr cfg)
    have valid: "valid_config (ge_yaml env) (ge_regexp env) cfg"
      using LoadConfig_valid [of files "ge_schema env" "ge_yaml env" "ge_regexp env" path None cfg] Pair Inr by simp
    have "startup env path files s0 = Inl e \<Longrightarrow>
        (\<exists>x. e = StartupProxies x) \<or> e = StartupNoRedis \<or> (\<exists>x. e = StartupRedis x) \<or> (\<exists>n x. e = StartupAuth n x)" for e
      using Pair Inr buildHandler_valid [OF valid assms(2)]
      by (auto simp: startup_def Let_def split: sum.splits prod.splits dest!: buildLimiter_error buildAuthenticators_error)
    then show ?thesis
      using assms(1) Pair Inr by (simp add: runValidate_def)
  qed
qed

theorem validate_predicts_startup_witness:
  "ran_stdout (runValidate demo_unit_env demo_load [''-config'', ''gateway.yaml'']) = [''OK: configuration is valid''] \<and>
   (\<exists>e. ran_error (runValidate demo_unit_env demo_load [''--config=missing'']) = Some (InvalidConfig e) \<and>
     startup demo_unit_env ''missing'' demo_load () = Inl (StartupLoad e))"
proof -
  have re: "re_compiles (ge_regexp demo_unit_env) []"
    by (simp add: demo_gateway_env_def literal_regexp_def)
  have flags: "parseFlags defaultPath [''-config'', ''gateway.yaml''] = Inr ''gateway.yaml''"
    "parseFlags defaultPath [''--config=missing''] = Inr ''missing''"
    by code_simp+
  have "ran_status (runValidate demo_unit_env demo_load [''-config'', ''gateway.yaml'']) = 0"
    using demo_load_ok flags by (auto simp: runValidate_def demo_gateway_env_def split: prod.splits sum.splits)
  moreover have "ran_status (runValidate demo_unit_env demo_load [''--config=missing'']) \<noteq> 0"
    using flags by (simp add: runValidate_def LoadConfig_def demo_load_def)
  ultimately show ?thesis
    using validate_predicts_startup [OF flags(1) re, of demo_load "()"] validate_predicts_startup [OF flags(2) re, of demo_load "()"]
    by simp
qed

end
