(* ===== verification/Reload.thy ===== *)
theory Reload
  imports Gateway
begin

text \<open>
  Requests that run while \<open>handleReload\<close> of \<open>cmd/gateway/main.go\<close> runs. The two atomic pointers are
  stored one after the other, so the reload is split at its accesses to them: load and build, store
  the configuration, store the handler, clean up. A request loads the handler pointer once and keeps
  what it found until it is done. The step relation interleaves one reload (the main goroutine runs
  them one at a time) with any number of requests.
\<close>

section \<open>Reload in steps\<close>

text \<open>What \<open>handleReload\<close> holds in its variables between its accesses: \<open>oldCfg\<close>, \<open>newCfg\<close>, the new handler with its
  cleanup, \<open>old\<close>, and the message it ends with.\<close>

datatype ('w) reload_phase =
    NoReload
  | Built GatewayConfig GatewayConfig "'w handlerRef" "reload_entry list"
  | ConfigStored GatewayConfig "'w handlerRef" "'w handlerRef" "reload_entry list"
  | HandlerStored "'w handlerRef" "reload_entry list"

text \<open>Up to the call of \<open>DiffSummary\<close>: nothing shared is stored yet. An error ends the reload.\<close>

definition reloadBuild ::
  "('w, 'doc, 'comp, 'schema) gateway_env \<Rightarrow> 'w FactoryDeps \<Rightarrow> string \<Rightarrow> load_lib \<Rightarrow>
   ('w, 'schema) process \<Rightarrow> ('w, 'schema) process \<times> 'w reload_phase" where
  "reloadBuild env deps configPath files p =
     (let oldCfg = cfgPtr p; n = builds p
      in case LoadConfig files (ge_schema env) (ge_yaml env) (ge_regexp env) configPath (schemaCache p) of
           (Inl e, cache) \<Rightarrow> (p\<lparr>schemaCache := cache, reloadLog := reloadLog p @ [ReloadInvalid e]\<rparr>, NoReload)
         | (Inr newCfg, cache) \<Rightarrow>
             (let warned = reloadLog p @ map NonReloadable (NonReloadableChanges oldCfg newCfg)
              in case buildHandler env deps n newCfg (world p) of
                   (Inl e, s) \<Rightarrow>
                     (p\<lparr>builds := Suc n, world := ge_closeIdle env n s, schemaCache := cache,
                        reloadLog := warned @ [ReloadBuildFailed e]\<rparr>, NoReload)
                 | (Inr newHandler, s) \<Rightarrow>
                     (p\<lparr>builds := Suc n, world := s, schemaCache := cache, reloadLog := warned\<rparr>,
                      Built oldCfg newCfg \<lparr>hr_h = newHandler, hr_cleanup = ge_closeIdle env n\<rparr>
                        [Reloaded (DiffSummary (ge_yaml env) oldCfg newCfg)])))"

text \<open>The accesses that follow, one at a time.\<close>

fun reloadNext :: "('w, 'schema) process \<times> 'w reload_phase \<Rightarrow> ('w, 'schema) process \<times> 'w reload_phase" where
  "reloadNext (p, NoReload) = (p, NoReload)"
| "reloadNext (p, Built oldCfg newCfg newRef msgs) =
     (p\<lparr>cfgPtr := newCfg\<rparr>, ConfigStored oldCfg (current p) newRef msgs)"
| "reloadNext (p, ConfigStored oldCfg old newRef msgs) = (p\<lparr>current := newRef\<rparr>, HandlerStored old msgs)"
| "reloadNext (p, HandlerStored old msgs) =
     (p\<lparr>world := hr_cleanup old (world p), reloadLog := reloadLog p @ msgs\<rparr>, NoReload)"

section \<open>Interleaving\<close>

text \<open>\<open>held\<close> gives the handler a request in flight has loaded.\<close>

record ('w, 'schema) live =
  lv_process :: "('w, 'schema) process"
  lv_phase :: "'w reload_phase"
  held :: "nat \<rightharpoonup> 'w handler"

text \<open>The events: a reload starts, or makes its next access; a request loads the handler pointer, or is
  served, with what it is served, the writer it leaves and its outcome.\<close>

datatype live_event = Hangup load_lib | Proceed | Load nat | Serve nat request writer writer outcome

inductive live_step ::
  "('w, 'doc, 'comp, 'schema) gateway_env \<Rightarrow> 'w FactoryDeps \<Rightarrow> string \<Rightarrow> ('w, 'schema) live \<Rightarrow> live_event \<Rightarrow>
   ('w, 'schema) live \<Rightarrow> bool"
  for env deps path where
  hangup: "lv_phase l = NoReload \<Longrightarrow> reloadBuild env deps path files (lv_process l) = (p, ph) \<Longrightarrow>
    live_step env deps path l (Hangup files) (l\<lparr>lv_process := p, lv_phase := ph\<rparr>)"
| proceed: "lv_phase l \<noteq> NoReload \<Longrightarrow> reloadNext (lv_process l, lv_phase l) = (p, ph) \<Longrightarrow>
    live_step env deps path l Proceed (l\<lparr>lv_process := p, lv_phase := ph\<rparr>)"
| load: "held l i = None \<Longrightarrow>
    live_step env deps path l (Load i) (l\<lparr>held := (held l)(i \<mapsto> hr_h (current (lv_process l)))\<rparr>)"
| serve: "held l i = Some h \<Longrightarrow> h r w (world (lv_process l)) = (w', out, s') \<Longrightarrow>
    live_step env deps path l (Serve i r w w' out)
      (l\<lparr>lv_process := (lv_process l)\<lparr>world := s'\<rparr>, held := (held l)(i := None)\<rparr>)"

inductive live_steps ::
  "('w, 'doc, 'comp, 'schema) gateway_env \<Rightarrow> 'w FactoryDeps \<Rightarrow> string \<Rightarrow> ('w, 'schema) live \<Rightarrow> live_event list \<Rightarrow>
   ('w, 'schema) live \<Rightarrow> bool"
  for env deps path where
  none: "live_steps env deps path l [] l"
| more: "live_steps env deps path l tr l' \<Longrightarrow> live_step env deps path l' ev l'' \<Longrightarrow> live_steps env deps path l (tr @ [ev]) l''"

definition live_init :: "('w, 'schema) process \<Rightarrow> ('w, 'schema) live" where
  "live_init p = \<lparr>lv_process = p, lv_phase = NoReload, held = Map.empty\<rparr>"

text \<open>The configuration in force: the one stored, except between the two stores of a reload, when the handlers
  loaded are still those of the one before.\<close>

definition in_force :: "('w, 'schema) live \<Rightarrow> GatewayConfig" where
  "in_force l = (case lv_phase l of ConfigStored oldCfg old newRef msgs \<Rightarrow> oldCfg | _ \<Rightarrow> cfgPtr (lv_process l))"

inductive_cases live_loadE: "live_step env deps path l (Load i) l'"
inductive_cases live_serveE: "live_step env deps path l (Serve i r w w' out) l'"
inductive_cases live_hangupE: "live_step env deps path l (Hangup files) l'"
inductive_cases live_proceedE: "live_step env deps path l Proceed l'"

section \<open>What holds throughout\<close>

text \<open>The gateway of \<open>cfg\<close> in the build number \<open>n\<close>, with that build's cleanup.\<close>

definition ref_of ::
  "('w, 'doc, 'comp, 'schema) gateway_env \<Rightarrow> 'w FactoryDeps \<Rightarrow> nat \<Rightarrow> GatewayConfig \<Rightarrow> 'w handlerRef" where
  "ref_of env deps n cfg =
     \<lparr>hr_h = gateway_spec (ge_yaml env) (ge_regexp env) (ge_runtime env n) cfg deps, hr_cleanup = ge_closeIdle env n\<rparr>"

text \<open>The handler in force is that of the configuration in force. The handler about to be stored and the
  cleanup that is due belong to other builds.\<close>

definition live_inv :: "('w, 'doc, 'comp, 'schema) gateway_env \<Rightarrow> 'w FactoryDeps \<Rightarrow> ('w, 'schema) live \<Rightarrow> bool" where
  "live_inv env deps l \<longleftrightarrow>
     valid_config (ge_yaml env) (ge_regexp env) (in_force l) \<and>
     (\<exists>n < builds (lv_process l). current (lv_process l) = ref_of env deps n (in_force l) \<and>
        (case lv_phase l of
           NoReload \<Rightarrow> True
         | Built oldCfg newCfg newRef msgs \<Rightarrow> oldCfg = cfgPtr (lv_process l) \<and>
             valid_config (ge_yaml env) (ge_regexp env) newCfg \<and>
             (\<exists>m < builds (lv_process l). m \<noteq> n \<and> newRef = ref_of env deps m newCfg)
         | ConfigStored oldCfg old newRef msgs \<Rightarrow> old = current (lv_process l) \<and>
             valid_config (ge_yaml env) (ge_regexp env) (cfgPtr (lv_process l)) \<and>
             (\<exists>m < builds (lv_process l). m \<noteq> n \<and> newRef = ref_of env deps m (cfgPtr (lv_process l)))
         | HandlerStored old msgs \<Rightarrow>
             (\<exists>m < builds (lv_process l). m \<noteq> n \<and> hr_cleanup old = ge_closeIdle env m)))"

section \<open>Lemmas\<close>

lemma reloadBuild_cases:
  assumes "reloadBuild env deps path files p = (p', ph)" and "re_compiles (ge_regexp env) []"
  obtains "ph = NoReload" "cfgPtr p' = cfgPtr p" "current p' = current p" "builds p \<le> builds p'"
  | cfg msgs where "ph = Built (cfgPtr p) cfg (ref_of env deps (builds p) cfg) msgs"
      "valid_config (ge_yaml env) (ge_regexp env) cfg"
      "cfgPtr p' = cfgPtr p" "current p' = current p" "builds p' = Suc (builds p)"
proof (cases "LoadConfig files (ge_schema env) (ge_yaml env) (ge_regexp env) path (schemaCache p)")
  case (Pair res cache)
  show thesis
  proof (cases res)
    case (Inl e)
    with Pair assms(1) that(1) show thesis
      by (auto simp: reloadBuild_def Let_def)
  next
    case (Inr cfg)
    then have valid: "valid_config (ge_yaml env) (ge_regexp env) cfg"
      using LoadConfig_valid [of files "ge_schema env" "ge_yaml env" "ge_regexp env" path "schemaCache p" cfg] Pair by simp
    with Pair Inr assms that(2) buildHandler_valid [OF valid assms(2)] show thesis
      by (auto simp: reloadBuild_def ref_of_def Let_def)
  qed
qed

text \<open>A reload of a file that loads reaches the stores.\<close>

lemma reloadBuild_loads:
  assumes "fst (LoadConfig files (ge_schema env) (ge_yaml env) (ge_regexp env) path (schemaCache p)) = Inr cfg"
    and "re_compiles (ge_regexp env) []"
  shows "\<exists>p' newRef msgs. reloadBuild env deps path files p = (p', Built (cfgPtr p) cfg newRef msgs)"
  using buildHandler_valid [OF LoadConfig_valid [OF assms(1)] assms(2), of deps "builds p" "world p"] assms(1)
  by (cases "LoadConfig files (ge_schema env) (ge_yaml env) (ge_regexp env) path (schemaCache p)")
    (simp add: reloadBuild_def Let_def)

lemma live_inv_start:
  assumes "startup env path files s0 = Inr (deps, p)" and "re_compiles (ge_regexp env) []"
  shows "live_inv env deps (live_init p)"
  using startup_serving [OF assms] by (auto simp: live_inv_def live_init_def in_force_def serving_def ref_of_def)

lemma live_inv_frame [simp]:
  "live_inv env deps (l\<lparr>held := x\<rparr>) \<longleftrightarrow> live_inv env deps l"
  "live_inv env deps (l\<lparr>lv_process := (lv_process l)\<lparr>world := s\<rparr>\<rparr>) \<longleftrightarrow> live_inv env deps l"
  by (cases "lv_phase l"; simp add: live_inv_def in_force_def)+

lemma live_inv_hangup:
  assumes inv: "live_inv env deps l" and "re_compiles (ge_regexp env) []" "lv_phase l = NoReload"
    and "reloadBuild env deps path files (lv_process l) = (p, ph)"
  shows "live_inv env deps (l\<lparr>lv_process := p, lv_phase := ph\<rparr>)"
proof -
  obtain n where n: "n < builds (lv_process l)" "current (lv_process l) = ref_of env deps n (cfgPtr (lv_process l))"
    and valid: "valid_config (ge_yaml env) (ge_regexp env) (cfgPtr (lv_process l))"
    using inv assms(3) by (auto simp: live_inv_def in_force_def)
  from assms(4,2) show ?thesis
  proof (cases rule: reloadBuild_cases)
    case 1
    then show ?thesis
      using n valid by (auto simp: live_inv_def in_force_def intro!: exI [of _ n])
  next
    case (2 cfg msgs)
    have "\<exists>m < Suc (builds (lv_process l)). m \<noteq> n \<and> ref_of env deps (builds (lv_process l)) cfg = ref_of env deps m cfg"
      using n(1) by (intro exI [of _ "builds (lv_process l)"]) simp
    with n valid 2 show ?thesis
      unfolding live_inv_def by (intro conjI exI [of _ n]) (simp_all add: in_force_def)
  qed
qed

lemma live_inv_proceed:
  assumes inv: "live_inv env deps l" and "reloadNext (lv_process l, lv_phase l) = (p, ph)" "lv_phase l \<noteq> NoReload"
  shows "live_inv env deps (l\<lparr>lv_process := p, lv_phase := ph\<rparr>)"
proof (cases "lv_phase l")
  case (ConfigStored oldCfg old newRef msgs)
  obtain n m where nm: "n < builds (lv_process l)" "old = ref_of env deps n oldCfg"
    "m < builds (lv_process l)" "m \<noteq> n" "newRef = ref_of env deps m (cfgPtr (lv_process l))"
    "valid_config (ge_yaml env) (ge_regexp env) (cfgPtr (lv_process l))"
    using inv ConfigStored by (auto simp: live_inv_def in_force_def)
  have p: "p = (lv_process l)\<lparr>current := newRef\<rparr>" "ph = HandlerStored old msgs"
    using assms(2) ConfigStored by simp_all
  have "\<exists>k < builds (lv_process l). k \<noteq> m \<and> hr_cleanup old = ge_closeIdle env k"
    using nm by (auto simp: ref_of_def)
  with nm(3-6) show ?thesis
    unfolding live_inv_def by (intro conjI exI [of _ m]) (simp_all add: in_force_def p)
next
  case (Built oldCfg newCfg newRef msgs)
  then show ?thesis
    using assms unfolding live_inv_def in_force_def by clarsimp blast
next
  case (HandlerStored old msgs)
  then show ?thesis
    using assms unfolding live_inv_def in_force_def by clarsimp blast
qed (use assms in simp)

lemma live_inv_step:
  assumes "live_step env deps path l ev l'" "live_inv env deps l" "re_compiles (ge_regexp env) []"
  shows "live_inv env deps l'"
  using assms(1)
proof (cases rule: live_step.cases)
  case (hangup files p ph)
  then show ?thesis
    using live_inv_hangup [OF assms(2,3)] by blast
next
  case (proceed p ph)
  then show ?thesis
    using live_inv_proceed [OF assms(2)] by blast
next
  case (load i)
  then show ?thesis
    using assms(2) by simp
next
  case (serve i h r w w' out s')
  have "live_inv env deps ((l\<lparr>lv_process := (lv_process l)\<lparr>world := s'\<rparr>\<rparr>)\<lparr>held := (held l)(i := None)\<rparr>)"
    using assms(2) by (simp only: live_inv_frame)
  then show ?thesis
    by (simp add: serve)
qed

lemma live_inv_steps:
  assumes "live_steps env deps path l tr l'" "re_compiles (ge_regexp env) []"
  shows "live_inv env deps l \<Longrightarrow> live_inv env deps l'"
  using assms(1)
proof induction
  case (more l tr l' ev l'')
  then show ?case
    using live_inv_step [OF more.hyps(2) _ assms(2)] by blast
qed simp

text \<open>What a request has loaded stays with it until it is served.\<close>

lemma held_step:
  "live_step env deps path l ev l' \<Longrightarrow> held l i = Some h \<Longrightarrow> (\<nexists>r w w' out. ev = Serve i r w w' out) \<Longrightarrow> held l' i = Some h"
  by (auto elim!: live_step.cases)

lemma held_steps:
  assumes "live_steps env deps path l tr l'"
  shows "held l i = Some h \<Longrightarrow> (\<nexists>r w w' out. Serve i r w w' out \<in> set tr) \<Longrightarrow> held l' i = Some h"
  using assms
proof induction
  case (more l tr l' ev l'')
  then show ?case
    using held_step [OF more.hyps(2), of i h] by fastforce
qed simp

section \<open>Properties\<close>

text \<open>The steps of a reload, run without interruption, are \<open>handleReload\<close>.\<close>

theorem reload_steps_are_handleReload:
  "(reloadNext ^^ 3) (reloadBuild env deps path files p) = (handleReload env deps path files p, NoReload)"
  by (auto simp: reloadBuild_def handleReload_def Let_def eval_nat_numeral split: sum.splits prod.splits)

text \<open>C3: Requests and reloads interleave in any order after a start-up. A request that loads the handler pointer in the
  state \<open>l1\<close> is answered, whatever requests and reload steps come in between, by the gateway of the
  valid configuration that was in force in \<open>l1\<close>: the stored one or, when a reload was between its two
  stores then, the one before. At that moment the handler in force is the one built from it, and a cleanup that is due
  closes the connections of another build.\<close>

theorem requests_never_see_torn_reload:
  assumes "startup env path files s0 = Inr (deps, p)" and "re_compiles (ge_regexp env) []"
    and "live_steps env deps path (live_init p) tr1 l1"
    and "live_step env deps path l1 (Load i) l2"
    and "live_steps env deps path l2 tr2 l3" and "\<nexists>r w w' out. Serve i r w w' out \<in> set tr2"
    and "live_step env deps path l3 (Serve i r w w' out) l4"
  shows "\<exists>n. semanticErrors (ge_yaml env) (ge_regexp env) (in_force l1) = [] \<and>
    (w', out, world (lv_process l4)) =
      gateway_spec (ge_yaml env) (ge_regexp env) (ge_runtime env n) (in_force l1) deps r w (world (lv_process l3)) \<and>
    current (lv_process l1) = ref_of env deps n (in_force l1) \<and>
    (\<forall>old msgs. lv_phase l1 = HandlerStored old msgs \<longrightarrow> (\<exists>m. m \<noteq> n \<and> hr_cleanup old = ge_closeIdle env m))"
proof -
  have inv: "live_inv env deps l1"
    by (rule live_inv_steps [OF assms(3,2) live_inv_start [OF assms(1,2)]])
  then obtain n where n: "current (lv_process l1) = ref_of env deps n (in_force l1)"
    "\<forall>old msgs. lv_phase l1 = HandlerStored old msgs \<longrightarrow> (\<exists>m. m \<noteq> n \<and> hr_cleanup old = ge_closeIdle env m)"
    by (cases "lv_phase l1") (auto simp: live_inv_def)
  have "held l2 i = Some (hr_h (current (lv_process l1)))"
    using assms(4) by (rule live_loadE) simp
  then have "held l3 i = Some (hr_h (current (lv_process l1)))"
    using held_steps [OF assms(5)] assms(6) by blast
  with assms(7) have "hr_h (current (lv_process l1)) r w (world (lv_process l3)) = (w', out, world (lv_process l4))"
    by (auto elim!: live_serveE)
  with n inv show ?thesis
    unfolding semanticErrors_valid by (intro exI [of _ n]) (simp add: live_inv_def ref_of_def)
qed

theorem requests_never_see_torn_reload_witness:
  "\<exists>deps l3 l4 w' out n.
     live_steps (demo_gateway_env :: (unit, unit, unit, unit) gateway_env) deps ''gateway.yaml'' l3
       [Serve 7 (bareRequest ''GET'' ''/a'' Map.empty) (ServerResponse fresh_conn) w' out] l4 \<and>
     cfgPtr (lv_process l3) = applyDefaults extra_gateway \<and>
     (w', out, world (lv_process l4)) = gateway_spec demo_yaml literal_regexp (ge_runtime demo_gateway_env n)
       (applyDefaults demo_gateway) deps (bareRequest ''GET'' ''/a'' Map.empty) (ServerResponse fresh_conn) (world (lv_process l3))"
proof -
  let ?env = "demo_gateway_env :: (unit, unit, unit, unit) gateway_env"
  let ?files = "demo_load\<lparr>ll_unmarshal := (\<lambda>_. Inr extra_gateway)\<rparr>"
  let ?r = "bareRequest ''GET'' ''/a'' Map.empty" and ?w = "ServerResponse fresh_conn"
  obtain deps p where p: "startup ?env ''gateway.yaml'' demo_load () = Inr (deps, p)" "cfgPtr p = applyDefaults demo_gateway"
    using demo_startup [of "()"] by blast
  have re: "re_compiles (ge_regexp ?env) []"
    by (simp add: demo_gateway_env_def literal_regexp_def)
  have "semanticErrors demo_yaml literal_regexp (applyDefaults extra_gateway) = []"
    by code_simp
  from demo_reload [OF this, of "schemaCache p"]
  obtain p1 ref msgs where build: "reloadBuild ?env deps ''gateway.yaml'' ?files p = (p1, Built (cfgPtr p) (applyDefaults extra_gateway) ref msgs)"
    using reloadBuild_loads [OF _ re, of ?files "''gateway.yaml''" p "applyDefaults extra_gateway" deps]
    by (auto simp: demo_gateway_env_def)
  let ?l0 = "live_init p"
  let ?l1 = "?l0\<lparr>held := (held ?l0)(7 \<mapsto> hr_h (current (lv_process ?l0)))\<rparr>"
  let ?l2 = "?l1\<lparr>lv_process := p1, lv_phase := Built (cfgPtr p) (applyDefaults extra_gateway) ref msgs\<rparr>"
  let ?l3 = "?l2\<lparr>lv_process := p1\<lparr>cfgPtr := applyDefaults extra_gateway\<rparr>, lv_phase := ConfigStored (cfgPtr p) (current p1) ref msgs\<rparr>"
  obtain w' out s' where h: "hr_h (current p) ?r ?w () = (w', out, s')"
    by (metis prod_cases3)
  let ?l4 = "?l3\<lparr>lv_process := (lv_process ?l3)\<lparr>world := s'\<rparr>, held := (held ?l3)(7 := None)\<rparr>"
  have arrive: "live_step ?env deps ''gateway.yaml'' ?l0 (Load 7) ?l1"
    by (rule live_step.load) (simp add: live_init_def)
  have "live_step ?env deps ''gateway.yaml'' ?l1 (Hangup ?files) ?l2"
    by (rule live_step.hangup) (simp_all add: live_init_def build)
  moreover have "live_step ?env deps ''gateway.yaml'' ?l2 Proceed ?l3"
    using live_step.proceed [where env = ?env and deps = deps and path = "''gateway.yaml''" and l = ?l2 and
        p = "p1\<lparr>cfgPtr := applyDefaults extra_gateway\<rparr>" and ph = "ConfigStored (cfgPtr p) (current p1) ref msgs"]
    by simp
  ultimately have between: "live_steps ?env deps ''gateway.yaml'' ?l1 [Hangup ?files, Proceed] ?l3"
    using live_steps.more [OF live_steps.more [OF live_steps.none]] by fastforce
  have answer: "live_step ?env deps ''gateway.yaml'' ?l3 (Serve 7 ?r ?w w' out) ?l4"
    by (rule live_step.serve [where h = "hr_h (current p)"]) (simp_all add: live_init_def h)
  have "\<nexists>r w w' out. Serve 7 r w w' out \<in> set [Hangup ?files, Proceed]"
    by simp
  from requests_never_see_torn_reload [OF p(1) re live_steps.none arrive between this answer]
  obtain n where "(w', out, world (lv_process ?l4)) = gateway_spec (ge_yaml ?env) (ge_regexp ?env) (ge_runtime ?env n)
      (in_force ?l0) deps ?r ?w (world (lv_process ?l3))"
    by (elim exE conjE)
  moreover have "in_force ?l0 = applyDefaults demo_gateway" "ge_yaml ?env = demo_yaml" "ge_regexp ?env = literal_regexp"
    by (simp_all add: in_force_def live_init_def p(2) demo_gateway_env_def)
  moreover have "live_steps ?env deps ''gateway.yaml'' ?l3 [Serve 7 ?r ?w w' out] ?l4"
    using live_steps.more [OF live_steps.none answer] by simp
  moreover have "cfgPtr (lv_process ?l3) = applyDefaults extra_gateway"
    by simp
  ultimately show ?thesis
    by (intro exI [of _ deps] exI [of _ ?l3] exI [of _ ?l4] exI [of _ w'] exI [of _ out] exI [of _ n] conjI) (simp_all only:)
qed

end
