(* ===== verification/Collector.thy ===== *)
theory Collector
  imports Observability CircuitBreaker
begin

text \<open>
  The metrics collector of \<open>internal/observability/metrics.go\<close>: its eight vectors, their registration,
  and what a call on a vector does to the series that \<open>/metrics\<close> shows. The Prometheus client is a
  record of functions on a registry \<open>'r\<close> and on the stored series \<open>'m\<close>; what the gateway relies on is the
  predicate \<open>prom_documented\<close>. A panic is \<open>None\<close>.
\<close>

section \<open>Vectors\<close>

datatype buckets_opt = DefBuckets | ExponentialBuckets nat nat nat

datatype vec_kind = CounterVec | GaugeVec | HistogramVec buckets_opt

record vec =
  vec_name :: string
  vec_kind :: vec_kind
  vec_labels :: "string list"

record MetricsCollector =
  RequestsTotal :: vec
  RequestDuration :: vec
  RequestSize :: vec
  ResponseSize :: vec
  CircuitBreakerState :: vec
  RateLimitRejected :: vec
  RateLimitErrors :: vec
  UpstreamErrors :: vec

definition metricsCollector :: MetricsCollector where
  "metricsCollector = \<lparr>
     RequestsTotal = \<lparr>vec_name = ''gateway_requests_total'', vec_kind = CounterVec,
       vec_labels = [''route'', ''method'', ''status_code'']\<rparr>,
     RequestDuration = \<lparr>vec_name = ''gateway_request_duration_seconds'', vec_kind = HistogramVec DefBuckets,
       vec_labels = [''route'', ''method'']\<rparr>,
     RequestSize = \<lparr>vec_name = ''gateway_request_size_bytes'', vec_kind = HistogramVec (ExponentialBuckets 100 10 6),
       vec_labels = [''route'']\<rparr>,
     ResponseSize = \<lparr>vec_name = ''gateway_response_size_bytes'', vec_kind = HistogramVec (ExponentialBuckets 100 10 6),
       vec_labels = [''route'']\<rparr>,
     CircuitBreakerState = \<lparr>vec_name = ''gateway_circuit_breaker_state'', vec_kind = GaugeVec,
       vec_labels = [''route'', ''state'']\<rparr>,
     RateLimitRejected = \<lparr>vec_name = ''gateway_rate_limit_rejected_total'', vec_kind = CounterVec,
       vec_labels = [''route'', ''middleware'']\<rparr>,
     RateLimitErrors = \<lparr>vec_name = ''gateway_rate_limit_errors_total'', vec_kind = CounterVec,
       vec_labels = [''route'', ''middleware'']\<rparr>,
     UpstreamErrors = \<lparr>vec_name = ''gateway_upstream_errors_total'', vec_kind = CounterVec,
       vec_labels = [''route'', ''error_type'']\<rparr>\<rparr>"

datatype sample = Value rat | Observations "rat list"

datatype update = Inc | SetTo rat | Observe rat

text \<open>\<open>pl_register\<close> is \<open>MustRegister\<close> of one vector, \<open>pl_names\<close> the names taken; \<open>pl_update\<close> is
  \<open>WithLabelValues(lvs...)\<close> followed by \<open>Inc\<close>, \<open>Set\<close> or \<open>Observe\<close>; \<open>pl_read\<close> is the series as shown.\<close>

record ('r, 'm) prom_lib =
  pl_register :: "vec \<Rightarrow> 'r \<Rightarrow> 'r option"
  pl_names :: "'r \<Rightarrow> string set"
  pl_update :: "vec \<Rightarrow> string list \<Rightarrow> update \<Rightarrow> 'm \<Rightarrow> 'm option"
  pl_read :: "'m \<Rightarrow> string \<Rightarrow> string list \<Rightarrow> sample option"

fun MustRegister :: "('r, 'm) prom_lib \<Rightarrow> vec list \<Rightarrow> 'r \<Rightarrow> 'r option" where
  "MustRegister prom [] reg = Some reg"
| "MustRegister prom (v # vs) reg = Option.bind (pl_register prom v reg) (MustRegister prom vs)"

definition NewMetricsCollector :: "('r, 'm) prom_lib \<Rightarrow> 'r \<Rightarrow> (MetricsCollector \<times> 'r) option" where
  "NewMetricsCollector prom reg =
     (let m = metricsCollector
      in map_option (Pair m)
           (MustRegister prom [RequestsTotal m, RequestDuration m, RequestSize m, ResponseSize m, CircuitBreakerState m,
              RateLimitRejected m, RateLimitErrors m, UpstreamErrors m] reg))"

section \<open>Series\<close>

text \<open>The calls the gateway makes, see \<open>metric\<close>.\<close>

definition applyMetric :: "('r, 'm) prom_lib \<Rightarrow> MetricsCollector \<Rightarrow> metric \<Rightarrow> 'm \<Rightarrow> 'm option" where
  "applyMetric prom m x = (case x of
       IncRequests route method status \<Rightarrow> pl_update prom (RequestsTotal m) [route, method, status] Inc
     | ObserveDuration route method d \<Rightarrow> pl_update prom (RequestDuration m) [route, method] (Observe d)
     | ObserveRequestSize route n \<Rightarrow> pl_update prom (RequestSize m) [route] (Observe n)
     | ObserveResponseSize route n \<Rightarrow> pl_update prom (ResponseSize m) [route] (Observe n)
     | SetBreakerState route st v \<Rightarrow> pl_update prom (CircuitBreakerState m) [route, st] (SetTo (of_int v))
     | IncRateLimitRejected route mw \<Rightarrow> pl_update prom (RateLimitRejected m) [route, mw] Inc
     | IncRateLimitErrors route mw \<Rightarrow> pl_update prom (RateLimitErrors m) [route, mw] Inc)"

fun applyMetrics :: "('r, 'm) prom_lib \<Rightarrow> MetricsCollector \<Rightarrow> metric list \<Rightarrow> 'm \<Rightarrow> 'm option" where
  "applyMetrics prom m [] ss = Some ss"
| "applyMetrics prom m (x # xs) ss = Option.bind (applyMetric prom m x ss) (applyMetrics prom m xs)"

text \<open>The callback of a route's breaker.\<close>

definition stateChanged :: "string \<Rightarrow> State \<times> State \<Rightarrow> metric list" where
  "stateChanged route ft =
     [SetBreakerState route (State_String (snd ft)) 1, SetBreakerState route (State_String (fst ft)) 0]"

text \<open>What the gauge of a route shows for a state.\<close>

definition gauge :: "('r, 'm) prom_lib \<Rightarrow> string \<Rightarrow> 'm \<Rightarrow> State \<Rightarrow> sample option" where
  "gauge prom route ss st = pl_read prom ss (vec_name (CircuitBreakerState metricsCollector)) [route, State_String st]"

section \<open>What the client library promises\<close>

text \<open>\<open>utf8.ValidString\<close>: the encodings of RFC 3629, no surrogates and no overlong forms.\<close>

definition continues :: "char \<Rightarrow> bool" where
  "continues c \<longleftrightarrow> 128 \<le> byte c \<and> byte c \<le> 191"

fun ValidString :: "string \<Rightarrow> bool" where
  "ValidString [] \<longleftrightarrow> True"
| "ValidString (a # s) \<longleftrightarrow>
     (if byte a < 128 then ValidString s
      else if 194 \<le> byte a \<and> byte a \<le> 223 then
        (case s of b # t \<Rightarrow> continues b \<and> ValidString t | _ \<Rightarrow> False)
      else if 224 \<le> byte a \<and> byte a \<le> 239 then
        (case s of b # c # t \<Rightarrow> continues b \<and> (byte a = 224 \<longrightarrow> 160 \<le> byte b) \<and> (byte a = 237 \<longrightarrow> byte b \<le> 159) \<and>
           continues c \<and> ValidString t | _ \<Rightarrow> False)
      else if 240 \<le> byte a \<and> byte a \<le> 244 then
        (case s of b # c # d # t \<Rightarrow> continues b \<and> (byte a = 240 \<longrightarrow> 144 \<le> byte b) \<and> (byte a = 244 \<longrightarrow> byte b \<le> 143) \<and>
           continues c \<and> continues d \<and> ValidString t | _ \<Rightarrow> False)
      else False)"

text \<open>The names the client accepts in every version: letters, digits and underscores, not starting with a
  digit; colons in a metric name only; no label with two leading underscores. A vector is well formed
  when its labels are different, a histogram does not use the label \<open>le\<close>, and exponential buckets have a positive
  start, a factor above one and a positive count.\<close>

definition nameStart :: "char \<Rightarrow> bool" where
  "nameStart c \<longleftrightarrow> isUpper c \<or> isLower c \<or> c = CHR ''_''"

definition nameByte :: "char \<Rightarrow> bool" where
  "nameByte c \<longleftrightarrow> nameStart c \<or> (48 \<le> byte c \<and> byte c \<le> 57)"

fun isValidMetricName :: "string \<Rightarrow> bool" where
  "isValidMetricName [] \<longleftrightarrow> False"
| "isValidMetricName (c # s) \<longleftrightarrow> (nameStart c \<or> c = CHR '':'') \<and> list_all (\<lambda>d. nameByte d \<or> d = CHR '':'') s"

fun isValidLabelName :: "string \<Rightarrow> bool" where
  "isValidLabelName [] \<longleftrightarrow> False"
| "isValidLabelName (c # s) \<longleftrightarrow> nameStart c \<and> list_all nameByte s \<and> take 2 (c # s) \<noteq> ''__''"

fun validKind :: "vec_kind \<Rightarrow> string list \<Rightarrow> bool" where
  "validKind (HistogramVec (ExponentialBuckets start factor count)) labels \<longleftrightarrow>
     ''le'' \<notin> set labels \<and> 0 < start \<and> 1 < factor \<and> 0 < count"
| "validKind (HistogramVec DefBuckets) labels \<longleftrightarrow> ''le'' \<notin> set labels"
| "validKind _ _ \<longleftrightarrow> True"

definition valid_vec :: "vec \<Rightarrow> bool" where
  "valid_vec v \<longleftrightarrow> isValidMetricName (vec_name v) \<and> list_all isValidLabelName (vec_labels v) \<and>
     distinct (vec_labels v) \<and> validKind (vec_kind v) (vec_labels v)"

fun fits :: "update \<Rightarrow> vec_kind \<Rightarrow> bool" where
  "fits Inc CounterVec = True"
| "fits (SetTo x) GaugeVec = True"
| "fits (Observe x) (HistogramVec bs) = True"
| "fits _ _ = False"

text \<open>Registering panics when the name is taken or two labels are the same, and does not when the vector is
  well formed and its name free. A call on a well-formed vector does not panic when it has as many
  values as the vector has labels, each of them UTF-8, and is of the vector's kind; with another number of
  values or one that is not UTF-8 it does. Setting a gauge shows the value in that series and changes
  no other.\<close>

definition prom_documented :: "('r, 'm) prom_lib \<Rightarrow> bool" where
  "prom_documented prom \<longleftrightarrow>
     (\<forall>v reg. vec_name v \<in> pl_names prom reg \<or> \<not> distinct (vec_labels v) \<longrightarrow> pl_register prom v reg = None) \<and>
     (\<forall>v reg. valid_vec v \<longrightarrow> vec_name v \<notin> pl_names prom reg \<longrightarrow> pl_register prom v reg \<noteq> None) \<and>
     (\<forall>v reg reg'. pl_register prom v reg = Some reg' \<longrightarrow> pl_names prom reg' = insert (vec_name v) (pl_names prom reg)) \<and>
     (\<forall>v lvs u ss. length lvs \<noteq> length (vec_labels v) \<or> \<not> list_all ValidString lvs \<longrightarrow> pl_update prom v lvs u ss = None) \<and>
     (\<forall>v lvs u ss. valid_vec v \<longrightarrow> length lvs = length (vec_labels v) \<longrightarrow> list_all ValidString lvs \<longrightarrow>
        fits u (vec_kind v) \<longrightarrow> pl_update prom v lvs u ss \<noteq> None) \<and>
     (\<forall>v lvs x ss ss' name lvs'. vec_kind v = GaugeVec \<longrightarrow> pl_update prom v lvs (SetTo x) ss = Some ss' \<longrightarrow>
        pl_read prom ss' name lvs' = (if name = vec_name v \<and> lvs' = lvs then Some (Value x) else pl_read prom ss name lvs'))"

text \<open>The label values of a call.\<close>

fun metric_labels :: "metric \<Rightarrow> string list" where
  "metric_labels (IncRequests route method status) = [route, method, status]"
| "metric_labels (ObserveDuration route method d) = [route, method]"
| "metric_labels (ObserveRequestSize route n) = [route]"
| "metric_labels (ObserveResponseSize route n) = [route]"
| "metric_labels (SetBreakerState route st v) = [route, st]"
| "metric_labels (IncRateLimitRejected route mw) = [route, mw]"
| "metric_labels (IncRateLimitErrors route mw) = [route, mw]"

definition utf8_call :: "metric \<Rightarrow> bool" where
  "utf8_call x \<longleftrightarrow> list_all ValidString (metric_labels x)"

text \<open>The eight vectors, in the order of registration.\<close>

definition collectorVecs :: "MetricsCollector \<Rightarrow> vec list" where
  "collectorVecs m = [RequestsTotal m, RequestDuration m, RequestSize m, ResponseSize m, CircuitBreakerState m,
     RateLimitRejected m, RateLimitErrors m, UpstreamErrors m]"

section \<open>An example\<close>

text \<open>A registry that is the list of the names taken, and series kept in a map.\<close>

fun demo_updated :: "update \<Rightarrow> sample option \<Rightarrow> sample" where
  "demo_updated Inc (Some (Value x)) = Value (x + 1)"
| "demo_updated Inc _ = Value 1"
| "demo_updated (SetTo x) _ = Value x"
| "demo_updated (Observe x) (Some (Observations xs)) = Observations (xs @ [x])"
| "demo_updated (Observe x) _ = Observations [x]"

definition demo_prom :: "(string list, string \<times> string list \<rightharpoonup> sample) prom_lib" where
  "demo_prom = \<lparr>
     pl_register = (\<lambda>v reg. if vec_name v \<in> set reg \<or> \<not> valid_vec v then None else Some (vec_name v # reg)),
     pl_names = set,
     pl_update = (\<lambda>v lvs u ss.
       if length lvs \<noteq> length (vec_labels v) \<or> \<not> list_all ValidString lvs \<or> \<not> fits u (vec_kind v) then None
       else Some (ss((vec_name v, lvs) \<mapsto> demo_updated u (ss (vec_name v, lvs))))),
     pl_read = (\<lambda>ss name lvs. ss (name, lvs))\<rparr>"

section \<open>Lemmas\<close>

lemma State_String_inj [simp]: "State_String s = State_String t \<longleftrightarrow> s = t"
  by (cases s; cases t) (simp_all add: State_String_def)

lemma promD:
  assumes "prom_documented prom"
  shows "vec_name v \<in> pl_names prom reg \<Longrightarrow> pl_register prom v reg = None"
    "pl_register prom v reg = Some reg' \<Longrightarrow> pl_names prom reg' = insert (vec_name v) (pl_names prom reg)"
    "valid_vec v \<Longrightarrow> length lvs = length (vec_labels v) \<Longrightarrow> list_all ValidString lvs \<Longrightarrow> fits u (vec_kind v) \<Longrightarrow>
      \<exists>ss'. pl_update prom v lvs u ss = Some ss'"
    "vec_kind v = GaugeVec \<Longrightarrow> pl_update prom v lvs (SetTo x) ss = Some ss' \<Longrightarrow>
      pl_read prom ss' name lvs' = (if name = vec_name v \<and> lvs' = lvs then Some (Value x) else pl_read prom ss name lvs')"
    "valid_vec v \<Longrightarrow> vec_name v \<notin> pl_names prom reg \<Longrightarrow> \<exists>reg'. pl_register prom v reg = Some reg'"
    "\<not> list_all ValidString lvs \<Longrightarrow> pl_update prom v lvs u ss = None"
  using assms by (simp_all add: prom_documented_def)

lemma demo_prom_documented: "prom_documented demo_prom"
  unfolding prom_documented_def by (auto simp: demo_prom_def valid_vec_def)

text \<open>The eight vectors are well formed.\<close>

lemma metricsCollector_valid: "list_all valid_vec (collectorVecs metricsCollector)"
  by code_simp

lemma valid_vecs:
  "valid_vec (RequestsTotal metricsCollector)" "valid_vec (RequestDuration metricsCollector)"
  "valid_vec (RequestSize metricsCollector)" "valid_vec (ResponseSize metricsCollector)"
  "valid_vec (CircuitBreakerState metricsCollector)" "valid_vec (RateLimitRejected metricsCollector)"
  "valid_vec (RateLimitErrors metricsCollector)"
  using metricsCollector_valid by (simp_all add: collectorVecs_def)

lemma vec_shapes:
  "length (vec_labels (RequestsTotal metricsCollector)) = 3" "vec_kind (RequestsTotal metricsCollector) = CounterVec"
  "length (vec_labels (RequestDuration metricsCollector)) = 2"
  "vec_kind (RequestDuration metricsCollector) = HistogramVec DefBuckets"
  "length (vec_labels (RequestSize metricsCollector)) = 1"
  "vec_kind (RequestSize metricsCollector) = HistogramVec (ExponentialBuckets 100 10 6)"
  "length (vec_labels (ResponseSize metricsCollector)) = 1"
  "vec_kind (ResponseSize metricsCollector) = HistogramVec (ExponentialBuckets 100 10 6)"
  "length (vec_labels (CircuitBreakerState metricsCollector)) = 2" "vec_kind (CircuitBreakerState metricsCollector) = GaugeVec"
  "length (vec_labels (RateLimitRejected metricsCollector)) = 2" "vec_kind (RateLimitRejected metricsCollector) = CounterVec"
  "length (vec_labels (RateLimitErrors metricsCollector)) = 2" "vec_kind (RateLimitErrors metricsCollector) = CounterVec"
  by (simp_all add: metricsCollector_def)

lemma applyMetric_total:
  "prom_documented prom \<Longrightarrow> utf8_call x \<Longrightarrow> \<exists>ss'. applyMetric prom metricsCollector x ss = Some ss'"
  unfolding applyMetric_def utf8_call_def
  by (cases x) (simp_all add: promD(3) valid_vecs vec_shapes)

lemma applyMetrics_total:
  "prom_documented prom \<Longrightarrow> list_all utf8_call xs \<Longrightarrow> \<exists>ss'. applyMetrics prom metricsCollector xs ss = Some ss'"
proof (induction xs arbitrary: ss)
  case (Cons x xs)
  obtain ss' where "applyMetric prom metricsCollector x ss = Some ss'"
    using applyMetric_total [OF Cons.prems(1)] Cons.prems(2) by force
  with Cons.IH [OF Cons.prems(1), of ss'] Cons.prems(2) show ?case
    by simp
qed simp

text \<open>The calls of the metrics middleware and of a breaker's callback, for a route and a method in UTF-8.\<close>

lemma State_String_utf8: "ValidString (State_String st)"
  by (cases st) (simp_all add: State_String_def byte_def)

lemma ValidString_ascii: "list_all (\<lambda>c. byte c < 128) s \<Longrightarrow> ValidString s"
  by (induction s) auto

lemma natToString_ascii: "list_all (\<lambda>c. byte c < 128) (natToString n)"
proof (induction n rule: natToString.induct)
  case (1 n)
  have "n mod 10 < 10"
    by simp
  then have "byte (char_of (48 + n mod 10)) < 128"
    by (simp add: byte_def del: mod_less_divisor)
  with 1 show ?case
    by (cases "n < 10") (simp_all add: natToString.simps [of n])
qed

lemma Itoa_utf8: "ValidString (Itoa i)"
  by (rule ValidString_ascii) (simp add: Itoa_def natToString_ascii, simp add: byte_def)

lemma requestMetrics_utf8:
  "ValidString route \<Longrightarrow> ValidString (Method r) \<Longrightarrow> list_all utf8_call (requestMetrics route r duration ww)"
  by (simp add: requestMetrics_def utf8_call_def Itoa_utf8)

lemma stateChanged_utf8: "ValidString route \<Longrightarrow> list_all utf8_call (stateChanged route ft)"
  by (simp add: stateChanged_def utf8_call_def State_String_utf8)

lemma applyMetric_utf8:
  "prom_documented prom \<Longrightarrow> applyMetric prom metricsCollector x ss = Some ss' \<Longrightarrow> utf8_call x"
proof (rule ccontr)
  assume doc: "prom_documented prom" and "applyMetric prom metricsCollector x ss = Some ss'" and "\<not> utf8_call x"
  then show False
    using promD(6) [OF doc] unfolding applyMetric_def utf8_call_def by (cases x) (simp_all only: metric.case metric_labels.simps, force+)
qed

lemma applyMetrics_iff:
  assumes "prom_documented prom"
  shows "applyMetrics prom metricsCollector xs ss \<noteq> None \<longleftrightarrow> list_all utf8_call xs"
proof
  assume "applyMetrics prom metricsCollector xs ss \<noteq> None"
  then show "list_all utf8_call xs"
  proof (induction xs arbitrary: ss)
    case (Cons x xs)
    then obtain ss' where "applyMetric prom metricsCollector x ss = Some ss'" "applyMetrics prom metricsCollector xs ss' \<noteq> None"
      by (cases "applyMetric prom metricsCollector x ss") auto
    then show ?case
      using Cons.IH applyMetric_utf8 [OF assms] by simp
  qed simp
qed (use applyMetrics_total [OF assms] in auto)

lemma applyMetrics_append:
  "applyMetrics prom m (xs @ ys) ss = Option.bind (applyMetrics prom m xs ss) (applyMetrics prom m ys)"
proof (induction xs arbitrary: ss)
  case (Cons x xs)
  then show ?case
    by (cases "applyMetric prom m x ss") simp_all
qed simp

lemma MustRegister_iff:
  assumes "prom_documented prom"
  shows "list_all valid_vec vs \<Longrightarrow> MustRegister prom vs reg \<noteq> None \<longleftrightarrow>
    distinct (map vec_name vs) \<and> set (map vec_name vs) \<inter> pl_names prom reg = {}"
proof (induction vs arbitrary: reg)
  case (Cons v vs)
  show ?case
  proof (cases "pl_register prom v reg")
    case None
    then show ?thesis
      using promD(5) [OF assms, of v reg] Cons.prems by auto
  next
    case (Some reg')
    then have "vec_name v \<notin> pl_names prom reg"
      using promD(1) [OF assms, of v reg] by auto
    with Some show ?thesis
      using Cons.IH [of reg'] Cons.prems promD(2) [OF assms Some] by auto
  qed
qed simp

lemma MustRegister_names:
  assumes "prom_documented prom"
  shows "MustRegister prom vs reg = Some reg' \<Longrightarrow> pl_names prom reg' = set (map vec_name vs) \<union> pl_names prom reg"
proof (induction vs arbitrary: reg)
  case (Cons v vs)
  then obtain reg1 where "pl_register prom v reg = Some reg1" "MustRegister prom vs reg1 = Some reg'"
    by (auto simp: bind_eq_Some_conv)
  then show ?case
    using Cons.IH [of reg1] promD(2) [OF assms, of v reg reg1] by simp
qed simp

lemma gauge_stateChanged:
  assumes doc: "prom_documented prom"
    and "applyMetrics prom metricsCollector (stateChanged route (a, b)) ss = Some ss'" "a \<noteq> b"
  shows "gauge prom route ss' = (gauge prom route ss)(b \<mapsto> Value 1, a \<mapsto> Value 0)"
proof -
  let ?v = "CircuitBreakerState metricsCollector"
  obtain ss1 where "pl_update prom ?v [route, State_String b] (SetTo 1) ss = Some ss1"
    "pl_update prom ?v [route, State_String a] (SetTo 0) ss1 = Some ss'"
    using assms(2) by (auto simp: stateChanged_def applyMetric_def bind_eq_Some_conv)
  moreover have "vec_kind ?v = GaugeVec"
    by (simp add: metricsCollector_def)
  ultimately show ?thesis
    by (auto simp: gauge_def fun_eq_iff promD(4) [OF doc, of ?v])
qed

lemma transitions_utf8: "ValidString route \<Longrightarrow> list_all utf8_call (concat (map (stateChanged route) fts))"
  by (induction fts) (simp_all add: stateChanged_utf8)

text \<open>Transitions reported in the order in which they happened.\<close>

lemma path_gauge:
  assumes doc: "prom_documented prom" and new: "\<forall>st. gauge prom route ss0 st = None" and "path_to r s"
    and "applyMetrics prom metricsCollector (concat (map (stateChanged route) (rev r))) ss0 = Some ss"
  shows "(\<forall>st. gauge prom route ss st = Some (Value 1) \<longrightarrow> st = s) \<and> (r \<noteq> [] \<longrightarrow> gauge prom route ss s = Some (Value 1)) \<and>
    (\<forall>st. gauge prom route ss st \<in> {None, Some (Value 0), Some (Value 1)})"
  using assms(3,4)
proof (induction r arbitrary: s ss)
  case Nil
  then show ?case
    using new by simp
next
  case (Cons x r)
  obtain a where x: "x = (a, s)" "legal a s" "path_to r a"
    using Cons.prems(1) by (cases x) auto
  then have "a \<noteq> s"
    by (cases a) auto
  obtain ss1 where ss1: "applyMetrics prom metricsCollector (concat (map (stateChanged route) (rev r))) ss0 = Some ss1"
    and next1: "applyMetrics prom metricsCollector (stateChanged route (a, s)) ss1 = Some ss"
    using Cons.prems(2) x(1) by (auto simp: applyMetrics_append bind_eq_Some_conv)
  show ?case
    using Cons.IH [OF x(3) ss1] gauge_stateChanged [OF doc next1 \<open>a \<noteq> s\<close>] \<open>a \<noteq> s\<close> by auto
qed

lemma reported_path:
  assumes "cb_steps (cb_init cfg name t) ls s"
  shows "path_to (reported s) (state (breaker s))"
  by (rule cb_steps_invariant [OF assms, where P = "\<lambda>_. True"])
    (auto simp: cb_init_def cb_New_def intro: cb_step_path)

section \<open>Properties\<close>

text \<open>C31: The eight vectors of the collector are well formed (valid and different names, different labels, no
  reserved label), so it registers exactly on a registry that has none of its names, and registering
  twice panics. From then on a call the gateway makes on its vectors panics exactly when one of the
  call's label values (route, middleware name, method, status, state) is not UTF-8: every call gives as many values
  as the vector has labels, and the operation is one of the vector's kind.\<close>

theorem metrics_calls_never_panic:
  assumes "prom_documented prom"
  shows "(NewMetricsCollector prom reg \<noteq> None \<longleftrightarrow> pl_names prom reg \<inter> {''gateway_requests_total'',
      ''gateway_request_duration_seconds'', ''gateway_request_size_bytes'', ''gateway_response_size_bytes'',
      ''gateway_circuit_breaker_state'', ''gateway_rate_limit_rejected_total'', ''gateway_rate_limit_errors_total'',
      ''gateway_upstream_errors_total''} = {}) \<and>
   (\<forall>m reg'. NewMetricsCollector prom reg = Some (m, reg') \<longrightarrow> NewMetricsCollector prom reg' = None \<and>
      (\<forall>calls ss. applyMetrics prom m calls ss \<noteq> None \<longleftrightarrow> (\<forall>x \<in> set calls. \<forall>v \<in> set (metric_labels x). ValidString v)))"
proof (intro conjI allI impI)
  show "NewMetricsCollector prom reg \<noteq> None \<longleftrightarrow> pl_names prom reg \<inter> {''gateway_requests_total'',
      ''gateway_request_duration_seconds'', ''gateway_request_size_bytes'', ''gateway_response_size_bytes'',
      ''gateway_circuit_breaker_state'', ''gateway_rate_limit_rejected_total'', ''gateway_rate_limit_errors_total'',
      ''gateway_upstream_errors_total''} = {}"
    unfolding NewMetricsCollector_def Let_def option.map_disc_iff
      MustRegister_iff [OF assms metricsCollector_valid [unfolded collectorVecs_def]]
    by (auto simp: metricsCollector_def)
next
  fix m reg'
  assume new: "NewMetricsCollector prom reg = Some (m, reg')"
  have m: "m = metricsCollector" and reg': "MustRegister prom (collectorVecs metricsCollector) reg = Some reg'"
    using new unfolding NewMetricsCollector_def Let_def collectorVecs_def
    by (simp_all only: map_option_eq_Some prod.inject) blast+
  have "vec_name (RequestsTotal metricsCollector) \<in> pl_names prom reg'"
    unfolding MustRegister_names [OF assms reg'] by (simp add: collectorVecs_def)
  then have "pl_register prom (RequestsTotal metricsCollector) reg' = None"
    using promD(1) [OF assms] by blast
  then show "NewMetricsCollector prom reg' = None"
    unfolding NewMetricsCollector_def Let_def by simp
  fix calls ss
  show "applyMetrics prom m calls ss \<noteq> None \<longleftrightarrow> (\<forall>x \<in> set calls. \<forall>v \<in> set (metric_labels x). ValidString v)"
    unfolding m applyMetrics_iff [OF assms] by (simp add: utf8_call_def list_all_iff)
qed

theorem metrics_calls_never_panic_witness:
  "\<exists>m reg'. NewMetricsCollector demo_prom [''go_goroutines''] = Some (m, reg') \<and>
     applyMetrics demo_prom m [IncRequests ''r'' ''GET'' ''200'', IncRateLimitErrors ''r'' ''l''] Map.empty \<noteq> None \<and>
     applyMetrics demo_prom m [ObserveRequestSize [char_of (255 :: nat)] 1] Map.empty = None \<and>
     NewMetricsCollector demo_prom reg' = None"
proof -
  note ok = metrics_calls_never_panic [OF demo_prom_documented, of "[''go_goroutines'']"]
  have "pl_names demo_prom [''go_goroutines''] = {''go_goroutines''}"
    by (simp add: demo_prom_def)
  then have "NewMetricsCollector demo_prom [''go_goroutines''] \<noteq> None"
    using conjunct1 [OF ok] by simp
  then obtain m reg' where new: "NewMetricsCollector demo_prom [''go_goroutines''] = Some (m, reg')"
    by (metis not_None_eq surj_pair)
  note calls = conjunct2 [OF ok, THEN spec, THEN spec, THEN mp, OF new]
  have "ValidString ''r''" "ValidString ''GET''" "ValidString ''200''" "ValidString ''l''" "\<not> ValidString [char_of (255 :: nat)]"
    by (simp_all add: byte_def)
  then have "applyMetrics demo_prom m [IncRequests ''r'' ''GET'' ''200'', IncRateLimitErrors ''r'' ''l''] Map.empty \<noteq> None"
    "applyMetrics demo_prom m [ObserveRequestSize [char_of (255 :: nat)] 1] Map.empty = None"
    using conjunct2 [OF calls, THEN spec, THEN spec, of "[IncRequests ''r'' ''GET'' ''200'', IncRateLimitErrors ''r'' ''l'']" Map.empty]
      conjunct2 [OF calls, THEN spec, THEN spec, of "[ObserveRequestSize [char_of (255 :: nat)] 1]" Map.empty]
    by (simp_all del: ValidString.simps applyMetrics.simps)
  with calls [THEN conjunct1] new show ?thesis
    by blast
qed

text \<open>C32: The gauges of a route follow a breaker that has them for itself: when the route's gauges start empty, the
  callbacks of the transitions run in the order of the transitions and the breaker has made at
  least one, exactly the gauge of its current state is 1 and every other one is 0 or not there. (Before the
  first transition no gauge is there; a reload makes a new breaker and leaves the old one's series.)\<close>

theorem gauge_follows_breaker:
  assumes "prom_documented prom" and "\<forall>st. gauge prom name ss0 st = None"
    and "cb_steps (cb_init cfg name t) ls s" and "reported s \<noteq> []"
    and "applyMetrics prom metricsCollector (concat (map (stateChanged name) (rev (reported s)))) ss0 = Some ss"
  shows "gauge prom name ss (state (breaker s)) = Some (Value 1) \<and>
    (\<forall>st. st \<noteq> state (breaker s) \<longrightarrow> gauge prom name ss st \<in> {None, Some (Value 0)})"
  using path_gauge [OF assms(1,2) reported_path [OF assms(3)] assms(5)] assms(4) by blast

theorem gauge_follows_breaker_witness:
  "\<exists>s ss. cb_run [Enter 1, Leave 1 True, Tick 5, Enter 2]
       (cb_init \<lparr>FailureThreshold = 1, SuccessThreshold = 1, CBTimeout = 5\<rparr> ''r'' 0) = Some s \<and>
     applyMetrics demo_prom metricsCollector (concat (map (stateChanged ''r'') (rev (reported s)))) Map.empty = Some ss \<and>
     gauge demo_prom ''r'' ss StateHalfOpen = Some (Value 1) \<and> gauge demo_prom ''r'' ss StateOpen \<in> {None, Some (Value 0)}"
proof -
  let ?s0 = "cb_init \<lparr>FailureThreshold = 1, SuccessThreshold = 1, CBTimeout = 5\<rparr> ''r'' 0"
  let ?ls = "[Enter 1, Leave 1 True, Tick 5, Enter 2]"
  have "\<exists>s. cb_run ?ls ?s0 = Some s \<and> state (breaker s) = StateHalfOpen \<and> reported s \<noteq> []"
    by (simp add: cb_fire_def section_defs cb_init_def cb_New_def report_def Sub_def maxInt64_def minInt64_def)
  then obtain s where s: "cb_run ?ls ?s0 = Some s" "state (breaker s) = StateHalfOpen" "reported s \<noteq> []"
    by blast
  obtain ss where ss: "applyMetrics demo_prom metricsCollector (concat (map (stateChanged ''r'') (rev (reported s)))) Map.empty = Some ss"
    using applyMetrics_total [OF demo_prom_documented transitions_utf8 [of "''r''"]] by (auto simp: byte_def)
  have "\<forall>st. gauge demo_prom ''r'' Map.empty st = None"
    by (simp add: gauge_def demo_prom_def)
  from gauge_follows_breaker [OF demo_prom_documented this cb_run_steps [OF s(1)] s(3) ss] s(1,2) ss show ?thesis
    by auto
qed

text \<open>The callbacks run after the lock is released, so those of two calls can change places; then two
  states show 1.\<close>

theorem swapped_callbacks_show_two_states:
  assumes "prom_documented prom" and "applyMetrics prom metricsCollector
    (stateChanged route (StateOpen, StateHalfOpen) @ stateChanged route (StateClosed, StateOpen)) ss = Some ss'"
  shows "gauge prom route ss' StateOpen = Some (Value 1) \<and> gauge prom route ss' StateHalfOpen = Some (Value 1)"
proof -
  obtain ss1 where "applyMetrics prom metricsCollector (stateChanged route (StateOpen, StateHalfOpen)) ss = Some ss1"
    "applyMetrics prom metricsCollector (stateChanged route (StateClosed, StateOpen)) ss1 = Some ss'"
    using assms(2) by (auto simp: applyMetrics_append bind_eq_Some_conv)
  then show ?thesis
    using gauge_stateChanged [OF assms(1)] by auto
qed

end
