(* ===== verification/Buckets.thy ===== *)
theory Buckets
  imports MemoryLimiter
begin

text \<open>
  Concurrent calls of the memory limiter of \<open>internal/middleware/ratelimit/memory.go\<close>. The
  \<open>sync.Map\<close> holds pointers: buckets live in a heap, the table maps keys to addresses. A call reads the
  clock, then finds or creates its bucket with \<open>LoadOrStore\<close>, then does the rest under the bucket's
  mutex; each of the three is one action, and the actions of any number of calls interleave with each
  other and with the clock. A call keeps the address it found. The eviction goroutine reads the clock
  once per sweep; for each key it looks at the bucket under the bucket's mutex and deletes the key after
  it has let the mutex go, which is two actions more.
\<close>

section \<open>The section under the mutex\<close>

definition lockedAllow :: "int \<Rightarrow> int \<Rightarrow> int \<Rightarrow> bucket \<Rightarrow> (bool \<times> int \<times> int) \<times> bucket" where
  "lockedAllow now limit window b0 =
     (let b1 = b0\<lparr>maxTokens := fl (of_int limit), refillRate := fl (fl (of_int limit) / Seconds window)\<rparr>;
          b2 = (refill now b1)\<lparr>lastAccess := now\<rparr>;
          resetAt = now + window
      in if 1 \<le> tokens b2
         then (let b3 = b2\<lparr>tokens := fl (tokens b2 - 1)\<rparr> in ((True, \<lfloor>tokens b3\<rfloor>, resetAt), b3))
         else ((False, 0, resetAt), b2))"

section \<open>Interleaved calls\<close>

datatype stage =
    Started string int int int
  | Found nat string int int int

record buckets =
  table :: "string \<rightharpoonup> nat"
  heap :: "nat \<Rightarrow> bucket"
  alloc :: nat
  wall :: int
  calls :: "nat \<rightharpoonup> stage"
  sweeping :: "int option"
  doomed :: "string option"
  granted_keys :: "string list"
  locks :: nat

datatype bucket_act =
    Begin nat string int int
  | Lookup nat
  | Locked nat
  | StartSweep
  | Inspect string
  | Delete
  | Elapse int

text \<open>\<open>granted_keys\<close> and \<open>locks\<close> record the calls that passed and how many were decided.\<close>

fun perform :: "bucket_act \<Rightarrow> buckets \<Rightarrow> buckets" where
  "perform (Begin i key limit window) s =
     (case calls s i of
        None \<Rightarrow> s\<lparr>calls := (calls s)(i \<mapsto> Started key limit window (wall s))\<rparr>
      | Some _ \<Rightarrow> s)"
| "perform (Lookup i) s =
     (case calls s i of
        Some (Started key limit window now) \<Rightarrow>
          (case table s key of
             Some a \<Rightarrow> s\<lparr>calls := (calls s)(i \<mapsto> Found a key limit window now)\<rparr>
           | None \<Rightarrow>
               s\<lparr>table := (table s)(key \<mapsto> alloc s), heap := (heap s)(alloc s := newBucket now limit window),
                 alloc := Suc (alloc s), calls := (calls s)(i \<mapsto> Found (alloc s) key limit window now)\<rparr>)
      | _ \<Rightarrow> s)"
| "perform (Locked i) s =
     (case calls s i of
        Some (Found a key limit window now) \<Rightarrow>
          (case lockedAllow now limit window (heap s a) of
             ((allowed, _, _), b) \<Rightarrow>
               s\<lparr>heap := (heap s)(a := b), calls := (calls s)(i := None),
                 granted_keys := (if allowed then key # granted_keys s else granted_keys s), locks := Suc (locks s)\<rparr>)
      | _ \<Rightarrow> s)"
| "perform StartSweep s = (if doomed s = None then s\<lparr>sweeping := Some (wall s)\<rparr> else s)"
| "perform (Inspect key) s =
     (case (sweeping s, doomed s, table s key) of
        (Some now, None, Some a) \<Rightarrow>
          if evictionTTL < Sub now (lastAccess (heap s a)) then s\<lparr>doomed := Some key\<rparr> else s
      | _ \<Rightarrow> s)"
| "perform Delete s =
     (case doomed s of
        Some key \<Rightarrow> s\<lparr>table := (table s)(key := None), doomed := None\<rparr>
      | None \<Rightarrow> s)"
| "perform (Elapse d) s = (if 0 \<le> d then s\<lparr>wall := wall s + d\<rparr> else s)"

text \<open>The calls for \<open>key\<close> all have one configuration.\<close>

definition configuredFor :: "string \<Rightarrow> int \<Rightarrow> int \<Rightarrow> bucket_act list \<Rightarrow> bool" where
  "configuredFor key limit window acts \<longleftrightarrow>
     list_all (\<lambda>x. case x of Begin _ k l w \<Rightarrow> k = key \<longrightarrow> l = limit \<and> w = window | _ \<Rightarrow> True) acts"

definition fresh :: "int \<Rightarrow> buckets" where
  "fresh t = \<lparr>table = Map.empty, heap = (\<lambda>_. newBucket 0 0 1), alloc = 0, wall = t, calls = Map.empty,
     sweeping = None, doomed = None, granted_keys = [], locks = 0\<rparr>"

text \<open>A call that nothing interrupts.\<close>

definition oneCall :: "nat \<Rightarrow> string \<Rightarrow> int \<Rightarrow> int \<Rightarrow> bucket_act list" where
  "oneCall i key limit window = [Begin i key limit window, Lookup i, Locked i]"

section \<open>Invariant\<close>

text \<open>Until a key is deleted every call holds the bucket its key has in the table, and no two keys share one.\<close>

definition linked :: "buckets \<Rightarrow> bool" where
  "linked s \<longleftrightarrow>
     (\<forall>i a k l w t. calls s i = Some (Found a k l w t) \<longrightarrow> table s k = Some a) \<and>
     (\<forall>k a. table s k = Some a \<longrightarrow> a < alloc s) \<and>
     (\<forall>k k' a. table s k = Some a \<longrightarrow> table s k' = Some a \<longrightarrow> k = k')"

text \<open>The calls in progress for \<open>key\<close> have its configuration and read the clock since \<open>start\<close>.\<close>

fun stage_ok :: "string \<Rightarrow> int \<Rightarrow> int \<Rightarrow> int \<Rightarrow> int \<Rightarrow> stage \<Rightarrow> bool" where
  "stage_ok key limit window start now (Started k l w t) \<longleftrightarrow>
     start \<le> t \<and> t \<le> now \<and> (k = key \<longrightarrow> l = limit \<and> w = window)"
| "stage_ok key limit window start now (Found a k l w t) \<longleftrightarrow>
     start \<le> t \<and> t \<le> now \<and> (k = key \<longrightarrow> l = limit \<and> w = window)"

definition bucket_since :: "int \<Rightarrow> int \<Rightarrow> int \<Rightarrow> bucket \<Rightarrow> bool" where
  "bucket_since limit start now b \<longleftrightarrow> bucket_ok limit b \<and> start \<le> lastRefill b \<and> lastRefill b \<le> now"

text \<open>What a bucket can still give until \<open>tend\<close>; a key without one will start with the whole limit.\<close>

definition hold :: "int \<Rightarrow> int \<Rightarrow> int \<Rightarrow> bucket \<Rightarrow> rat" where
  "hold limit window tend b = tokens b + earned limit window (tend - lastRefill b)"

definition balance :: "string \<Rightarrow> int \<Rightarrow> int \<Rightarrow> int \<Rightarrow> int \<Rightarrow> buckets \<Rightarrow> rat" where
  "balance key limit window start tend s = of_nat (count_list (granted_keys s) key) +
     (case table s key of
        None \<Rightarrow> of_int limit + earned limit window (tend - start)
      | Some a \<Rightarrow> hold limit window tend (heap s a))"

definition budget :: "string \<Rightarrow> int \<Rightarrow> int \<Rightarrow> int \<Rightarrow> int \<Rightarrow> buckets \<Rightarrow> bool" where
  "budget key limit window start tend s \<longleftrightarrow>
     linked s \<and> start \<le> wall s \<and>
     (\<forall>i g. calls s i = Some g \<longrightarrow> stage_ok key limit window start (wall s) g) \<and>
     (\<forall>a. table s key = Some a \<longrightarrow> bucket_since limit start (wall s) (heap s a)) \<and>
     balance key limit window start tend s \<le>
       of_int limit + earned limit window (tend - start) + of_nat (locks s) * (of_int limit / 2 ^ 53)"

section \<open>One section under the mutex\<close>

lemma memory_Allow_locked:
  "memory_Allow now key limit window m =
     (case LoadOrStore key (newBucket now limit window) m of (b, m1) \<Rightarrow>
        (case lockedAllow now limit window b of (res, b') \<Rightarrow> (res, m1(key \<mapsto> b'))))"
  by (simp add: memory_Allow_def lockedAllow_def Let_def case_prod_unfold)

lemma lockedAllow_access: "lockedAllow now limit window (b\<lparr>lastAccess := t\<rparr>) = lockedAllow now limit window b"
  by (simp add: lockedAllow_def refill_def Let_def)

lemma Seconds_nonpos: "d \<le> 0 \<Longrightarrow> Seconds d \<le> 0"
proof -
  assume "d \<le> 0"
  have le: "x \<le> 0 \<Longrightarrow> fl x \<le> 0" for x
    using fl_mono [of x 0] by simp
  have q: "quot d second_ns = - ((- d) div second_ns)"
    using \<open>d \<le> 0\<close> by (cases "d = 0") (simp_all add: quot_def sgn_if)
  have "0 \<le> (- d) div second_ns"
    using \<open>d \<le> 0\<close> by (simp add: pos_imp_zdiv_nonneg_iff)
  moreover have "second_ns * ((- d) div second_ns) \<le> - d"
    using minus_mod_eq_mult_div [of "- d" second_ns] pos_mod_sign [of second_ns "- d"] by linarith
  ultimately have "quot d second_ns \<le> 0" "rem d second_ns \<le> 0"
    unfolding rem_def q by linarith+
  then have "rat_of_int (quot d second_ns) \<le> 0" "rat_of_int (rem d second_ns) \<le> 0"
    by simp_all
  then have "fl (of_int (quot d second_ns)) \<le> 0" "fl (fl (of_int (rem d second_ns)) / 10 ^ 9) \<le> 0"
    using le [of "of_int (rem d second_ns)"] by (auto intro!: le divide_nonpos_pos)
  then show ?thesis
    unfolding Seconds_def by (intro le) linarith
qed

text \<open>A call pays for the request it admits, also when a later reading of the clock got to the
  bucket first.\<close>

lemma lockedAllow_pays:
  assumes "bucket_since limit start wl b" "wl - start \<le> maxInt64" "start \<le> now" "now \<le> wl"
    and "1 \<le> limit" "limit \<le> 2 ^ 53" "0 < window" "window \<le> maxInt64"
    and run: "lockedAllow now limit window b = ((ok, rest, reset), b')"
  shows "bucket_since limit start wl b' \<and>
    hold limit window tend b' + (if ok then 1 else 0) \<le> hold limit window tend b + of_int limit / 2 ^ 53"
proof (cases "lastRefill b \<le> now")
  case True
  let ?b = "b\<lparr>lastAccess := lastRefill b\<rparr>"
  have since: "since start [] now limit [[] \<mapsto> ?b]"
    using assms(1) True by (simp add: since_def bucket_since_def bucket_ok_def)
  have "memory_Allow now [] limit window [[] \<mapsto> ?b] = ((ok, rest, reset), [[] \<mapsto> b'])"
    by (simp add: memory_Allow_locked LoadOrStore_def lockedAllow_access run)
  from Allow_pays [OF since assms(3) _ assms(5-8) this] assms(2,4)
  have "since start [] now limit [[] \<mapsto> b']"
    and pays: "tokens b' + earned limit window (now - lastRefill b') + (if ok then 1 else 0) \<le>
      tokens b + earned limit window (now - lastRefill b) + of_int limit / 2 ^ 53"
    by (simp_all add: pot_def)
  then have "bucket_since limit start wl b'"
    using assms(4) by (auto simp: since_def bucket_since_def)
  with pays show ?thesis
    using earned_add [OF assms(7), of limit now "lastRefill b" tend] earned_add [OF assms(7), of limit now "lastRefill b'" tend]
    by (simp add: hold_def)
next
  case False
  have ok: "representable (tokens b)" "0 \<le> tokens b" "tokens b \<le> of_int limit"
    using assms(1) by (simp_all add: bucket_since_def bucket_ok_def)
  have "rat_of_int limit \<le> of_int (2 ^ 53)"
    using assms(6) by (simp only: of_int_le_iff)
  then have top: "tokens b \<le> 2 ^ 53"
    using ok(3) by simp
  have "Sub now (lastRefill b) \<le> 0"
    using False by (simp add: Sub_def minInt64_def)
  then have "refill now (b\<lparr>maxTokens := x, refillRate := y\<rparr>) = b\<lparr>maxTokens := x, refillRate := y\<rparr>" for x y
    using Seconds_nonpos [of "Sub now (lastRefill b)"] by (simp add: refill_def Let_def)
  then have b': "tokens b' = (if ok then tokens b - 1 else tokens b)" "lastRefill b' = lastRefill b" "ok \<longrightarrow> 1 \<le> tokens b"
    using run fl_dec [OF ok(1) _ top] by (auto simp: lockedAllow_def Let_def split: if_splits)
  then have "representable (tokens b')"
    using ok(1) representable_dec [OF ok(1) _ top] by simp
  then have "bucket_since limit start wl b'"
    using assms(1) ok b' by (auto simp: bucket_since_def bucket_ok_def split: if_splits)
  moreover have "0 \<le> rat_of_int limit / 2 ^ 53"
    using assms(5) by simp
  ultimately show ?thesis
    using b' by (auto simp: hold_def)
qed

section \<open>Every action keeps the budget\<close>

lemma budgetD:
  assumes "budget key limit window start tend s"
  shows "linked s" "start \<le> wall s" "calls s i = Some g \<Longrightarrow> stage_ok key limit window start (wall s) g"
    "table s key = Some a \<Longrightarrow> bucket_since limit start (wall s) (heap s a)"
    "balance key limit window start tend s \<le>
       of_int limit + earned limit window (tend - start) + of_nat (locks s) * (of_int limit / 2 ^ 53)"
  using assms by (auto simp: budget_def)

lemma linkedD:
  assumes "linked s"
  shows "calls s i = Some (Found a k l w t) \<Longrightarrow> table s k = Some a" "table s k = Some a \<Longrightarrow> a < alloc s"
    "table s k = Some a \<Longrightarrow> table s k' = Some a \<Longrightarrow> k = k'"
  using assms unfolding linked_def by blast+

lemma stage_ok_later: "stage_ok key limit window start t g \<Longrightarrow> t \<le> u \<Longrightarrow> stage_ok key limit window start u g"
  by (cases g) auto

lemma budget_Begin:
  assumes "budget key limit window start tend s" "k = key \<longrightarrow> l = limit \<and> w = window"
  shows "budget key limit window start tend (perform (Begin i k l w) s)"
  using assms by (auto simp: budget_def linked_def balance_def split: option.splits)

lemma budget_Elapse:
  assumes "budget key limit window start tend s"
  shows "budget key limit window start tend (perform (Elapse d) s)"
proof (cases "0 \<le> d")
  case True
  have "stage_ok key limit window start (wall s + d) g" if "calls s i = Some g" for i g
    using stage_ok_later [OF budgetD(3) [OF assms that], of "wall s + d"] True by simp
  with True assms show ?thesis
    by (auto simp: budget_def linked_def balance_def bucket_since_def split: option.splits)
qed (use assms in simp)

lemma budget_Lookup:
  assumes b: "budget key limit window start tend s" and lim: "1 \<le> limit" "limit \<le> 2 ^ 53" "0 < window"
  shows "budget key limit window start tend (perform (Lookup i) s)"
proof (cases "calls s i")
  case (Some g)
  show ?thesis
  proof (cases g)
    case (Started k l w t)
    note st = budgetD(3) [OF b Some, unfolded Started, simplified]
    show ?thesis
    proof (cases "table s k")
      case (Some a)
      with \<open>calls s i = Some g\<close> Started st b show ?thesis
        by (auto simp: budget_def linked_def balance_def split: option.splits)
    next
      case None
      define s2 where s': "s2 = s\<lparr>table := (table s)(k \<mapsto> alloc s), heap := (heap s)(alloc s := newBucket t l w),
          alloc := Suc (alloc s), calls := (calls s)(i \<mapsto> Found (alloc s) k l w t)\<rparr>"
      then have eq: "perform (Lookup i) s = s2"
        using \<open>calls s i = Some g\<close> Started None by simp
      have frame: "wall s2 = wall s" "locks s2 = locks s"
        by (simp_all add: s')
      have link: "linked s" "a < alloc s" if "table s k' = Some a" for k' a
        using budgetD(1) [OF b] that by (auto simp: linked_def)
      have "linked s2"
        using linkedD [OF budgetD(1) [OF b]] None unfolding s' linked_def
        by (auto split: if_splits dest: less_SucI) (force dest: linkedD [OF budgetD(1) [OF b]])+
      moreover have "\<forall>j g. calls s2 j = Some g \<longrightarrow> stage_ok key limit window start (wall s2) g"
        using b st unfolding s' by (auto simp: budget_def split: if_splits)
      moreover have "bucket_since limit start (wall s) (newBucket t limit window)"
        using st fl_limit [OF lim(1,2)] lim representable_int [of limit]
        by (simp add: bucket_since_def bucket_ok_def newBucket_def)
      then have "\<forall>a. table s2 key = Some a \<longrightarrow> bucket_since limit start (wall s2) (heap s2 a)"
        using b st link unfolding s' by (auto simp: budget_def split: if_splits)
      moreover have "balance key limit window start tend s2 \<le> balance key limit window start tend s"
      proof (cases "k = key")
        case True
        have "earned limit window (tend - t) \<le> earned limit window (tend - start)"
          using earned_add [OF lim(3), of limit t start tend] earned_nonneg [OF lim(3), of limit "t - start"] lim(1) st by simp
        then show ?thesis
          using True None st fl_limit [OF lim(1,2)] unfolding s' by (simp add: balance_def hold_def newBucket_def)
      next
        case False
        then show ?thesis
          using link unfolding s' by (auto simp: balance_def split: option.splits)
      qed
      ultimately show ?thesis
        using budgetD(2,5) [OF b] unfolding budget_def eq frame by (intro conjI) auto
    qed
  qed (use Some b in simp)
qed (use b in simp)

lemma budget_Locked:
  assumes b: "budget key limit window start tend s" and lim: "1 \<le> limit" "limit \<le> 2 ^ 53" "0 < window" "window \<le> maxInt64"
    and time: "wall s - start \<le> maxInt64"
  shows "budget key limit window start tend (perform (Locked i) s)"
proof (cases "calls s i")
  case (Some g)
  show ?thesis
  proof (cases g)
    case (Found a k l w t)
    note st = budgetD(3) [OF b Some, unfolded Found, simplified]
    have tab: "table s k = Some a"
      using linkedD(1) [OF budgetD(1) [OF b]] Some Found by blast
    obtain ok rest reset b' where run: "lockedAllow t l w (heap s a) = ((ok, rest, reset), b')"
      by (metis prod.exhaust)
    define s2 where s': "s2 = s\<lparr>heap := (heap s)(a := b'), calls := (calls s)(i := None),
        granted_keys := (if ok then k # granted_keys s else granted_keys s), locks := Suc (locks s)\<rparr>"
    then have eq: "perform (Locked i) s = s2"
      using Some Found run by simp
    have c: "0 \<le> rat_of_int limit / 2 ^ 53"
      using lim(1) by simp
    have frame: "wall s2 = wall s" "table s2 = table s" "locks s2 = Suc (locks s)"
      by (simp_all add: s')
    have rest: "linked s2" "\<forall>j g. calls s2 j = Some g \<longrightarrow> stage_ok key limit window start (wall s2) g" "start \<le> wall s2"
      using b unfolding s' by (auto simp: budget_def linked_def split: if_splits)
    have budgetI: ?thesis if "\<And>a. table s key = Some a \<Longrightarrow>
        bucket_since limit start (wall s) (heap s2 a)" "balance key limit window start tend s2 \<le>
        balance key limit window start tend s + of_int limit / 2 ^ 53"
      using rest that budgetD(5) [OF b] unfolding budget_def eq frame of_nat_Suc distrib_right mult_1
      by (intro conjI allI impI) (auto simp: frame)
    show ?thesis
    proof (cases "k = key")
      case True
      with st have lw: "l = limit" "w = window"
        by auto
      from lockedAllow_pays [OF budgetD(4) [OF b] time _ _ lim run [unfolded lw], of tend] tab True st
      have "bucket_since limit start (wall s) b'" "hold limit window tend b' + (if ok then 1 else 0) \<le>
          hold limit window tend (heap s a) + of_int limit / 2 ^ 53"
        by auto
      with True tab show ?thesis
        by (intro budgetI) (auto simp: s' balance_def split: if_splits)
    next
      case False
      have "table s key \<noteq> Some a"
        using budgetD(1) [OF b] tab False unfolding linked_def by blast
      with False budgetD(4) [OF b] c show ?thesis
        by (intro budgetI) (auto simp: s' balance_def split: option.splits)
    qed
  qed (use Some b in simp)
qed (use b in simp)

lemma budget_sweep:
  assumes "budget key limit window start tend s"
  shows "budget key limit window start tend (perform StartSweep s)"
    "budget key limit window start tend (perform (Inspect k) s)"
  using assms by (auto simp: budget_def linked_def balance_def split: option.splits)

lemma perform_wall: "wall s \<le> wall (perform x s)"
  by (cases x) (auto split: option.splits stage.splits prod.splits)

lemma fold_perform_wall: "wall s \<le> wall (fold perform acts s)"
  by (induction acts arbitrary: s) (auto intro: order_trans [OF perform_wall])

lemma budget_perform:
  assumes "budget key limit window start tend s" "configuredFor key limit window [x]" "x \<noteq> Delete"
    and "1 \<le> limit" "limit \<le> 2 ^ 53" "0 < window" "window \<le> maxInt64" "wall s - start \<le> maxInt64"
  shows "budget key limit window start tend (perform x s)"
proof (cases x)
  case (Begin i k l w)
  with assms(2) show ?thesis
    using budget_Begin [OF assms(1)] by (simp add: configuredFor_def)
next
  case (Lookup i)
  then show ?thesis
    using budget_Lookup [OF assms(1,4,5,6)] by blast
next
  case (Locked i)
  then show ?thesis
    using budget_Locked [OF assms(1,4-8)] by blast
next
  case StartSweep
  then show ?thesis
    using budget_sweep(1) [OF assms(1)] by blast
next
  case (Inspect k)
  then show ?thesis
    using budget_sweep(2) [OF assms(1)] by blast
next
  case (Elapse d)
  then show ?thesis
    using budget_Elapse [OF assms(1)] by blast
qed (use assms(3) in simp)

lemma budget_run:
  assumes "budget key limit window start tend s" "configuredFor key limit window acts" "Delete \<notin> set acts"
    and "1 \<le> limit" "limit \<le> 2 ^ 53" "0 < window" "window \<le> maxInt64"
    and "wall (fold perform acts s) - start \<le> maxInt64"
  shows "budget key limit window start tend (fold perform acts s)"
  using assms
proof (induction acts arbitrary: s)
  case (Cons x acts)
  have "wall s - start \<le> maxInt64"
    using fold_perform_wall [of s "x # acts"] Cons.prems(8) by linarith
  moreover have "configuredFor key limit window [x]" "configuredFor key limit window acts" "x \<noteq> Delete"
    using Cons.prems(2,3) by (auto simp: configuredFor_def)
  ultimately have "budget key limit window start tend (perform x s)"
    using Cons.prems by (intro budget_perform) simp_all
  with Cons.prems \<open>configuredFor key limit window acts\<close> show ?case
    by (simp add: Cons.IH)
qed simp

lemma budget_fresh: "budget key limit window t tend (fresh t)"
  by (simp add: budget_def linked_def balance_def fresh_def)

lemma budget_count:
  assumes "budget key limit window start (wall s) s" "1 \<le> limit" "0 < window"
  shows "of_nat (count_list (granted_keys s) key) \<le>
    of_int limit + earned limit window (wall s - start) + of_nat (locks s) * (of_int limit / 2 ^ 53)"
proof (cases "table s key")
  case None
  have "0 \<le> earned limit window (wall s - start)"
    using earned_nonneg [OF assms(3), of limit "wall s - start"] budgetD(2) [OF assms(1)] assms(2) by simp
  with None show ?thesis
    using budgetD(5) [OF assms(1)] assms(2) by (auto simp: balance_def intro: order_trans)
next
  case (Some a)
  have "0 \<le> hold limit window (wall s) (heap s a)"
    using budgetD(4) [OF assms(1) Some] earned_nonneg [OF assms(3)] assms(2)
    by (auto simp: hold_def bucket_since_def bucket_ok_def intro!: add_nonneg_nonneg)
  with Some show ?thesis
    using budgetD(5) [OF assms(1)] by (auto simp: balance_def intro: order_trans)
qed

section \<open>Calls at one instant\<close>

lemma refill_same: "lastRefill b = now \<Longrightarrow> refill now b = b"
  by (simp add: refill_def Sub_def minInt64_def maxInt64_def)

lemma lockedAllow_same:
  assumes "tokens b = of_int n" "1 \<le> n" "n \<le> 2 ^ 53" "lastRefill b = now"
  obtains rest reset b' where "lockedAllow now limit window b = ((True, rest, reset), b')"
    "tokens b' = of_int (n - 1)" "lastRefill b' = now"
proof -
  have "fl (of_int n - 1) = rat_of_int (n - 1)"
    using fl_int [of "n - 1"] assms(2,3) by simp
  then show ?thesis
    using assms that by (simp add: lockedAllow_def refill_same Let_def)
qed

lemma oneCall_known:
  assumes "calls s i = None" "table s key = Some a" "tokens (heap s a) = of_int n" "1 \<le> n" "n \<le> 2 ^ 53"
    and "lastRefill (heap s a) = wall s"
  obtains s' where "fold perform (oneCall i key limit window) s = s'" "calls s' i = None" "table s' key = Some a"
    "tokens (heap s' a) = of_int (n - 1)" "lastRefill (heap s' a) = wall s'" "granted_keys s' = key # granted_keys s"
proof -
  obtain rest reset b' where "lockedAllow (wall s) limit window (heap s a) = ((True, rest, reset), b')"
    "tokens b' = of_int (n - 1)" "lastRefill b' = wall s"
    using lockedAllow_same [OF assms(3-6)] by blast
  with assms(1,2) show ?thesis
    by (intro that [OF refl]) (simp_all add: oneCall_def)
qed

lemma burst_known:
  assumes "calls s i = None" "table s key = Some a" "tokens (heap s a) = of_int (int n)" "int n \<le> 2 ^ 53"
    and "lastRefill (heap s a) = wall s"
  shows "granted_keys (fold perform (concat (replicate n (oneCall i key limit window))) s) =
    replicate n key @ granted_keys s"
  using assms
proof (induction n arbitrary: s)
  case (Suc n)
  obtain s' where s': "fold perform (oneCall i key limit window) s = s'" "calls s' i = None" "table s' key = Some a"
    "tokens (heap s' a) = of_int (int (Suc n) - 1)" "lastRefill (heap s' a) = wall s'" "granted_keys s' = key # granted_keys s"
    by (rule oneCall_known [OF Suc.prems(1-3) _ Suc.prems(4,5), of limit window]) simp_all
  then show ?case
    using Suc.IH [of s'] Suc.prems(4) by (simp add: replicate_app_Cons_same)
qed simp

text \<open>A key without a bucket gets its whole limit at once.\<close>

lemma burst_unused:
  assumes "calls s i = None" "table s key = None" "1 \<le> limit" "limit \<le> 2 ^ 53"
  shows "granted_keys (fold perform (concat (replicate (nat limit) (oneCall i key limit window))) s) =
    replicate (nat limit) key @ granted_keys s"
proof -
  let ?s = "s\<lparr>table := (table s)(key \<mapsto> alloc s), heap := (heap s)(alloc s := newBucket (wall s) limit window),
    alloc := Suc (alloc s)\<rparr>"
  obtain n where n: "nat limit = Suc n"
    using assms(3) by (cases "nat limit") auto
  have "fold perform (oneCall i key limit window) s = fold perform (oneCall i key limit window) ?s"
    using assms(1,2) by (simp add: oneCall_def)
  then have "fold perform (concat (replicate (nat limit) (oneCall i key limit window))) s =
      fold perform (concat (replicate (nat limit) (oneCall i key limit window))) ?s"
    by (simp add: n)
  moreover have "granted_keys (fold perform (concat (replicate (nat limit) (oneCall i key limit window))) ?s) =
      replicate (nat limit) key @ granted_keys ?s"
    using assms fl_limit [OF assms(3,4)] by (intro burst_known [where a = "alloc s"]) (simp_all add: newBucket_def)
  ultimately show ?thesis
    by simp
qed

lemma doomed_kept: "Delete \<notin> set mid \<Longrightarrow> doomed s = Some key \<Longrightarrow> doomed (fold perform mid s) = Some key"
proof (induction mid arbitrary: s)
  case (Cons x mid)
  then have "doomed (perform x s) = Some key"
    by (cases x) (auto split: option.splits stage.splits prod.splits)
  with Cons show ?case
    by simp
qed simp

section \<open>What any interleaving lets through\<close>

text \<open>C7: 
  However the calls of the limiter interleave, with each other, with the clock and with a sweep
  that deletes nothing, the calls for one key that pass are at most the limit, plus what the window earns
  over the whole time, plus the rounding of one double per call. A call may hold an old reading of the
  clock when it gets the mutex: it then refills nothing.
\<close>

theorem memory_limiter_concurrent_bound:
  fixes acts :: "bucket_act list" and t :: int
  defines "s \<equiv> fold perform acts (fresh t)"
  assumes "configuredFor key limit window acts" "Delete \<notin> set acts"
    and "1 \<le> limit" "limit \<le> 2 ^ 53" "0 < window" "window \<le> maxInt64" "wall s - t \<le> maxInt64"
  shows "of_nat (count_list (granted_keys s) key) \<le>
    of_int limit + earned limit window (wall s - t) + of_nat (locks s) * (of_int limit / 2 ^ 53)"
proof -
  have "budget key limit window t (wall s) s"
    unfolding s_def using assms(2-8) [unfolded s_def] by (intro budget_run budget_fresh) simp_all
  then show ?thesis
    using assms(4,6) by (rule budget_count)
qed

text \<open>
  The sweep lets the bucket's mutex go before it deletes the key. Whatever calls used the idle bucket
  in between, as soon as the key is deleted its whole limit passes again, at that instant.
\<close>

theorem eviction_race_readmits:
  fixes key :: string and mid :: "bucket_act list" and s :: buckets
  defines "s1 \<equiv> fold perform (StartSweep # Inspect key # mid) s"
  assumes "doomed s = None" "table s key = Some a" "evictionTTL < Sub (wall s) (lastAccess (heap s a))"
    and "Delete \<notin> set mid" "calls s1 i = None"
    and "1 \<le> limit" "limit \<le> 2 ^ 53" "0 < window" "window \<le> maxInt64"
  shows "granted_keys (fold perform (Delete # concat (replicate (nat limit) (oneCall i key limit window))) s1) =
    replicate (nat limit) key @ granted_keys s1"
proof -
  let ?s = "perform Delete s1"
  have "doomed s1 = Some key"
    unfolding s1_def using assms(2-5) by (simp add: doomed_kept)
  then have "table ?s key = None" "calls ?s i = None" "granted_keys ?s = granted_keys s1"
    using assms(6) by simp_all
  then show ?thesis
    using burst_unused [OF _ _ assms(7,8), of ?s i key window] by simp
qed

text \<open>One request in an hour: a call that arrives while the sweep runs passes, and the next passes too.\<close>

theorem eviction_race_readmits_witness:
  "granted_keys (fold perform (Delete # concat (replicate (nat 1) (oneCall 2 ''ip'' 1 3600000000000)))
     (fold perform [StartSweep, Inspect ''ip'', Begin 1 ''ip'' 1 3600000000000, Lookup 1, Locked 1]
       ((fresh 7200000000000)\<lparr>table := [''ip'' \<mapsto> 0], heap := (\<lambda>_. bucketAt 0 1 3600000000000 0)\<rparr>))) =
    replicate (nat 1) ''ip'' @ granted_keys (fold perform
      [StartSweep, Inspect ''ip'', Begin 1 ''ip'' 1 3600000000000, Lookup 1, Locked 1]
       ((fresh 7200000000000)\<lparr>table := [''ip'' \<mapsto> 0], heap := (\<lambda>_. bucketAt 0 1 3600000000000 0)\<rparr>))"
  by (rule eviction_race_readmits [where a = 0])
    (simp_all add: fresh_def bucketAt_def evictionTTL_def Sub_def maxInt64_def minInt64_def split: prod.splits)

theorem memory_limiter_concurrent_bound_witness:
  "of_nat (count_list (granted_keys (fold perform [Begin 1 ''ip'' 2 1000, Elapse 500, Begin 2 ''ip'' 2 1000, Lookup 2,
        Lookup 1, Locked 2, Locked 1] (fresh 0))) ''ip'') \<le>
    of_int 2 + earned 2 1000 (wall (fold perform [Begin 1 ''ip'' 2 1000, Elapse 500, Begin 2 ''ip'' 2 1000, Lookup 2,
        Lookup 1, Locked 2, Locked 1] (fresh 0)) - 0) +
    of_nat (locks (fold perform [Begin 1 ''ip'' 2 1000, Elapse 500, Begin 2 ''ip'' 2 1000, Lookup 2,
        Lookup 1, Locked 2, Locked 1] (fresh 0))) * (of_int 2 / 2 ^ 53)"
  by (rule memory_limiter_concurrent_bound)
    (simp_all add: configuredFor_def fresh_def maxInt64_def split: prod.splits)

end
