(* ===== verification/SchemaGen.thy ===== *)
theory SchemaGen
  imports Schema NetIP Float64
begin

text \<open>
  The schema that \<open>GenerateSchema\<close> of \<open>internal/config/schema.go\<close> asks the reflection library for: the
  options of the reflector, the schema of the two types it maps by hand, the cache behind
  \<open>sync.Once\<close>. Durations are strings of a pattern there and are read with \<open>time.ParseDuration\<close> when
  the file is decoded; both are modelled, to compare what the pattern admits with what the function
  reads. Strings are bytes: the micro sign of the pattern is the two bytes C2 B5.
\<close>

section \<open>Reflector\<close>

datatype go_type = DurationType | YamlNodeType | NamedType string

record type_schema =
  ts_Type :: string
  ts_Pattern :: string
  ts_Description :: string
  ts_Examples :: "string list"

abbreviation micro :: string where
  "micro \<equiv> [CHR 0xC2, CHR 0xB5]"

definition durationPattern :: string where
  "durationPattern = ''^([0-9]+(ns|us|'' @ micro @ ''s|ms|s|m|h))+$''"

definition Mapper :: "go_type \<Rightarrow> type_schema option" where
  "Mapper t =
     (if t = DurationType then
        Some \<lparr>ts_Type = ''string'', ts_Pattern = durationPattern,
          ts_Description = ''Go duration string (e.g. 30s, 1m, 2h30m)'',
          ts_Examples = [''30s'', ''1m'', ''500ms'', ''2h30m'']\<rparr>
      else if t = YamlNodeType then
        Some \<lparr>ts_Type = [], ts_Pattern = [], ts_Description = ''Type-specific middleware configuration'', ts_Examples = []\<rparr>
      else None)"

record Reflector =
  FieldNameTag :: string
  DoNotReference :: bool
  ExpandedStruct :: bool
  AllowAdditionalProperties :: bool
  RequiredFromJSONSchemaTags :: bool
  rf_Mapper :: "go_type \<Rightarrow> type_schema option"

definition reflector :: Reflector where
  "reflector = \<lparr>FieldNameTag = ''yaml'', DoNotReference = False, ExpandedStruct = True,
     AllowAdditionalProperties = False, RequiredFromJSONSchemaTags = True, rf_Mapper = Mapper\<rparr>"

text \<open>\<open>reflect\<close> is the library's \<open>Reflect(&GatewayConfig{})\<close>, \<open>marshal\<close> is \<open>json.MarshalIndent\<close>. The state
  is the schema that the once-only function has left.\<close>

definition GenerateSchema :: "(Reflector \<Rightarrow> 's) \<Rightarrow> 's option \<Rightarrow> 's \<times> 's option" where
  "GenerateSchema reflect cachedSchema = (case cachedSchema of
       Some s \<Rightarrow> (s, cachedSchema)
     | None \<Rightarrow> (let s = reflect reflector in (s, Some s)))"

definition GenerateSchemaJSON ::
  "(Reflector \<Rightarrow> 's) \<Rightarrow> ('s \<Rightarrow> string + string) \<Rightarrow> 's option \<Rightarrow> (string + string) \<times> 's option" where
  "GenerateSchemaJSON reflect marshal cachedSchema =
     (case GenerateSchema reflect cachedSchema of (s, c) \<Rightarrow> (marshal s, c))"

section \<open>The pattern\<close>

definition patternUnits :: "string list" where
  "patternUnits = [''ns'', ''us'', micro @ ''s'', ''ms'', ''s'', ''m'', ''h'']"

definition digits :: "string \<Rightarrow> bool" where
  "digits ds \<longleftrightarrow> ds \<noteq> [] \<and> list_all isDigit ds"

inductive durationMatch :: "string \<Rightarrow> bool" where
  last: "digits ds \<Longrightarrow> u \<in> set patternUnits \<Longrightarrow> durationMatch (ds @ u)"
| more: "digits ds \<Longrightarrow> u \<in> set patternUnits \<Longrightarrow> durationMatch s \<Longrightarrow> durationMatch (ds @ u @ s)"

section \<open>ParseDuration\<close>

definition unitMap :: "string \<rightharpoonup> nat" where
  "unitMap = map_of [(''ns'', 1), (''us'', 10 ^ 3), (micro @ ''s'', 10 ^ 3), ([CHR 0xCE, CHR 0xBC] @ ''s'', 10 ^ 3),
     (''ms'', 10 ^ 6), (''s'', 10 ^ 9), (''m'', 60 * 10 ^ 9), (''h'', 3600 * 10 ^ 9)]"

fun leadingInt :: "nat \<Rightarrow> string \<Rightarrow> (nat \<times> string) option" where
  "leadingInt x [] = Some (x, [])"
| "leadingInt x (c # s) =
     (if \<not> isDigit c then Some (x, c # s)
      else if 2 ^ 63 div 10 < x then None
      else (let y = x * 10 + (byte c - 48) in if 2 ^ 63 < y then None else leadingInt y s))"

fun leadingFraction :: "nat \<Rightarrow> rat \<Rightarrow> bool \<Rightarrow> string \<Rightarrow> nat \<times> rat \<times> string" where
  "leadingFraction x scale overflow [] = (x, scale, [])"
| "leadingFraction x scale overflow (c # s) =
     (if \<not> isDigit c then (x, scale, c # s)
      else if overflow \<or> (2 ^ 63 - 1) div 10 < x \<or> 2 ^ 63 < x * 10 + (byte c - 48)
      then leadingFraction x scale True s
      else leadingFraction (x * 10 + (byte c - 48)) (fl (scale * 10)) False s)"

abbreviation inUnit :: "char \<Rightarrow> bool" where
  "inUnit c \<equiv> c \<noteq> CHR ''.'' \<and> \<not> isDigit c"

text \<open>One number with its unit: what it adds, and the rest of the text.\<close>

definition parseComponent :: "string \<Rightarrow> (nat \<times> string) option" where
  "parseComponent s =
     (if hd s \<noteq> CHR ''.'' \<and> \<not> isDigit (hd s) then None
      else (case leadingInt 0 s of
          None \<Rightarrow> None
        | Some (v, s1) \<Rightarrow>
            (let pre = (length s1 \<noteq> length s);
                 dot = (s1 \<noteq> [] \<and> hd s1 = CHR ''.'');
                 (f, scale, s2) = (if dot then leadingFraction 0 1 False (tl s1) else (0, 1, s1));
                 post = (dot \<and> length s2 \<noteq> length (tl s1));
                 u = takeWhile inUnit s2
             in if \<not> pre \<and> \<not> post \<or> u = [] then None
                else (case unitMap u of
                    None \<Rightarrow> None
                  | Some unit \<Rightarrow>
                      if 2 ^ 63 div unit < v then None
                      else (let w = v * unit + (if 0 < f then nat \<lfloor>fl (fl (of_nat f) * fl (of_nat unit / scale))\<rfloor> else 0)
                            in if 0 < f \<and> 2 ^ 63 < w then None else Some (w, dropWhile inUnit s2))))))"

lemma leadingInt_length: "leadingInt x s = Some (v, s') \<Longrightarrow> length s' \<le> length s"
  by (induction x s rule: leadingInt.induct) (fastforce simp: Let_def split: if_splits)+

lemma leadingFraction_length: "leadingFraction x scale ov s = (f, sc, s') \<Longrightarrow> length s' \<le> length s"
  by (induction x scale ov s rule: leadingFraction.induct) (fastforce split: if_splits)+

lemma dropWhile_shorter: "takeWhile p s \<noteq> [] \<Longrightarrow> length (dropWhile p s) < length s"
  by (metis append_Nil length_append length_greater_0_conv less_add_same_cancel2 takeWhile_dropWhile_id)

lemma parseComponent_shorter: "parseComponent s = Some (w, s') \<Longrightarrow> length s' < length s"
proof -
  assume p: "parseComponent s = Some (w, s')"
  then obtain v s1 where s1: "leadingInt 0 s = Some (v, s1)"
    by (auto simp: parseComponent_def split: if_splits option.splits)
  obtain f scale s2 where s2: "(if s1 \<noteq> [] \<and> hd s1 = CHR ''.'' then leadingFraction 0 1 False (tl s1) else (0, 1, s1)) = (f, scale, s2)"
    by (metis prod_cases3)
  have "length s2 \<le> length s1"
    using s2 leadingFraction_length [of 0 1 False "tl s1" f scale s2] by (auto split: if_splits)
  moreover have "takeWhile inUnit s2 \<noteq> []" "s' = dropWhile inUnit s2"
    using p s1 s2 by (auto simp: parseComponent_def Let_def split: if_splits option.splits prod.splits)
  ultimately show ?thesis
    using leadingInt_length [OF s1] dropWhile_shorter [of inUnit s2] by auto
qed

function parseComponents :: "nat \<Rightarrow> string \<Rightarrow> nat option" where
  "parseComponents d s =
     (if s = [] then Some d
      else (case parseComponent s of
          None \<Rightarrow> None
        | Some (w, s') \<Rightarrow>
            (let d' = (d + w) mod 2 ^ 64 in if 2 ^ 63 < d' then None else parseComponents d' s')))"
  by pat_completeness auto
termination
  by (relation "measure (\<lambda>(d, s). length s)") (auto dest: parseComponent_shorter)

definition ParseDuration :: "string \<Rightarrow> int option" where
  "ParseDuration text =
     (let signed = (text \<noteq> [] \<and> (hd text = CHR ''-'' \<or> hd text = CHR ''+''));
          neg = (signed \<and> hd text = CHR ''-'');
          s = (if signed then tl text else text)
      in if s = ''0'' then Some 0
         else if s = [] then None
         else (case parseComponents 0 s of
             None \<Rightarrow> None
           | Some d \<Rightarrow> if neg then Some (- int d) else if maxInt64 < int d then None else Some (int d)))"

section \<open>The duration a text means\<close>

inductive durationValue :: "string \<Rightarrow> nat \<Rightarrow> bool" where
  one: "digits ds \<Longrightarrow> u \<in> set patternUnits \<Longrightarrow> durationValue (ds @ u) (digitsVal ds * the (unitMap u))"
| add: "digits ds \<Longrightarrow> u \<in> set patternUnits \<Longrightarrow> durationValue s n \<Longrightarrow>
    durationValue (ds @ u @ s) (digitsVal ds * the (unitMap u) + n)"

abbreviation digitsFrom :: "nat \<Rightarrow> string \<Rightarrow> nat" where
  "digitsFrom x ds \<equiv> foldl (\<lambda>v c. v * 10 + (byte c - 48)) x ds"

section \<open>Lemmas\<close>

lemma patternUnits_unitMap:
  assumes "u \<in> set patternUnits"
  obtains n where "unitMap u = Some n" "0 < n" "u \<noteq> []" "list_all inUnit u"
proof -
  have "\<exists>n. unitMap u = Some n \<and> 0 < n \<and> u \<noteq> [] \<and> list_all inUnit u"
    using assms unfolding patternUnits_def
    by (auto simp: unitMap_def isDigit_def byte_def of_char_def)
  then show ?thesis
    using that by blast
qed

lemma durationValue_digit: "durationValue s n \<Longrightarrow> s \<noteq> [] \<and> isDigit (hd s)"
  by (induction rule: durationValue.induct) (auto simp: digits_def hd_append neq_Nil_conv)

lemma durationMatch_value: "durationMatch s \<longleftrightarrow> (\<exists>n. durationValue s n)"
proof
  show "durationMatch s \<Longrightarrow> \<exists>n. durationValue s n"
    by (induction rule: durationMatch.induct) (blast intro: durationValue.intros)+
  have "durationValue s n \<Longrightarrow> durationMatch s" for n
    by (induction rule: durationValue.induct) (auto intro: durationMatch.intros)
  then show "\<exists>n. durationValue s n \<Longrightarrow> durationMatch s"
    by blast
qed

lemma digitsFrom_mono: "x \<le> digitsFrom x ds"
proof (induction ds arbitrary: x)
  case (Cons c ds)
  have "x \<le> x * 10 + (byte c - 48)"
    by simp
  also have "\<dots> \<le> digitsFrom (x * 10 + (byte c - 48)) ds"
    by (rule Cons.IH)
  finally show ?case
    by simp
qed simp

lemma leadingInt_digits:
  assumes "list_all isDigit ds" "rest = [] \<or> \<not> isDigit (hd rest)" "digitsFrom x ds \<le> 2 ^ 63"
  shows "leadingInt x (ds @ rest) = Some (digitsFrom x ds, rest)"
  using assms
proof (induction ds arbitrary: x)
  case Nil
  then show ?case
    by (cases rest) auto
next
  case (Cons c ds)
  let ?y = "x * 10 + (byte c - 48)"
  have "?y \<le> 2 ^ 63"
    using digitsFrom_mono [of ?y ds] Cons.prems(3) by (simp del: power_numeral)
  moreover from this have "x \<le> 2 ^ 63 div 10"
    by (simp del: power_numeral add: less_eq_div_iff_mult_less_eq)
  ultimately show ?case
    using Cons by (simp del: power_numeral add: Let_def not_less)
qed

lemma parseComponent_pattern:
  assumes "digits ds" "u \<in> set patternUnits" "s = [] \<or> isDigit (hd s)" "digitsVal ds * the (unitMap u) \<le> 2 ^ 63"
  shows "parseComponent (ds @ u @ s) = Some (digitsVal ds * the (unitMap u), s)"
proof -
  obtain n where u: "unitMap u = Some n" "0 < n" "u \<noteq> []" "list_all inUnit u"
    using patternUnits_unitMap [OF assms(2)] by blast
  have "digitsVal ds * n \<le> 2 ^ 63"
    using assms(4) u(1) by (simp del: power_numeral)
  moreover have "digitsVal ds * 1 \<le> digitsVal ds * n"
    using u(2) by (intro mult_le_mono) simp_all
  ultimately have v: "digitsVal ds \<le> 2 ^ 63"
    unfolding mult_1_right by (rule order_trans [rotated])
  have hd: "\<not> isDigit (hd (u @ s))" "hd (u @ s) \<noteq> CHR ''.''"
    using u(3,4) by (cases u; simp)+
  then have "leadingInt 0 (ds @ u @ s) = Some (digitsVal ds, u @ s)"
    using leadingInt_digits [of ds "u @ s" 0] assms(1) v by (simp add: digits_def digitsVal_def del: power_numeral)
  moreover have "takeWhile inUnit (u @ s) = u" "dropWhile inUnit (u @ s) = s"
    using u(4) assms(3) by (cases s; auto simp: list_all_iff)+
  moreover have "isDigit (hd (ds @ u @ s))" "ds \<noteq> []"
    using assms(1) by (cases ds; simp add: digits_def)+
  moreover have "\<not> 2 ^ 63 div n < digitsVal ds"
    using assms(4) u(1,2) by (simp del: power_numeral add: not_less less_eq_div_iff_mult_less_eq)
  ultimately show ?thesis
    using u hd unfolding parseComponent_def by (simp del: power_numeral)
qed

lemma int_small: "int k \<le> maxInt64 \<Longrightarrow> k < 2 ^ 63" "int k \<le> maxInt64 \<Longrightarrow> k < 2 ^ 64"
  by (simp_all add: maxInt64_def)

lemma parseComponents_pattern:
  assumes "durationValue s n" "int (d + n) \<le> maxInt64"
  shows "parseComponents d s = Some (d + n)"
  using assms
proof (induction arbitrary: d rule: durationValue.induct)
  case (one ds u)
  let ?n = "digitsVal ds * the (unitMap u)"
  have "?n \<le> 2 ^ 63" "d + ?n < 2 ^ 64" "\<not> 2 ^ 63 < d + ?n"
    using int_small [OF one.prems] by linarith+
  then show ?case
    using parseComponent_pattern [OF one(1,2), of "[]"] one(1) by (simp add: digits_def Let_def del: power_numeral)
next
  case (add ds u s n)
  let ?n = "digitsVal ds * the (unitMap u)"
  have "?n \<le> 2 ^ 63" "d + ?n < 2 ^ 64" "\<not> 2 ^ 63 < d + ?n" "int (d + ?n + n) \<le> maxInt64"
    using int_small [OF add.prems] add.prems unfolding add.assoc by linarith+
  then show ?case
    using parseComponent_pattern [OF add(1,2), of s] add.IH [of "d + ?n"] durationValue_digit [OF add(3)] add(1)
    by (subst parseComponents.simps) (simp add: digits_def Let_def add.assoc del: power_numeral)
qed

text \<open>All calls give the JSON of the first, so the text of the schema is a constant of the process.\<close>

lemma GenerateSchemaJSON_once:
  "c \<in> {None, Some (reflect reflector)} \<Longrightarrow>
    GenerateSchemaJSON reflect marshal c = (marshal (reflect reflector), Some (reflect reflector))"
  by (auto simp: GenerateSchemaJSON_def GenerateSchema_def Let_def)

section \<open>What the pattern promises\<close>

lemma isDigit_signs: "\<not> isDigit CHR ''.''" "\<not> isDigit CHR ''+''" "\<not> isDigit CHR ''-''" "isDigit CHR ''0''"
  by (simp_all add: isDigit_def byte_def of_char_def)

lemma component_chars:
  assumes "digits ds" "u \<in> set patternUnits"
  shows "isDigit (hd (ds @ u @ s))" "\<not> isDigit (List.last (ds @ u))" "CHR ''.'' \<notin> set (ds @ u)" "u \<noteq> []"
proof -
  obtain n where u: "u \<noteq> []" "list_all inUnit u"
    using patternUnits_unitMap [OF assms(2)] by blast
  then show "isDigit (hd (ds @ u @ s))" "u \<noteq> []"
    using assms(1) by (cases ds; simp add: digits_def)+
  have "List.last u \<in> set u"
    using u(1) by simp
  then show "\<not> isDigit (List.last (ds @ u))" "CHR ''.'' \<notin> set (ds @ u)"
    using u assms(1) isDigit_signs(1) by (auto simp: digits_def list_all_iff)
qed

lemma durationMatch_unsigned: "durationMatch s \<Longrightarrow> isDigit (hd s) \<and> \<not> isDigit (List.last s) \<and> CHR ''.'' \<notin> set s"
proof (induction rule: durationMatch.induct)
  case (last ds u)
  then show ?case
    using component_chars(1) [OF last(1,2), of "[]"] component_chars(2,3) [OF last(1,2)] by simp
next
  case (more ds u s)
  have "s \<noteq> []"
    using more(3) durationValue_digit durationMatch_value by blast
  then show ?case
    using component_chars(1) [OF more(1,2), of s] component_chars(3) [OF more(1,2)] more(4) by simp
qed

text \<open>C21: 
  Every text the schema's pattern admits means a sum of numbers with units, and if that sum fits
  an int64 of nanoseconds \<open>time.ParseDuration\<close> reads the text as exactly this, never as a negative
  duration. The fractions, the sign and the bare zero that the function also reads are outside the
  pattern.
\<close>

theorem schema_durations_parse:
  "(durationMatch s \<longleftrightarrow> (\<exists>n. durationValue s n)) \<and>
   (\<forall>n. durationValue s n \<longrightarrow> int n \<le> maxInt64 \<longrightarrow> ParseDuration s = Some (int n)) \<and>
   (durationMatch s \<longrightarrow> s \<noteq> ''0'' \<and> hd s \<notin> {CHR ''+'', CHR ''-''} \<and> CHR ''.'' \<notin> set s)"
proof (intro conjI allI impI durationMatch_value)
  fix n
  assume s: "durationValue s n" "int n \<le> maxInt64"
  then have "isDigit (hd s)" "s \<noteq> []" "\<not> isDigit (List.last s)"
    using durationValue_digit [OF s(1)] durationMatch_unsigned [of s] durationMatch_value [of s] by blast+
  then have "hd s \<noteq> CHR ''-''" "hd s \<noteq> CHR ''+''" "s \<noteq> ''0''"
    using isDigit_signs by auto
  then show "ParseDuration s = Some (int n)"
    using parseComponents_pattern [OF s(1), of 0] s(2) \<open>s \<noteq> []\<close> by (simp add: ParseDuration_def Let_def)
next
  assume "durationMatch s"
  note s = durationMatch_unsigned [OF this]
  then show "s \<noteq> ''0''" "hd s \<notin> {CHR ''+'', CHR ''-''}" "CHR ''.'' \<notin> set s"
    using isDigit_signs by auto
qed

theorem schema_durations_parse_witness:
  "ParseDuration ''2h30m'' = Some 9000000000000 \<and> \<not> durationMatch ''-5s'' \<and> ParseDuration ''-5s'' = Some (- 5000000000)"
proof -
  have d: "digits ''2''" "digits ''30''" "''h'' \<in> set patternUnits" "''m'' \<in> set patternUnits"
    by (simp_all add: digits_def isDigit_def byte_def of_char_def patternUnits_def)
  have "durationValue (''2'' @ ''h'' @ (''30'' @ ''m'')) 9000000000000"
    using durationValue.add [OF d(1,3) durationValue.one [OF d(2,4)]]
    by (simp add: unitMap_def digitsVal_def byte_def of_char_def)
  then have "ParseDuration ''2h30m'' = Some 9000000000000"
    using schema_durations_parse [of "''2h30m''"] by (simp add: maxInt64_def)
  moreover have "\<not> durationMatch ''-5s''"
    using schema_durations_parse [of "''-5s''"] by auto
  moreover have "durationValue (''5'' @ ''s'') 5000000000"
    using durationValue.one [of "''5''" "''s''"]
    by (simp add: unitMap_def digitsVal_def digits_def isDigit_def patternUnits_def byte_def of_char_def)
  then have "parseComponents 0 ''5s'' = Some 5000000000"
    using parseComponents_pattern [of "''5s''" 5000000000 0] by (simp add: maxInt64_def)
  then have "ParseDuration ''-5s'' = Some (- 5000000000)"
    by (simp add: ParseDuration_def)
  ultimately show ?thesis
    by blast
qed

end
