(* ===== verification/Spec2Isabelle.thy ===== *)
theory Spec2Isabelle
  imports Lifecycle Reload Collector Buckets SchemaGen
begin

text \<open>
  Tanugate is an HTTP API gateway written in Go. This development models the code under \<open>src/cmd\<close>
  and \<open>src/internal\<close> and proves it correct, component by component and as a whole.

  \<^bold>\<open>The program.\<close> A process (\<open>cmd/gateway/main.go\<close>) loads a YAML file (\<open>internal/config\<close>):
  environment variables are substituted, the text is checked against a JSON schema, decoded, filled
  with defaults and checked semantically. The pipeline builder (\<open>internal/pipeline\<close>) makes one
  handler of the configuration. A request passes the global chain (recovery, request id, logging,
  metrics), the router (\<open>internal/router\<close>), and for the matched route its middlewares in the order of
  the configuration (CORS, rate limit, authentication), its transforms, the retry handler with its
  circuit breaker, and the proxy (\<open>internal/proxy\<close>). SIGHUP reloads the file: a file that loads
  replaces configuration and handler, one that does not leaves the gateway as it was. SIGINT, SIGTERM
  or a failure of the server end the process through a shutdown. Two more commands validate a file and
  print the schema.

  \<^bold>\<open>Theories, from the bottom up.\<close>
  \<^item> \<open>Prelude\<close>: Go's \<open>strings\<close>, \<open>strconv\<close> and \<open>time\<close> as far as the sources use them, with the
    collections \<open>go_strings\<close> and \<open>go_time\<close>. \<open>Http\<close>: header maps and requests. \<open>NetIP\<close>: addresses and
    networks of package \<open>net\<close>. \<open>Float64\<close>: rationals rounded to 53 bits.
  \<^item> \<open>ConfigTypes\<close>: the structs of \<open>config.go\<close>. \<open>Resolve\<close>: \<open>resolve.go\<close>, lookup, merge and decoding of
    middleware references. \<open>Validate\<close>: \<open>applyDefaults\<close>, \<open>semanticErrors\<close> and the functions they call,
    against the declarative \<open>valid_config\<close>. \<open>Schema\<close>: \<open>schema.go\<close>, cache, conversion and error
    extraction. \<open>SchemaGen\<close>: what the generated schema says of durations, with \<open>time.ParseDuration\<close>. \<open>Load\<close>: \<open>LoadConfig\<close>, \<open>Validate\<close>, environment substitution. \<open>ConfigDiff\<close>: the comparisons
    made by a reload.
  \<^item> \<open>Writers\<close>: the response writers of \<open>responsewriter.go\<close>, \<open>cors.go\<close> and \<open>transform.go\<close> as one datatype
    whose constructors nest as the Go values do, over the connection of \<open>net/http\<close> or a recorder.
    \<open>Middleware\<close>: handlers, \<open>Chain\<close>, recovery, request id, logging, CORS. \<open>CorsPolicy\<close>: the header
    rules of CORS. \<open>Router\<close>: compilation and dispatch.
  \<^item> \<open>CircuitBreaker\<close>: \<open>Execute\<close> as two atomic sections, as one call, and interleaved by the step
    relation \<open>cb_step\<close>; the abstract machine it refines. \<open>Retry\<close>: the two resilience handlers.
  \<^item> \<open>Limiter\<close>: the interface of the limiters as a locale. \<open>MemoryLimiter\<close> and \<open>RedisLimiter\<close>: its two
    implementations. \<open>Buckets\<close>: concurrent calls of the memory limiter, over a heap of buckets.
    \<open>RateLimit\<close>: key extraction, trusted proxies and the middleware. \<open>RateBound\<close>: the
    middleware over the two implementations.
  \<^item> \<open>Auth\<close>: API key, JWT and OIDC authenticators and their middleware. \<open>VarPattern\<close>, \<open>Transform\<close>:
    placeholders, header and body transforms. \<open>Proxy\<close>: director, path rewriting, error handler.
    \<open>Observability\<close>: metrics middleware and health handler. \<open>Collector\<close>: the Prometheus vectors, their
    registration, and the gauges of the breakers.
  \<^item> \<open>Pipeline\<close>: registry, factories, \<open>BuildHandler\<close>. \<open>Gateway\<close>: start-up, multiplexer, reload, and the
    states a running gateway can reach. \<open>Reload\<close>: a reload split at its stores, interleaved with requests.
    \<open>Lifecycle\<close>: the commands and their flags, the select loop, the shutdown.

  \<^bold>\<open>How code is modelled.\<close> A struct is a record, a tagged value a datatype, an error a value of a sum.
  A handler is a function of request, writer and world that returns the writer, how it ended
  (\<open>Returned\<close> or \<open>Panicked\<close>) and the world; the world is a type variable, and what a component needs of
  it (clock, random bytes, heap cells, counters, transport) is an argument. A section under a mutex
  is one step. Durations and instants are integers of nanoseconds; \<open>Time.Sub\<close> saturates at 64 bits;
  float64 results are rounded. A Go map whose order shows is a list in the order of one iteration,
  and theorems hold for every order. All recursion but one ends: the loops of \<open>ReplaceAll\<close>, \<open>ReplaceVars\<close>,
  \<open>ParseDuration\<close> and the IPv6 parser by measures on what is left, \<open>retryLoop\<close> by the attempts left,
  \<open>WriteHeader\<close> and \<open>Write\<close> by the nesting of the writer. The select loop of \<open>runServe\<close> may run for ever: it
  is a partial function over an infinite schedule, and it is shown when it returns. There is no fuel.

  \<^bold>\<open>What is shown.\<close>
  \<^item> Composition: the builder succeeds on every valid configuration and its handler is the documented
    order of layers with the first matching route; every reachable state of the process serves a valid
    configuration by its own handler; reloads are all or nothing, and a request that runs beside one is
    answered by the gateway of the configuration in force when it arrived; no panic leaves the gateway; a request that authentication refuses does not reach
    the upstream.
  \<^item> Life of the process: the select loop returns exactly when a stop signal or a failure of the server
    is there to be read; the shutdown releases every resource once; \<open>validate\<close> foretells the start.
  \<^item> Refinement and equivalence: the results of the breaker's calls are those of the closed/open/half-open machine; the compiled
    router is the declarative first match; the semantic checks decide \<open>valid_config\<close>; the comparisons
    of a reload decide equality; the path rewriting fills its template.
  \<^item> Bounds: the token bucket admits at most the limit and the share of it for the time that passed,
    rounding included (the share of the window or, because of eviction, of five minutes if that is shorter), also when
    calls interleave, and so do the requests that pass the middleware one after another; the sliding window, shortened by the
    largest delay between a process's clock reading and the run of its script, holds at most the limit over all processes;
    retries are at most \<open>max_retries\<close> and repeat the request unchanged; the counters of the breaker.
  \<^item> Behaviour of answers: statuses, headers, framing and metrics that reach the client, refusals 429,
    401 and 503, error paths of loading and schema validation. A call on a metric panics only on a label
    value that is not UTF-8, and the gauges follow the breaker. Durations that pass the schema are read as what they mean.
  \<^item> Deviations: theorems about what the code does where a comment, the documentation or the purpose
    says otherwise (a panicking probe wedges the breaker, eviction refunds long windows, a provider
    brought in by a reload answers 500, an oversized body aborts, a null body panics, a window under a
    millisecond does not limit, a delayed script exceeds its window, a stop signal can be lost behind a reload, an eviction that races with a
    call readmits the whole limit, and others).

  \<^bold>\<open>Interfaces.\<close> The locale \<open>wellbehaved\<close> is what handlers promise each other (the writer is changed by its
  methods only), interpreted for every middleware; \<open>limiter\<close> is what the rate limit middleware relies
  on, interpreted for the memory limiter; \<open>breaker_cell\<close> is a breaker kept somewhere in a state,
  interpreted for the interleaved calls.

  \<^bold>\<open>Parameters.\<close> Code outside the repository is an argument: \<open>regexp\<close>, the YAML decoder and printer, the
  JSON codec, the schema generator and validator, \<open>golang-jwt\<close>, \<open>go-oidc\<close>, key files, the upstream
  transport, \<open>url.Parse\<close>, SHA-256, the file system, the environment, Prometheus, \<open>slog\<close> and Redis. Where
  a theorem needs something of them it says so by a predicate (\<open>jwt_documented\<close>, \<open>output_documented\<close>,
  \<open>visits\<close>, \<open>zset_documented\<close>, \<open>prom_documented\<close>, \<open>logged\<close>), and its witness has a concrete instance.

  \<^bold>\<open>Simplifications.\<close> One request body is one value and the proxy copies a response body in one write. The
  response transform reads the clock once. A limit reader at \<open>MaxInt64\<close> is taken as unlimited. The
  counters of the breaker do not wrap (that would take $2^{63}$ calls). Times given to Redis are below
  $2^{53}$ milliseconds; a script runs at an instant of its own, at or after the clock reading it was sent with. A
  request is served in one step by the handler it loaded. \<open>ServeMux\<close> does not redirect unclean paths. The
  connection is that of a request other than HEAD; it does not compare the body with a Content-Length the handler
  declared, and does not panic on a status that is no HTTP status. The reverse proxy forwards no 1xx responses, does
  not flush while it copies, and reads a response body without error. A nil body (\<open>None\<close>) is kept apart
  from an empty one; a request from the server has a body, if only an empty one.

  \<^bold>\<open>Not modelled.\<close> Sockets and the delivery of signals by the system, the ticker that starts a sweep of the
  memory limiter (a run may sweep at any time), the reflection below \<open>GenerateSchema\<close>, the format of log
  lines and of \<open>/metrics\<close>, protocol upgrades and trailers, what the Redis client does when it is opened,
  pinged and closed: each is a call of the operating system or of a library with no decision of the
  gateway's own.

  \<^bold>\<open>Next.\<close> The bound of the Redis backend for the requests that pass the middleware; a bound over time for
  the leaky bucket; evictions among the concurrent calls of the memory limiter.
\<close>

end
